(* ===== verification/Prelude.thy ===== *)
theory Prelude
  imports Main "HOL-Library.Word"
begin

text \<open>
  Shared vocabulary of the development: machine integers, byte slices and their big-endian
  views, Go's error and panic outcomes, and the parts of Go's \<^verbatim>\<open>net\<close> package (addresses,
  masks, networks) that several components of pig use. Lemmas that every component needs are
  collected in the \<open>be_simps\<close> and \<open>go_simps\<close> sets.
\<close>

unbundle bit_operations_syntax

named_theorems be_simps \<open>big-endian encoding and decoding of fixed-width integers\<close>
named_theorems go_simps \<open>unfolding of Go's result plumbing\<close>

section \<open>Machine integers and byte slices\<close>

type_synonym byte = "8 word"
type_synonym u8 = "8 word"
type_synonym u16 = "16 word"
type_synonym u32 = "32 word"
type_synonym u64 = "64 word"
type_synonym bytes = "byte list"

section \<open>Outcomes: values, errors and panics\<close>

text \<open>
  A Go function that may fail returns \<open>Inr v\<close> for a value, \<open>Inl (Err msg)\<close> for an error value
  and \<open>Inl Panic\<close> for a run-time panic (an index or slice bound out of range, a nil
  dereference).
\<close>

datatype go_error = Panic | Err string

type_synonym 'a result = "go_error + 'a"

definition rbind :: "'a result \<Rightarrow> ('a \<Rightarrow> 'b result) \<Rightarrow> 'b result" where
  "rbind m f = (case m of Inl e \<Rightarrow> Inl e | Inr v \<Rightarrow> f v)"

lemma rbind_simps [simp, go_simps]:
  "rbind (Inl e) f = Inl e"
  "rbind (Inr v) f = f v"
  by (simp_all add: rbind_def)

lemma rbind_Inr_iff [go_simps]: "rbind m f = Inr y \<longleftrightarrow> (\<exists>x. m = Inr x \<and> f x = Inr y)"
  by (cases m) auto

lemma rbind_cong [fundef_cong]:
  "m = m' \<Longrightarrow> (\<And>v. m' = Inr v \<Longrightarrow> f v = g v) \<Longrightarrow> rbind m f = rbind m' g"
  by (cases m') auto

text \<open>
  \<open>slice xs a b\<close> is Go's \<^verbatim>\<open>xs[a:b]\<close> on a slice whose capacity is its length: it panics when
  the bounds are out of range.
\<close>

definition slice :: "'a list \<Rightarrow> nat \<Rightarrow> nat \<Rightarrow> 'a list result" where
  "slice xs a b = (if a \<le> b \<and> b \<le> length xs then Inr (take (b - a) (drop a xs)) else Inl Panic)"

lemma slice_Inr [simp]: "a \<le> b \<Longrightarrow> b \<le> length xs \<Longrightarrow> slice xs a b = Inr (take (b - a) (drop a xs))"
  by (simp add: slice_def)

lemma slice_Inr_iff: "slice xs a b = Inr ys \<longleftrightarrow>
    a \<le> b \<and> b \<le> length xs \<and> ys = take (b - a) (drop a xs)"
  by (auto simp: slice_def)

text \<open>
  \<open>splice xs i ys\<close> is the slice \<open>xs\<close> after \<^verbatim>\<open>copy(xs[i:], ys)\<close>: Go copies only what fits.
\<close>

definition splice :: "'a list \<Rightarrow> nat \<Rightarrow> 'a list \<Rightarrow> 'a list" where
  "splice xs i ys = take i xs @ take (length xs - i) ys @ drop (i + length ys) xs"

lemma length_splice [simp]: "i \<le> length xs \<Longrightarrow> length (splice xs i ys) = length xs"
  by (auto simp: splice_def min_def)

lemma nth_splice:
  assumes "j < length xs" "i \<le> length xs"
  shows "splice xs i ys ! j = (if i \<le> j \<and> j < i + length ys then ys ! (j - i) else xs ! j)"
  using assms by (auto simp: splice_def nth_append min_def not_less)

lemma splice_fit:
  "i + length ys \<le> length xs \<Longrightarrow> splice xs i ys = take i xs @ ys @ drop (i + length ys) xs"
  by (simp add: splice_def)

section \<open>Big-endian integers\<close>

definition be16 :: "byte \<Rightarrow> byte \<Rightarrow> u16" where
  "be16 a b = (push_bit 8 (ucast a) OR ucast b)"

definition be32 :: "byte \<Rightarrow> byte \<Rightarrow> byte \<Rightarrow> byte \<Rightarrow> u32" where
  "be32 a b c d = (push_bit 24 (ucast a) OR push_bit 16 (ucast b) OR push_bit 8 (ucast c) OR ucast d)"

definition be64 :: "u32 \<Rightarrow> u32 \<Rightarrow> u64" where
  "be64 hi lo = (push_bit 32 (ucast hi) OR ucast lo)"

text \<open>\<open>binary.BigEndian.Uint16(b[i:])\<close> and its siblings, for an index in range.\<close>

definition get16 :: "bytes \<Rightarrow> nat \<Rightarrow> u16" where
  "get16 b i = be16 (b ! i) (b ! (i + 1))"

definition get32 :: "bytes \<Rightarrow> nat \<Rightarrow> u32" where
  "get32 b i = be32 (b ! i) (b ! (i + 1)) (b ! (i + 2)) (b ! (i + 3))"

definition get64 :: "bytes \<Rightarrow> nat \<Rightarrow> u64" where
  "get64 b i = be64 (get32 b i) (get32 b (i + 4))"

text \<open>The bytes that \<^verbatim>\<open>binary.BigEndian.PutUint16\<close> and its siblings write.\<close>

definition put16 :: "u16 \<Rightarrow> bytes" where
  "put16 w = [ucast (drop_bit 8 w), ucast w]"

definition put32 :: "u32 \<Rightarrow> bytes" where
  "put32 w = [ucast (drop_bit 24 w), ucast (drop_bit 16 w), ucast (drop_bit 8 w), ucast w]"

definition put64 :: "u64 \<Rightarrow> bytes" where
  "put64 w = put32 (ucast (drop_bit 32 w)) @ put32 (ucast w)"

lemma length_put [simp, be_simps]:
  "length (put16 x) = 2" "length (put32 y) = 4" "length (put64 z) = 8"
  by (simp_all add: put16_def put32_def put64_def)

lemma be16_put [be_simps]: "be16 (ucast (drop_bit 8 w)) (ucast w) = (w :: u16)"
  by (rule bit_word_eqI) (force simp: be16_def bit_simps not_less)

lemma be32_put [be_simps]:
  "be32 (ucast (drop_bit 24 w)) (ucast (drop_bit 16 w)) (ucast (drop_bit 8 w)) (ucast w) = (w :: u32)"
proof (rule bit_word_eqI)
  fix n assume "n < LENGTH(32)"
  then have n: "n < 32" by simp
  consider "n < 8" | "8 \<le> n" "n < 16" | "16 \<le> n" "n < 24" | "24 \<le> n" by linarith
  then show "bit (be32 (ucast (drop_bit 24 w)) (ucast (drop_bit 16 w)) (ucast (drop_bit 8 w)) (ucast w)) n
      = bit w n"
    using n by cases (auto simp: be32_def bit_simps)
qed

lemma be64_put [be_simps]: "be64 (ucast (drop_bit 32 w)) (ucast w) = (w :: u64)"
  by (rule bit_word_eqI) (auto simp: be64_def bit_simps not_less)

lemma be16_bytes [be_simps]:
  "ucast (drop_bit 8 (be16 a b)) = a" "ucast (be16 a b) = b"
  by (rule bit_word_eqI; auto simp: be16_def bit_simps dest: bit_imp_le_length)+

lemma be32_bytes [be_simps]:
  "ucast (drop_bit 24 (be32 a b c d)) = a" "ucast (drop_bit 16 (be32 a b c d)) = b"
  "ucast (drop_bit 8 (be32 a b c d)) = c" "ucast (be32 a b c d) = d"
  by (rule bit_word_eqI; auto simp: be32_def bit_simps dest: bit_imp_le_length)+

lemma put16_be16 [be_simps]: "put16 (be16 a b) = [a, b]"
  by (simp add: put16_def be_simps)

lemma put32_be32 [be_simps]: "put32 (be32 a b c d) = [a, b, c, d]"
  by (simp add: put32_def be_simps)

text \<open>Reading what was written, inside a longer slice.\<close>

lemma get16_put16 [be_simps]: "get16 (put16 w @ xs) 0 = w"
  by (simp add: get16_def put16_def be_simps)

lemma get32_put32 [be_simps]: "get32 (put32 w @ xs) 0 = w"
  by (simp add: get32_def put32_def be_simps)

lemma get64_put64 [be_simps]: "get64 (put64 w @ xs) 0 = w"
  by (simp add: get64_def put64_def get32_def put32_def be_simps)

lemma get16_append [be_simps]:
  "length xs \<le> i \<Longrightarrow> get16 (xs @ ys) i = get16 ys (i - length xs)"
  by (simp add: get16_def nth_append Suc_diff_le)

lemma get32_append [be_simps]:
  "length xs \<le> i \<Longrightarrow> get32 (xs @ ys) i = get32 ys (i - length xs)"
  by (simp add: get32_def nth_append Suc_diff_le)

lemma get64_append [be_simps]:
  "length xs \<le> i \<Longrightarrow> get64 (xs @ ys) i = get64 ys (i - length xs)"
  by (simp add: get64_def get32_append)

lemma get16_append_left [be_simps]:
  "i + 1 < length xs \<Longrightarrow> get16 (xs @ ys) i = get16 xs i"
  by (simp add: get16_def nth_append)

lemma get32_append_left [be_simps]:
  "i + 3 < length xs \<Longrightarrow> get32 (xs @ ys) i = get32 xs i"
  by (simp add: get32_def nth_append)

lemma unat_of_nat_eq: "n < 2 ^ LENGTH('a) \<Longrightarrow> unat (of_nat n :: 'a::len word) = n"
  by (simp only: unat_of_nat mod_less)

lemma unat_byte_less: "unat (b :: byte) < 256"
proof -
  have "unat b < 2 ^ LENGTH(8)" by (rule unsigned_less)
  then show ?thesis by simp
qed

lemma unat_be16: "unat (be16 a b) = 256 * unat a + unat b"
proof -
  have "be16 a b = push_bit 8 (ucast a) + ucast b"
    unfolding be16_def by (rule disjunctive_add [symmetric]) (auto simp: bit_simps dest: bit_imp_le_length)
  also have "\<dots> = of_nat (256 * unat a + unat b)"
    by (simp add: push_bit_eq_mult)
  finally have eq: "be16 a b = of_nat (256 * unat a + unat b)" .
  have "unat a < 256" "unat b < 256" by (rule unat_byte_less)+
  then have "256 * unat a + unat b < 2 ^ LENGTH(16)" by simp
  then show ?thesis
    unfolding eq by (rule unat_of_nat_eq)
qed

section \<open>Addresses, masks and networks of Go's net package\<close>

text \<open>
  A \<^verbatim>\<open>net.IP\<close> is a byte slice: 4 bytes for IPv4, 16 bytes for IPv6 or for an IPv4 address in
  its IPv4-mapped form. Go's nil address is the empty slice here.
\<close>

type_synonym ip = bytes

definition v4InV6Prefix :: bytes where
  "v4InV6Prefix = replicate 10 0 @ [255, 255]"

definition To4 :: "ip \<Rightarrow> ip option" where
  "To4 a = (if length a = 4 then Some a
            else if length a = 16 \<and> take 12 a = v4InV6Prefix then Some (drop 12 a)
            else None)"

definition To16 :: "ip \<Rightarrow> ip option" where
  "To16 a = (if length a = 4 then Some (v4InV6Prefix @ a)
             else if length a = 16 then Some a
             else None)"

definition IP_Equal :: "ip \<Rightarrow> ip \<Rightarrow> bool" where
  "IP_Equal a b =
     (if length a = length b then a = b
      else if length a = 4 \<and> length b = 16 then take 12 b = v4InV6Prefix \<and> a = drop 12 b
      else if length a = 16 \<and> length b = 4 then take 12 a = v4InV6Prefix \<and> drop 12 a = b
      else False)"

record IPNet =
  net_IP :: ip
  net_Mask :: bytes

text \<open>\<open>IPMask.Size\<close>: the number of leading ones and the width, \<open>(0, 0)\<close> when not canonical.\<close>

definition byte_bits :: "byte \<Rightarrow> bool list" where
  "byte_bits b = map (\<lambda>i. bit b (7 - i)) [0..<8]"

definition mask_bits :: "bytes \<Rightarrow> bool list" where
  "mask_bits m = concat (map byte_bits m)"

definition Mask_Size :: "bytes \<Rightarrow> nat \<times> nat" where
  "Mask_Size m =
     (let bs = mask_bits m; ones = length (takeWhile id bs)
      in if list_all Not (drop ones bs) then (ones, length m * 8) else (0, 0))"

text \<open>\<open>IP.Mask\<close>: the network address; the empty slice (nil) when the lengths do not match.\<close>

definition IP_Mask :: "ip \<Rightarrow> bytes \<Rightarrow> ip" where
  "IP_Mask a m =
     (let m' = (if length m = 16 \<and> length a = 4 \<and> list_all (\<lambda>b. b = 255) (take 12 m) then drop 12 m else m);
          a' = (if length m' = 4 \<and> length a = 16 \<and> take 12 a = v4InV6Prefix then drop 12 a else a)
      in if length a' = length m' then map2 (AND) a' m' else [])"

text \<open>\<open>IPNet.Contains\<close> with its helper \<open>networkNumberAndMask\<close>.\<close>

definition networkNumberAndMask :: "IPNet \<Rightarrow> ip \<times> bytes" where
  "networkNumberAndMask n =
     (let ip = (case To4 (net_IP n) of Some a \<Rightarrow> a | None \<Rightarrow> net_IP n); m = net_Mask n
      in if To4 (net_IP n) = None \<and> length ip \<noteq> 16 then ([], [])
         else if length m = 4 then (if length ip \<noteq> 4 then ([], []) else (ip, m))
         else if length m = 16 then (if length ip = 4 then (ip, drop 12 m) else (ip, m))
         else ([], []))"

definition IPNet_Contains :: "IPNet \<Rightarrow> ip \<Rightarrow> bool" where
  "IPNet_Contains n a =
     (let (nn, m) = networkNumberAndMask n;
          x = (case To4 a of Some b \<Rightarrow> b | None \<Rightarrow> a)
      in length x = length nn \<and> map2 (AND) nn m = map2 (AND) x m)"

text \<open>\<open>big.Int.SetBytes\<close>: the big-endian value of a byte slice.\<close>

definition SetBytes :: "bytes \<Rightarrow> nat" where
  "SetBytes bs = foldl (\<lambda>n b. 256 * n + unat b) 0 bs"

lemma foldl_SetBytes: "foldl (\<lambda>n b. 256 * n + unat b) k bs = k * 256 ^ length bs + SetBytes bs"
proof (induction bs arbitrary: k)
  case Nil
  then show ?case by (simp add: SetBytes_def)
next
  case (Cons b bs)
  have "SetBytes (b # bs) = unat b * 256 ^ length bs + SetBytes bs"
    using Cons.IH [of "unat b"] by (simp add: SetBytes_def)
  then show ?case
    using Cons.IH [of "256 * k + unat b"] by (simp add: algebra_simps)
qed

lemma SetBytes_simps [simp]:
  "SetBytes [] = 0"
  "SetBytes (b # bs) = unat b * 256 ^ length bs + SetBytes bs"
  using foldl_SetBytes [of "unat b" bs] by (simp_all add: SetBytes_def)

lemma SetBytes_less: "SetBytes bs < 256 ^ length bs"
proof (induction bs)
  case (Cons b bs)
  have "unat b * 256 ^ length bs + SetBytes bs < unat b * 256 ^ length bs + 256 ^ length bs"
    using Cons.IH by simp
  also have "\<dots> = (unat b + 1) * 256 ^ length bs" by simp
  also have "\<dots> \<le> 256 * 256 ^ length bs"
    using unat_byte_less [of b] by (intro mult_right_mono) auto
  finally show ?case by simp
qed simp

lemma SetBytes_inj: "length xs = length ys \<Longrightarrow> SetBytes xs = SetBytes ys \<Longrightarrow> xs = ys"
proof (induction xs ys rule: list_induct2)
  case (Cons x xs y ys)
  let ?B = "256 ^ length ys :: nat"
  have "(unat x * ?B + SetBytes xs) div ?B = (unat y * ?B + SetBytes ys) div ?B"
    using Cons.prems Cons.hyps by simp
  moreover have "SetBytes xs < ?B" "SetBytes ys < ?B"
    using SetBytes_less [of xs] SetBytes_less [of ys] Cons.hyps by simp_all
  ultimately have "unat x = unat y" by simp
  then have "x = y" by (simp add: word_unat_eq_iff)
  with Cons show ?case by simp
qed simp

lemma To4_length: "To4 a = Some b \<Longrightarrow> length b = 4"
  by (auto simp: To4_def split: if_splits)

lemma To16_length: "To16 a = Some b \<Longrightarrow> length b = 16"
  by (auto simp: To16_def v4InV6Prefix_def split: if_splits)

section \<open>Components as state machines\<close>

text \<open>
  A component runs a sequence of operations and answers each of them; an abstract state and a
  specification of every operation say what the answers should be. The locale is the contract
  between the two: one step of the code is one step of the specification. Its lemma lifts this
  to every sequence of operations: the code never fails and gives the specified answers.
\<close>

fun run_ops :: "('op \<Rightarrow> 's \<Rightarrow> ('s \<times> 'o) result) \<Rightarrow> 'op list \<Rightarrow> 's \<Rightarrow> ('s \<times> 'o list) result" where
  "run_ops step [] s = Inr (s, [])"
| "run_ops step (op # ops) s =
     rbind (step op s) (\<lambda>(s', out). rbind (run_ops step ops s') (\<lambda>(s'', outs). Inr (s'', out # outs)))"

fun spec_run :: "('op \<Rightarrow> 'a \<Rightarrow> 'a \<times> 'o) \<Rightarrow> 'op list \<Rightarrow> 'a \<Rightarrow> 'a \<times> 'o list" where
  "spec_run spec [] a = (a, [])"
| "spec_run spec (op # ops) a =
     (let (a', out) = spec op a; (a'', outs) = spec_run spec ops a' in (a'', out # outs))"

locale data_refinement =
  fixes step :: "'op \<Rightarrow> 's \<Rightarrow> ('s \<times> 'o) result"
    and spec :: "'op \<Rightarrow> 'a \<Rightarrow> 'a \<times> 'o"
    and inv :: "'s \<Rightarrow> bool"
    and abs :: "'s \<Rightarrow> 'a"
    and ok :: "'op \<Rightarrow> bool"
  assumes step_refines: "inv s \<Longrightarrow> ok op \<Longrightarrow>
    \<exists>s'. step op s = Inr (s', snd (spec op (abs s))) \<and> inv s' \<and> abs s' = fst (spec op (abs s))"
begin

lemma run_refines:
  "inv s \<Longrightarrow> list_all ok ops \<Longrightarrow>
   \<exists>s'. run_ops step ops s = Inr (s', snd (spec_run spec ops (abs s))) \<and> inv s' \<and>
        abs s' = fst (spec_run spec ops (abs s))"
proof (induction ops arbitrary: s)
  case (Cons op ops)
  from step_refines [OF Cons.prems(1), of op] Cons.prems(2) obtain s1 where
    1: "step op s = Inr (s1, snd (spec op (abs s)))" "inv s1" "abs s1 = fst (spec op (abs s))" by auto
  from Cons.IH [OF 1(2)] Cons.prems(2) obtain s2 where
    "run_ops step ops s1 = Inr (s2, snd (spec_run spec ops (abs s1)))" "inv s2"
    "abs s2 = fst (spec_run spec ops (abs s1))" by auto
  with 1 show ?case by (simp add: Let_def split: prod.splits)
qed simp

end

end
