(* ===== verification/Route_Table.thy ===== *)
theory Route_Table
  imports Prelude
begin

text \<open>
  The route table of \<^verbatim>\<open>pkg/route\<close>: a path-compressed binary trie keyed by network prefixes
  (\<^verbatim>\<open>table.go\<close>, \<^verbatim>\<open>table_helpers.go\<close>) over the routes of \<^verbatim>\<open>route.go\<close>. The trie of pointers is
  a datatype here; every node has one owner in the code, so updating a child in place is
  rebuilding the path to it. Keys (\<^verbatim>\<open>*big.Int\<close>) are natural numbers.

  The theory shows that the trie refines a finite map from prefixes to route lists and that
  a lookup is a longest-prefix match in that map.
\<close>

section \<open>Routes\<close>

record Route =
  r_Destination :: IPNet
  r_Gateway :: "ip option"
  r_Interface :: string
  r_LinkAddr :: bytes

text \<open>
  The address families the code distinguishes. \<^verbatim>\<open>Route.Family\<close> answers -1 for an address that
  is neither, which is \<open>None\<close> here; \<^verbatim>\<open>NewTable\<close> refuses every other number.
\<close>

datatype af = AF_INET | AF_INET6

definition Is4 :: "Route \<Rightarrow> bool" where
  "Is4 r = (To4 (net_IP (r_Destination r)) \<noteq> None)"

definition Family :: "Route \<Rightarrow> af option" where
  "Family r =
     (if To4 (net_IP (r_Destination r)) \<noteq> None then Some AF_INET
      else if To16 (net_IP (r_Destination r)) \<noteq> None then Some AF_INET6
      else None)"

definition IPv4zero :: ip where
  "IPv4zero = v4InV6Prefix @ [0, 0, 0, 0]"

definition IPv6zero :: ip where
  "IPv6zero = replicate 16 0"

definition IsDirectlyConnected :: "Route \<Rightarrow> bool" where
  "IsDirectlyConnected r =
     (case r_Gateway r of
        None \<Rightarrow> True
      | Some g \<Rightarrow> if \<not> IP_Equal g IPv4zero \<and> \<not> IP_Equal g IPv6zero then False else True)"

definition HasGateway :: "Route \<Rightarrow> bool" where
  "HasGateway r =
     (case r_Gateway r of
        None \<Rightarrow> False
      | Some g \<Rightarrow> \<not> IP_Equal g IPv4zero \<and> \<not> IP_Equal g IPv6zero)"

section \<open>Keys and bits\<close>

fun bitWidth :: "af \<Rightarrow> nat" where
  "bitWidth AF_INET = 32"
| "bitWidth AF_INET6 = 128"

text \<open>\<^verbatim>\<open>big.Int.BitLen\<close>.\<close>

fun BitLen :: "nat \<Rightarrow> nat" where
  "BitLen n = (if n = 0 then 0 else Suc (BitLen (n div 2)))"

declare BitLen.simps [simp del]

definition commonBits :: "nat \<Rightarrow> nat \<Rightarrow> nat \<Rightarrow> nat" where
  "commonBits width prefix1 prefix2 =
     (let x = prefix1 XOR prefix2
      in if BitLen x = 0 then width else width - BitLen x)"

fun maskPrefix_from :: "nat \<Rightarrow> nat \<Rightarrow> nat list \<Rightarrow> nat" where
  "maskPrefix_from width out [] = out"
| "maskPrefix_from width out (pos # ps) = maskPrefix_from width (unset_bit (width - 1 - pos) out) ps"

definition maskPrefix :: "nat \<Rightarrow> nat \<Rightarrow> nat \<Rightarrow> nat" where
  "maskPrefix width key n = maskPrefix_from width key [n..<width]"

definition getBit :: "nat \<Rightarrow> nat \<Rightarrow> nat \<Rightarrow> bool" where
  "getBit width prefix pos = bit prefix (width - 1 - pos)"

definition calculateNetworkAddress :: "IPNet \<Rightarrow> ip" where
  "calculateNetworkAddress n =
     (let (ones, total) = Mask_Size (net_Mask n)
      in if ones = total then net_IP n else IP_Mask (net_IP n) (net_Mask n))"

text \<open>\<open>None\<close> is the nil \<^verbatim>\<open>*big.Int\<close> of an address that is neither IPv4 nor IPv6.\<close>

definition routeToTablePrefix :: "Route \<Rightarrow> nat option" where
  "routeToTablePrefix r =
     (let ip = calculateNetworkAddress (r_Destination r)
      in case To4 ip of Some a \<Rightarrow> Some (SetBytes a)
         | None \<Rightarrow> (case To16 ip of Some a \<Rightarrow> Some (SetBytes a) | None \<Rightarrow> None))"

definition routeToPrefixBits :: "Route \<Rightarrow> nat" where
  "routeToPrefixBits r = fst (Mask_Size (net_Mask (r_Destination r)))"

section \<open>The trie\<close>

text \<open>\<open>Leaf\<close> is the nil pointer; a node carries \<^verbatim>\<open>children\<close>, \<^verbatim>\<open>prefix\<close>, \<^verbatim>\<open>value\<close> and \<^verbatim>\<open>bitLen\<close>.\<close>

datatype rtNode = Leaf | Node rtNode rtNode nat "Route list" nat

definition addRoute :: "Route list \<Rightarrow> Route \<Rightarrow> Route list" where
  "addRoute value route = map (\<lambda>_. route) value @ [route]"

record Table =
  t_root :: rtNode
  t_defaultRoute :: "Route option"
  t_ignore :: "string \<Rightarrow> bool"
  t_family :: af

definition NewTable :: "af option \<Rightarrow> Table option" where
  "NewTable family =
     (case family of None \<Rightarrow> None
      | Some f \<Rightarrow> Some \<lparr>t_root = Leaf, t_defaultRoute = None, t_ignore = (\<lambda>_. False), t_family = f\<rparr>)"

definition ExcludeAdapter :: "Table \<Rightarrow> string list \<Rightarrow> Table" where
  "ExcludeAdapter t names = t\<lparr>t_ignore := fold (\<lambda>a ig. ig(a := True)) names (t_ignore t)\<rparr>"

definition destinationKey :: "af \<Rightarrow> ip \<Rightarrow> nat option" where
  "destinationKey f dst =
     (case f of
        AF_INET \<Rightarrow> (case To4 dst of None \<Rightarrow> None | Some ip4 \<Rightarrow> Some (SetBytes ip4))
      | AF_INET6 \<Rightarrow>
          (if To4 dst \<noteq> None then None
           else case To16 dst of None \<Rightarrow> None | Some ip6 \<Rightarrow> Some (SetBytes ip6)))"

text \<open>The scan of one node's routes: the first route that is not ignored wins over a shorter one.\<close>

fun scan_value :: "(string \<Rightarrow> bool) \<Rightarrow> nat \<Rightarrow> Route list \<Rightarrow> Route option \<times> int \<Rightarrow> Route option \<times> int" where
  "scan_value ign n [] b = b"
| "scan_value ign n (r # rs) (best, bestLen) =
     scan_value ign n rs
       (if ign (r_Interface r) then (best, bestLen)
        else if int n > bestLen then (Some r, int n)
        else (best, bestLen))"

fun lookup_node :: "nat \<Rightarrow> (string \<Rightarrow> bool) \<Rightarrow> nat \<Rightarrow> rtNode \<Rightarrow> Route option \<times> int \<Rightarrow> Route option \<times> int" where
  "lookup_node width ign dstKey Leaf b = b"
| "lookup_node width ign dstKey (Node l r prefix value bitLen) b =
     (if commonBits width dstKey prefix < bitLen then b
      else let b' = scan_value ign bitLen value b
           in if bitLen \<ge> width then b'
              else if getBit width dstKey bitLen then lookup_node width ign dstKey r b'
              else lookup_node width ign dstKey l b')"

definition lookup :: "Table \<Rightarrow> ip \<Rightarrow> Route option" where
  "lookup t dst =
     (case destinationKey (t_family t) dst of
        None \<Rightarrow> None
      | Some dstKey \<Rightarrow>
          fst (lookup_node (bitWidth (t_family t)) (t_ignore t) dstKey (t_root t)
            (case t_defaultRoute t of None \<Rightarrow> (None, -1) | Some d \<Rightarrow> (Some d, 0))))"

fun walk :: "rtNode \<Rightarrow> Route list" where
  "walk Leaf = []"
| "walk (Node l r prefix value bitLen) = value @ walk l @ walk r"

text \<open>\<^verbatim>\<open>Table.Walk\<close>: the routes in the order the callback sees them.\<close>

definition Walk :: "Table \<Rightarrow> Route list" where
  "Walk t = (case t_defaultRoute t of None \<Rightarrow> [] | Some d \<Rightarrow> [d]) @ walk (t_root t)"

section \<open>Insertion\<close>

text \<open>
  The loop of \<^verbatim>\<open>insert\<close> descends with a parent pointer and relinks; here each step returns the
  subtree that replaces \<open>cur\<close>.
\<close>

definition mk_children :: "bool \<Rightarrow> rtNode \<Rightarrow> rtNode \<Rightarrow> nat \<Rightarrow> Route list \<Rightarrow> nat \<Rightarrow> rtNode" where
  "mk_children b child other prefix value n =
     (if b then Node other child prefix value n else Node child other prefix value n)"

fun insert_node :: "nat \<Rightarrow> nat \<Rightarrow> nat \<Rightarrow> Route \<Rightarrow> rtNode \<Rightarrow> rtNode" where
  "insert_node width key prefixLen route Leaf = Node Leaf Leaf key [route] prefixLen"
| "insert_node width key prefixLen route (Node l r prefix value bitLen) =
     (let shared = min (commonBits width key prefix) bitLen; cur = Node l r prefix value bitLen
      in if shared \<ge> prefixLen \<and> prefixLen < bitLen
         then mk_children (getBit width prefix prefixLen) cur Leaf key [route] prefixLen
         else if shared \<ge> prefixLen then Node l r prefix (addRoute value route) bitLen
         else if shared = bitLen
         then (if getBit width key bitLen
               then Node l (insert_node width key prefixLen route r) prefix value bitLen
               else Node (insert_node width key prefixLen route l) r prefix value bitLen)
         else mk_children (getBit width prefix shared) cur (Node Leaf Leaf key [route] prefixLen)
                (maskPrefix width key shared) [] shared)"

text \<open>
  A route whose mask does not have the width of its address has no key (a nil
  \<^verbatim>\<open>*big.Int\<close>), and the first operation that compares that key panics; no route that comes
  from \<^verbatim>\<open>net.ParseCIDR\<close> is such a route. The model panics at the insertion itself.
\<close>

definition insert :: "Table \<Rightarrow> Route \<Rightarrow> (Table \<times> bool) result" where
  "insert t value =
     (if Family value \<noteq> Some (t_family t) then Inr (t, False)
      else let prefixLen = routeToPrefixBits value
           in if prefixLen = 0 then Inr (t\<lparr>t_defaultRoute := Some value\<rparr>, True)
              else case routeToTablePrefix value of
                     None \<Rightarrow> Inl Panic
                   | Some key \<Rightarrow>
                       Inr (t\<lparr>t_root := insert_node (bitWidth (t_family t)) key prefixLen value (t_root t)\<rparr>, True))"

section \<open>Removal\<close>

text \<open>
  \<^verbatim>\<open>compress\<close> walks the path upwards until a node is kept. \<open>compress_step\<close> is one turn of that
  loop; its flag says whether the loop goes on at the parent.
\<close>

definition compress_step :: "rtNode \<Rightarrow> rtNode \<Rightarrow> nat \<Rightarrow> Route list \<Rightarrow> nat \<Rightarrow> rtNode \<times> bool" where
  "compress_step left right prefix value n =
     (if value \<noteq> [] \<or> (left \<noteq> Leaf \<and> right \<noteq> Leaf) then (Node left right prefix value n, False)
      else (if left \<noteq> Leaf then left else right, True))"

definition rebuild :: "bool \<Rightarrow> rtNode \<Rightarrow> rtNode \<Rightarrow> nat \<Rightarrow> Route list \<Rightarrow> nat \<Rightarrow> rtNode \<times> bool" where
  "rebuild go left right prefix value n =
     (if go then compress_step left right prefix value n
      else (Node left right prefix value n, False))"

text \<open>\<open>None\<close> is the answer \<^verbatim>\<open>false\<close>: no node holds this exact prefix.\<close>

fun remove_node :: "nat \<Rightarrow> nat \<Rightarrow> nat \<Rightarrow> rtNode \<Rightarrow> (rtNode \<times> bool) option" where
  "remove_node width key prefixLen Leaf = None"
| "remove_node width key prefixLen (Node l r prefix value bitLen) =
     (if commonBits width key prefix < bitLen then None
      else if bitLen = prefixLen
      then (if value = [] then None else Some (compress_step l r prefix [] bitLen))
      else if bitLen > prefixLen then None
      else if getBit width key bitLen
      then (case remove_node width key prefixLen r of
              None \<Rightarrow> None
            | Some (r', go) \<Rightarrow> Some (rebuild go l r' prefix value bitLen))
      else (case remove_node width key prefixLen l of
              None \<Rightarrow> None
            | Some (l', go) \<Rightarrow> Some (rebuild go l' r prefix value bitLen)))"

definition remove :: "Table \<Rightarrow> Route \<Rightarrow> (Table \<times> bool) result" where
  "remove t value =
     (if Family value \<noteq> Some (t_family t) then Inr (t, False)
      else let prefixLen = routeToPrefixBits value
           in if prefixLen = 0
              then Inr (t\<lparr>t_defaultRoute := None\<rparr>, t_defaultRoute t \<noteq> None)
              else if t_root t = Leaf then Inr (t, False)
              else case routeToTablePrefix value of
                     None \<Rightarrow> Inl Panic
                   | Some key \<Rightarrow>
                       (case remove_node (bitWidth (t_family t)) key prefixLen (t_root t) of
                          None \<Rightarrow> Inr (t, False)
                        | Some (root', _) \<Rightarrow> Inr (t\<lparr>t_root := root'\<rparr>, True)))"

section \<open>Leading bits\<close>

text \<open>\<open>pre w n k\<close>: the first \<open>n\<close> bits of the \<open>w\<close>-bit key \<open>k\<close>.\<close>

abbreviation pre :: "nat \<Rightarrow> nat \<Rightarrow> nat \<Rightarrow> nat" where
  "pre w n k \<equiv> drop_bit (w - n) k"

lemma BitLen_le_iff: "BitLen n \<le> k \<longleftrightarrow> n < 2 ^ k"
proof (induction n arbitrary: k rule: BitLen.induct)
  case (1 n)
  show ?case
  proof (cases "n = 0")
    case True
    then show ?thesis by (simp add: BitLen.simps)
  next
    case False
    then have "BitLen n \<le> k \<longleftrightarrow> (\<exists>k'. k = Suc k' \<and> BitLen (n div 2) \<le> k')"
      by (cases k) (simp_all add: BitLen.simps [of n])
    also have "\<dots> \<longleftrightarrow> (\<exists>k'. k = Suc k' \<and> n div 2 < 2 ^ k')"
      using "1.IH" [OF False] by simp
    also have "\<dots> \<longleftrightarrow> n < 2 ^ k"
      using False by (cases k) auto
    finally show ?thesis .
  qed
qed

lemma BitLen_eq_0_iff: "BitLen n = 0 \<longleftrightarrow> n = 0"
  using BitLen_le_iff [of n 0] by auto

lemma drop_bit_nat_eq_0_iff: "drop_bit n (x :: nat) = 0 \<longleftrightarrow> x < 2 ^ n"
  by (simp add: drop_bit_eq_div div_eq_0_iff)

lemma xor_nat_eq_0_iff: "(a :: nat) XOR b = 0 \<longleftrightarrow> a = b"
proof
  assume "a XOR b = 0"
  then have "bit (a XOR b) n = bit (0 :: nat) n" for n by simp
  then have "bit a n = bit b n" for n by (simp add: bit_xor_iff)
  then show "a = b" by (simp add: bit_eq_iff)
next
  assume "a = b"
  then show "a XOR b = 0" by (simp add: bit_eq_iff bit_xor_iff)
qed

lemma xor_nat_less: "(a :: nat) < 2 ^ w \<Longrightarrow> b < 2 ^ w \<Longrightarrow> a XOR b < 2 ^ w"
  by (simp flip: drop_bit_nat_eq_0_iff)

lemma commonBits_le: "commonBits w a b \<le> w"
  by (simp add: commonBits_def Let_def)

text \<open>The central fact: \<open>commonBits\<close> counts the leading bits on which two keys agree.\<close>

lemma commonBits_ge_iff:
  assumes "a < 2 ^ w" "b < 2 ^ w" "n \<le> w"
  shows "n \<le> commonBits w a b \<longleftrightarrow> pre w n a = pre w n b"
proof -
  have "a XOR b < 2 ^ w" using assms by (intro xor_nat_less)
  then have len: "BitLen (a XOR b) \<le> w" by (simp add: BitLen_le_iff)
  have "n \<le> commonBits w a b \<longleftrightarrow> BitLen (a XOR b) \<le> w - n"
    using len assms(3) by (auto simp: commonBits_def Let_def)
  also have "\<dots> \<longleftrightarrow> drop_bit (w - n) (a XOR b) = 0"
    by (simp only: BitLen_le_iff drop_bit_nat_eq_0_iff)
  also have "\<dots> \<longleftrightarrow> pre w n a = pre w n b"
    by (simp only: drop_bit_xor xor_nat_eq_0_iff)
  finally show ?thesis .
qed

lemma pre_mono:
  assumes "pre w n a = pre w n b" "m \<le> n" "n \<le> w"
  shows "pre w m a = pre w m b"
proof -
  have "pre w m x = drop_bit (n - m) (pre w n x)" for x
    using assms(2,3) by (simp add: drop_bit_drop_bit)
  then show ?thesis using assms(1) by metis
qed

lemma pre_Suc: "n < w \<Longrightarrow> pre w (Suc n) k = 2 * pre w n k + of_bool (getBit w k n)"
proof -
  assume "n < w"
  then have *: "w - n = Suc (w - Suc n)" by simp
  have "pre w (Suc n) k = 2 * (pre w (Suc n) k div 2) + pre w (Suc n) k mod 2"
    by simp
  also have "pre w (Suc n) k div 2 = pre w n k"
    unfolding * by (simp add: drop_bit_Suc drop_bit_half)
  also have "pre w (Suc n) k mod 2 = of_bool (getBit w k n)"
    by (simp add: getBit_def bit_iff_odd_drop_bit mod_2_eq_odd)
  finally show ?thesis .
qed

lemma pre_full: "pre w w k = k"
  by simp

text \<open>A prefix of length \<open>n\<close> whose host bits are clear is determined by its first \<open>n\<close> bits.\<close>

lemma clean_prefix_eq:
  "take_bit (w - n) a = 0 \<Longrightarrow> take_bit (w - n) b = 0 \<Longrightarrow> pre w n a = pre w n b \<Longrightarrow> a = (b :: nat)"
  using bits_ident [of "w - n" a] bits_ident [of "w - n" b] by simp

lemma bit_maskPrefix_from:
  "bit (maskPrefix_from w out ps) i \<longleftrightarrow> bit out i \<and> i \<notin> (\<lambda>pos. w - 1 - pos) ` set ps"
  by (induction ps arbitrary: out) (auto simp: bit_unset_bit_iff)

lemma maskPrefix_eq:
  assumes "n \<le> w"
  shows "maskPrefix w key n = push_bit (w - n) (pre w n key)"
proof (rule bit_eqI)
  fix i
  have "i \<in> (\<lambda>pos. w - 1 - pos) ` {n..<w} \<longleftrightarrow> i < w - n"
  proof
    assume "i < w - n"
    then have "i = w - 1 - (w - 1 - i)" "w - 1 - i \<in> {n..<w}" using assms by auto
    then show "i \<in> (\<lambda>pos. w - 1 - pos) ` {n..<w}" by blast
  qed (use assms in auto)
  then show "bit (maskPrefix w key n) i \<longleftrightarrow> bit (push_bit (w - n) (pre w n key)) i"
    by (auto simp: maskPrefix_def bit_maskPrefix_from bit_push_bit_iff bit_drop_bit_eq)
qed

lemma maskPrefix_clean: "n \<le> w \<Longrightarrow> take_bit (w - n) (maskPrefix w key n) = 0"
  by (simp add: maskPrefix_eq take_bit_push_bit)

lemma maskPrefix_pre: "m \<le> n \<Longrightarrow> n \<le> w \<Longrightarrow> pre w m (maskPrefix w key n) = pre w m key"
proof -
  assume "m \<le> n" "n \<le> w"
  moreover have "pre w n (maskPrefix w key n) = pre w n key"
    using \<open>n \<le> w\<close> by (simp add: maskPrefix_eq drop_bit_push_bit)
  ultimately show ?thesis by (blast intro: pre_mono)
qed

lemma maskPrefix_le: "n \<le> w \<Longrightarrow> maskPrefix w key n \<le> key"
  by (simp add: maskPrefix_eq push_bit_eq_mult drop_bit_eq_div)

section \<open>The trie invariant\<close>

fun nodes :: "rtNode \<Rightarrow> (nat \<times> nat) list" where
  "nodes Leaf = []"
| "nodes (Node l r p v n) = (p, n) # nodes l @ nodes r"

text \<open>Every node of the subtree is at least \<open>d\<close> bits long and starts with the bits \<open>c\<close>.\<close>

definition under :: "nat \<Rightarrow> nat \<Rightarrow> nat \<Rightarrow> rtNode \<Rightarrow> bool" where
  "under w d c t = list_all (\<lambda>(q, m). d \<le> m \<and> pre w d q = c) (nodes t)"

text \<open>
  The documented shape: a node stands for the first \<open>bitLen\<close> bits of its prefix with the host
  bits cleared, its children are longer prefixes that extend it by a 0 and by a 1.
\<close>

fun wf_node :: "nat \<Rightarrow> rtNode \<Rightarrow> bool" where
  "wf_node w Leaf = True"
| "wf_node w (Node l r p v n) =
     (n \<le> w \<and> p < 2 ^ w \<and> take_bit (w - n) p = 0 \<and>
      under w (Suc n) (2 * pre w n p) l \<and> under w (Suc n) (2 * pre w n p + 1) r \<and>
      wf_node w l \<and> wf_node w r)"

text \<open>Path compression: a node without routes has two children.\<close>

fun compressed :: "rtNode \<Rightarrow> bool" where
  "compressed Leaf = True"
| "compressed (Node l r p v n) =
     ((v \<noteq> [] \<or> (l \<noteq> Leaf \<and> r \<noteq> Leaf)) \<and> compressed l \<and> compressed r)"

text \<open>The routes stored for exactly the prefix \<open>(k, m)\<close>: the map the trie implements.\<close>

fun value_at :: "rtNode \<Rightarrow> nat \<Rightarrow> nat \<Rightarrow> Route list" where
  "value_at Leaf k m = []"
| "value_at (Node l r p v n) k m =
     (if k = p \<and> m = n then v
      else if value_at l k m \<noteq> [] then value_at l k m
      else value_at r k m)"

lemma under_Leaf [simp]: "under w d c Leaf"
  by (simp add: under_def)

lemma under_Node [simp]: "under w d c (Node l r p v n) \<longleftrightarrow>
    d \<le> n \<and> pre w d p = c \<and> under w d c l \<and> under w d c r"
  by (auto simp: under_def)

lemma under_node: "under w d c t \<Longrightarrow> (q, m) \<in> set (nodes t) \<Longrightarrow> d \<le> m \<and> pre w d q = c"
  by (auto simp: under_def list_all_iff)

lemma value_at_node: "value_at t k m \<noteq> [] \<Longrightarrow> (k, m) \<in> set (nodes t)"
  by (induction t) (auto split: if_splits)

lemma nodes_wf: "wf_node w t \<Longrightarrow> (q, m) \<in> set (nodes t) \<Longrightarrow> m \<le> w \<and> q < 2 ^ w \<and> take_bit (w - m) q = 0"
  by (induction t) auto

lemma value_at_not_under: "under w d c t \<Longrightarrow> \<not> (d \<le> m \<and> pre w d k = c) \<Longrightarrow> value_at t k m = []"
  using value_at_node under_node by blast

lemma under_weaken:
  assumes "under w d c t" "d' \<le> d" "wf_node w t" "pre w d k = c"
  shows "under w d' (pre w d' k) t"
proof -
  have "d' \<le> m \<and> pre w d' q = pre w d' k" if "(q, m) \<in> set (nodes t)" for q m
  proof -
    from under_node [OF assms(1) that] have "d \<le> m" "pre w d q = pre w d k" using assms(4) by auto
    moreover have "m \<le> w" using nodes_wf [OF assms(3) that] by simp
    ultimately show ?thesis using assms(2) by (auto intro: pre_mono)
  qed
  then show ?thesis by (auto simp: under_def list_all_iff)
qed

text \<open>Inside a node's range, a longer prefix lives in the child its next bit selects.\<close>

lemma value_at_child:
  assumes wf: "wf_node w (Node l r p v n)" and "n < m" "m \<le> w"
  shows "value_at (Node l r p v n) k m =
    (if pre w n k = pre w n p then value_at (if getBit w k n then r else l) k m else [])"
proof -
  from wf have l: "under w (Suc n) (2 * pre w n p) l" and r: "under w (Suc n) (2 * pre w n p + 1) r"
    by auto
  have k: "pre w (Suc n) k = 2 * pre w n k + of_bool (getBit w k n)"
    using assms by (intro pre_Suc) simp
  have "value_at l k m = []" if "getBit w k n \<or> pre w n k \<noteq> pre w n p"
    using that k by (intro value_at_not_under [OF l]) (auto split: if_splits; presburger)
  moreover have "value_at r k m = []" if "\<not> getBit w k n \<or> pre w n k \<noteq> pre w n p"
    using that k by (intro value_at_not_under [OF r]) (auto split: if_splits; presburger)
  ultimately show ?thesis using \<open>n < m\<close> by auto
qed

lemma value_at_short: 
  assumes "wf_node w (Node l r p v n)" "m < n \<or> (m = n \<and> k \<noteq> p)"
  shows "value_at (Node l r p v n) k m = []"
proof -
  from assms have l: "under w (Suc n) (2 * pre w n p) l" and r: "under w (Suc n) (2 * pre w n p + 1) r"
    by auto
  have "value_at l k m = []" "value_at r k m = []"
    using assms(2) by (auto intro!: value_at_not_under [OF l] value_at_not_under [OF r])
  then show ?thesis using assms(2) by auto
qed

section \<open>Insertion keeps the invariant and adds one route\<close>

definition key_ok :: "nat \<Rightarrow> nat \<Rightarrow> nat \<Rightarrow> bool" where
  "key_ok w k n = (n \<le> w \<and> k < 2 ^ w \<and> take_bit (w - n) k = 0)"

lemma insert_node_cases:
  assumes wf: "wf_node w (Node l r p v n)" and ok: "key_ok w k m"
  obtains
    (above) "m < n" "pre w m k = pre w m p"
      "insert_node w k m route (Node l r p v n) =
         mk_children (getBit w p m) (Node l r p v n) Leaf k [route] m"
  | (same) "m = n" "k = p"
      "insert_node w k m route (Node l r p v n) = Node l r p (addRoute v route) n"
  | (descend) "n < m" "pre w n k = pre w n p"
      "insert_node w k m route (Node l r p v n) =
         (if getBit w k n then Node l (insert_node w k m route r) p v n
          else Node (insert_node w k m route l) r p v n)"
  | (diverge) c where "c < n" "c < m" "pre w c k = pre w c p" "getBit w k c = (\<not> getBit w p c)"
      "insert_node w k m route (Node l r p v n) =
         mk_children (getBit w p c) (Node l r p v n) (Node Leaf Leaf k [route] m) (maskPrefix w k c) [] c"
proof -
  let ?c = "commonBits w k p"
  have m: "m \<le> w" "k < 2 ^ w" "take_bit (w - m) k = 0" using ok by (auto simp: key_ok_def)
  have n: "n \<le> w" "p < 2 ^ w" "take_bit (w - n) p = 0" using wf by auto
  have ge: "d \<le> ?c \<longleftrightarrow> pre w d k = pre w d p" if "d \<le> w" for d
    using commonBits_ge_iff [OF m(2) n(2) that] .
  consider "m \<le> ?c" "m < n" | "m \<le> ?c" "m = n" | "n \<le> ?c" "n < m" | "?c < m" "?c < n"
    by linarith
  then show thesis
  proof cases
    case 1
    then show ?thesis using ge [of m] m by (intro above) (auto simp: Let_def)
  next
    case 2
    then have "k = p" using ge [of m] m n by (auto intro: clean_prefix_eq)
    with 2 show ?thesis by (intro same) (auto simp: Let_def)
  next
    case 3
    then show ?thesis using ge [of n] n by (intro descend) (auto simp: Let_def)
  next
    case 4
    then have "?c < w" using m by linarith
    have "pre w ?c k = pre w ?c p" using ge [of ?c] \<open>?c < w\<close> by simp
    moreover have "pre w (Suc ?c) k \<noteq> pre w (Suc ?c) p" using ge [of "Suc ?c"] \<open>?c < w\<close> by simp
    ultimately have "getBit w k ?c = (\<not> getBit w p ?c)"
      using \<open>?c < w\<close> by (auto simp: pre_Suc)
    with 4 \<open>pre w ?c k = pre w ?c p\<close> show ?thesis
      by (intro diverge [of ?c]) (auto simp: Let_def)
  qed
qed

declare insert_node.simps(2) [simp del]

lemma double_bool_eq: "2 * a + of_bool x = 2 * b + of_bool y \<Longrightarrow> a = (b :: nat)"
  by (cases x; cases y; simp; presburger)

lemma node_under_self:
  assumes wf: "wf_node w (Node l r p v n)" and "d \<le> n"
  shows "under w d (pre w d p) (Node l r p v n)"
proof -
  have "under w d (pre w d p) t"
    if u: "under w (Suc n) (2 * pre w n p + of_bool b) t" and t: "wf_node w t" for t b
  proof -
    have "d \<le> m \<and> pre w d q = pre w d p" if q: "(q, m) \<in> set (nodes t)" for q m
    proof -
      have m: "Suc n \<le> m" "m \<le> w" and "pre w (Suc n) q = 2 * pre w n p + of_bool b"
        using under_node [OF u q] nodes_wf [OF t q] by auto
      then have "2 * pre w n q + of_bool (getBit w q n) = 2 * pre w n p + of_bool b"
        using pre_Suc [of n w q] by simp
      then have "pre w n q = pre w n p" by (rule double_bool_eq)
      then show ?thesis using m \<open>d \<le> n\<close> by (auto intro: pre_mono)
    qed
    then show ?thesis by (auto simp: under_def list_all_iff)
  qed
  from this [of False l] this [of True r] show ?thesis using assms by auto
qed

lemma mk_children_under [simp]:
  "under w d c (mk_children b t u p v n) \<longleftrightarrow> d \<le> n \<and> pre w d p = c \<and> under w d c t \<and> under w d c u"
  by (auto simp: mk_children_def)

lemma insert_node_under:
  assumes "wf_node w t" "key_ok w k m" "under w d (pre w d k) t" "d \<le> m"
  shows "under w d (pre w d k) (insert_node w k m route t)"
  using assms
proof (induction t)
  case Leaf
  then show ?case by simp
next
  case (Node l r p v n)
  from Node.prems(3) have d: "d \<le> n" "pre w d p = pre w d k" by auto
  have w: "n \<le> w" "m \<le> w" using Node.prems by (auto simp: key_ok_def)
  from Node.prems(1,2) show ?case
  proof (cases rule: insert_node_cases [where route = route])
    case (diverge c)
    have "\<not> c < d"
    proof
      assume "c < d"
      then have "pre w (Suc c) p = pre w (Suc c) k" using d w by (auto intro: pre_mono)
      with diverge(3,4) d w \<open>c < d\<close> show False by (cases "getBit w p c") (simp_all add: pre_Suc)
    qed
    then show ?thesis using diverge Node.prems w by (simp add: maskPrefix_pre)
  next
    case descend
    then show ?thesis using Node by auto
  qed (use Node in auto)
qed

lemma wf_mk_children:
  assumes "n \<le> w" "p < 2 ^ w" "take_bit (w - n) p = 0" "wf_node w t" "wf_node w u"
    "under w (Suc n) (2 * pre w n p + of_bool b) t" "under w (Suc n) (2 * pre w n p + of_bool (\<not> b)) u"
  shows "wf_node w (mk_children b t u p v n)"
  using assms by (auto simp: mk_children_def)

lemma insert_node_wf:
  assumes "wf_node w t" "key_ok w k m"
  shows "wf_node w (insert_node w k m route t)"
  using assms
proof (induction t)
  case Leaf
  then show ?case by (simp add: key_ok_def)
next
  case (Node l r p v n)
  have w: "n \<le> w" "m \<le> w" "k < 2 ^ w" "take_bit (w - m) k = 0"
    using Node.prems by (auto simp: key_ok_def)
  have self: "under w (Suc d) (2 * pre w d p + of_bool (getBit w p d)) (Node l r p v n)" if "d < n" for d
    using node_under_self [OF Node.prems(1), of "Suc d"] that w by (simp add: pre_Suc)
  from Node.prems show ?case
  proof (cases rule: insert_node_cases [where route = route])
    case above
    show ?thesis unfolding above(3)
      using w Node.prems(1) above(1,2) self [of m] by (intro wf_mk_children) auto
  next
    case (diverge c)
    have "maskPrefix w k c < 2 ^ w"
      using maskPrefix_le [of c w k] w diverge(1) by linarith
    moreover have "under w (Suc c) (2 * pre w c p + of_bool (\<not> getBit w p c)) (Node Leaf Leaf k [route] m)"
      using diverge w by (simp add: pre_Suc)
    ultimately show ?thesis unfolding diverge(5)
      using w Node.prems(1) diverge(1-3) self [of c]
      by (intro wf_mk_children) (auto simp: maskPrefix_clean maskPrefix_pre key_ok_def)
  next
    case descend
    have "pre w (Suc n) k = 2 * pre w n p + of_bool (getBit w k n)"
      using descend w by (simp add: pre_Suc)
    then show ?thesis
      using Node descend insert_node_under [of w _ k m "Suc n" route] by (auto split: if_splits)
  qed (use Node in auto)
qed

lemma mk_children_value_at:
  assumes "wf_node w (mk_children b t u p v n)"
  shows "value_at (mk_children b t u p v n) k' m' =
    (if k' = p \<and> m' = n then v
     else if value_at t k' m' \<noteq> [] then value_at t k' m' else value_at u k' m')"
proof (cases b)
  case True
  have "value_at t k' m' = [] \<or> value_at u k' m' = []"
  proof (rule ccontr)
    assume "\<not> ?thesis"
    then have "(k', m') \<in> set (nodes t)" "(k', m') \<in> set (nodes u)" by (auto intro: value_at_node)
    with assms True show False by (auto simp: mk_children_def dest!: under_node)
  qed
  then show ?thesis using True by (auto simp: mk_children_def)
qed (simp add: mk_children_def)

lemma addRoute_not_Nil [simp]: "addRoute v route \<noteq> []" "[] \<noteq> addRoute v route"
  by (simp_all add: addRoute_def)

lemma insert_node_value_at:
  assumes "wf_node w t" "key_ok w k m"
  shows "value_at (insert_node w k m route t) k' m' =
    (if k' = k \<and> m' = m then addRoute (value_at t k m) route else value_at t k' m')"
  using assms
proof (induction t)
  case Leaf
  then show ?case by (simp add: addRoute_def)
next
  case (Node l r p v n)
  note wf' = insert_node_wf [OF Node.prems, of route]
  have w: "n \<le> w" "m \<le> w" using Node.prems by (auto simp: key_ok_def)
  from Node.prems show ?case
  proof (cases rule: insert_node_cases [where route = route])
    case above
    have "value_at (Node l r p v n) k m = []"
      using Node.prems(1) above(1) by (intro value_at_short) auto
    then show ?thesis
      using wf' unfolding above(3) by (subst mk_children_value_at) (auto simp: addRoute_def)
  next
    case (diverge c)
    have "value_at (Node l r p v n) (maskPrefix w k c) c = []"
      using Node.prems(1) diverge(1) by (intro value_at_short) auto
    moreover have "value_at (Node l r p v n) k m = []"
    proof (rule value_at_not_under)
      show "under w (Suc c) (pre w (Suc c) p) (Node l r p v n)"
        using Node.prems(1) diverge(1) by (intro node_under_self) auto
      show "\<not> (Suc c \<le> m \<and> pre w (Suc c) k = pre w (Suc c) p)"
        using diverge(1,3,4) w by (cases "getBit w p c") (simp_all add: pre_Suc)
    qed
    ultimately show ?thesis
      using wf' diverge(2) unfolding diverge(5)
      by (subst mk_children_value_at) (auto simp: addRoute_def simp del: value_at.simps(2), simp_all)
  next
    case descend
    have child: "value_at (Node l r p v n) k m = value_at (if getBit w k n then r else l) k m"
      using value_at_child [OF Node.prems(1) descend(1) w(2)] descend(2) by simp
    have wf: "wf_node w l" "wf_node w r" using Node.prems(1) by auto
    show ?thesis
    proof (cases "getBit w k n")
      case True
      have "value_at l k m = []"
      proof (rule value_at_not_under)
        show "under w (Suc n) (2 * pre w n p) l" using Node.prems(1) by simp
        show "\<not> (Suc n \<le> m \<and> pre w (Suc n) k = 2 * pre w n p)"
          using True descend(1,2) w by (simp add: pre_Suc)
      qed
      then show ?thesis
        using Node.IH(2) [OF wf(2) Node.prems(2)] True descend(1,3) child by auto
    next
      case False
      then show ?thesis
        using Node.IH(1) [OF wf(1) Node.prems(2)] descend(1,3) child by auto
    qed
  qed (use Node in auto)
qed

lemma insert_node_not_Leaf [simp]: "insert_node w k m route t \<noteq> Leaf"
  by (cases t) (auto simp: insert_node.simps(2) Let_def mk_children_def)

lemma insert_node_compressed: "compressed t \<Longrightarrow> compressed (insert_node w k m route t)"
  by (induction t) (auto simp: insert_node.simps(2) Let_def mk_children_def addRoute_def)

section \<open>Removal keeps the invariant and clears one prefix\<close>

lemma rebuild_value_at:
  assumes "wf_node w (Node l r p v n)"
  shows "value_at (fst (rebuild go l r p v n)) k m = value_at (Node l r p v n) k m"
proof -
  have "value_at l p n = []" "value_at r p n = []"
    using assms by (auto intro!: value_at_not_under)
  then show ?thesis by (auto simp: rebuild_def compress_step_def)
qed

lemma rebuild_under: "under w d c (Node l r p v n) \<Longrightarrow> under w d c (fst (rebuild go l r p v n))"
  by (auto simp: rebuild_def compress_step_def)

lemma rebuild_wf: "wf_node w (Node l r p v n) \<Longrightarrow> wf_node w (fst (rebuild go l r p v n))"
  by (auto simp: rebuild_def compress_step_def)

lemma rebuild_not_Leaf: "\<not> snd (rebuild go l r p v n) \<Longrightarrow> fst (rebuild go l r p v n) \<noteq> Leaf"
  by (auto simp: rebuild_def compress_step_def split: if_splits)

lemma rebuild_compressed:
  "compressed l \<Longrightarrow> compressed r \<Longrightarrow> go \<or> v \<noteq> [] \<or> (l \<noteq> Leaf \<and> r \<noteq> Leaf) \<Longrightarrow>
   compressed (fst (rebuild go l r p v n))"
  by (auto simp: rebuild_def compress_step_def)

lemma compress_step_rebuild: "compress_step l r p v n = rebuild True l r p v n"
  by (simp add: rebuild_def)

text \<open>The shape of a successful removal: the node found, or a rebuilt path above it.\<close>

lemma remove_node_induct [consumes 1, case_names found right left]:
  assumes "remove_node w k m t = Some (t', go)"
    and "\<And>l r p v n. v \<noteq> [] \<Longrightarrow> n = m \<Longrightarrow> n \<le> commonBits w k p \<Longrightarrow>
           P (Node l r p v n) (fst (rebuild True l r p [] n)) (snd (rebuild True l r p [] n))"
    and "\<And>l r p v n r' go. remove_node w k m r = Some (r', go) \<Longrightarrow> P r r' go \<Longrightarrow>
           n < m \<Longrightarrow> n \<le> commonBits w k p \<Longrightarrow> getBit w k n \<Longrightarrow>
           P (Node l r p v n) (fst (rebuild go l r' p v n)) (snd (rebuild go l r' p v n))"
    and "\<And>l r p v n l' go. remove_node w k m l = Some (l', go) \<Longrightarrow> P l l' go \<Longrightarrow>
           n < m \<Longrightarrow> n \<le> commonBits w k p \<Longrightarrow> \<not> getBit w k n \<Longrightarrow>
           P (Node l r p v n) (fst (rebuild go l' r p v n)) (snd (rebuild go l' r p v n))"
  shows "P t t' go"
  using assms(1)
proof (induction t arbitrary: t' go)
  case Leaf
  then show ?case by simp
next
  case (Node l r p v n)
  from Node.prems consider
      "v \<noteq> []" "n = m" "n \<le> commonBits w k p" "rebuild True l r p [] n = (t', go)"
    | r' g where "n < m" "n \<le> commonBits w k p" "getBit w k n" "remove_node w k m r = Some (r', g)"
        "rebuild g l r' p v n = (t', go)"
    | l' g where "n < m" "n \<le> commonBits w k p" "\<not> getBit w k n" "remove_node w k m l = Some (l', g)"
        "rebuild g l' r p v n = (t', go)"
    by (fastforce simp: compress_step_rebuild not_less split: if_splits option.splits)
  then show ?case
  proof cases
    case 1
    then show ?thesis using assms(2) [of v n p l r] by simp
  next
    case 2
    then show ?thesis using assms(3) [OF 2(4) Node.IH(2) [OF 2(4)], of n p l v] by simp
  next
    case 3
    then show ?thesis using assms(4) [OF 3(4) Node.IH(1) [OF 3(4)], of n p r v] by simp
  qed
qed

lemma remove_node_cases:
  assumes wf: "wf_node w (Node l r p v n)" and ok: "key_ok w k m"
  obtains
    (outside) "value_at (Node l r p v n) k m = []" "remove_node w k m (Node l r p v n) = None"
  | (found) "k = p" "m = n" "v \<noteq> []"
      "remove_node w k m (Node l r p v n) = Some (compress_step l r p [] n)"
  | (right) "n < m" "getBit w k n" "pre w n k = pre w n p"
      "remove_node w k m (Node l r p v n) = (case remove_node w k m r of None \<Rightarrow> None
        | Some (r', go) \<Rightarrow> Some (rebuild go l r' p v n))"
  | (left) "n < m" "\<not> getBit w k n" "pre w n k = pre w n p"
      "remove_node w k m (Node l r p v n) = (case remove_node w k m l of None \<Rightarrow> None
        | Some (l', go) \<Rightarrow> Some (rebuild go l' r p v n))"
proof -
  have m: "m \<le> w" "k < 2 ^ w" "take_bit (w - m) k = 0" using ok by (auto simp: key_ok_def)
  have n: "n \<le> w" "p < 2 ^ w" "take_bit (w - n) p = 0" using wf by auto
  have ge: "n \<le> commonBits w k p \<longleftrightarrow> pre w n k = pre w n p"
    using commonBits_ge_iff [OF m(2) n(2) n(1)] .
  consider "pre w n k \<noteq> pre w n p" | "pre w n k = pre w n p" "n = m" "v = []"
    | "pre w n k = pre w n p" "n = m" "v \<noteq> []" | "pre w n k = pre w n p" "m < n"
    | "pre w n k = pre w n p" "n < m" "getBit w k n" | "pre w n k = pre w n p" "n < m" "\<not> getBit w k n"
    by linarith
  then show thesis
  proof cases
    case 1
    then have "k \<noteq> p" by auto
    then have "value_at (Node l r p v n) k m = []"
      using value_at_child [OF wf _ m(1), of k] value_at_short [OF wf, of m k] 1
      by (cases n m rule: linorder_cases) (simp_all del: value_at.simps)
    with 1 ge show ?thesis by (intro outside) auto
  next
    case 2
    then have "value_at (Node l r p v n) k m = []"
      using value_at_short [OF wf, of m k] by (cases "k = p") auto
    with 2 ge show ?thesis by (intro outside) auto
  next
    case 3
    then have "k = p" using m n by (auto intro: clean_prefix_eq)
    with 3 ge show ?thesis by (intro found) auto
  next
    case 4
    with value_at_short [OF wf, of m k] ge show ?thesis by (intro outside) auto
  next
    case 5
    with ge show ?thesis by (intro right) auto
  next
    case 6
    with ge show ?thesis by (intro left) auto
  qed
qed

declare remove_node.simps(2) [simp del]

lemma remove_node_under:
  "remove_node w k m t = Some (t', go) \<Longrightarrow> under w d c t \<Longrightarrow> under w d c t'"
  by (induction rule: remove_node_induct) (auto intro!: rebuild_under)

lemma remove_node_wf:
  "remove_node w k m t = Some (t', go) \<Longrightarrow> wf_node w t \<Longrightarrow> wf_node w t'"
  by (induction rule: remove_node_induct) (auto intro!: rebuild_wf dest: remove_node_under)

lemma remove_node_not_Leaf:
  "remove_node w k m t = Some (t', go) \<Longrightarrow> \<not> go \<Longrightarrow> t' \<noteq> Leaf"
  by (induction rule: remove_node_induct) (auto dest: rebuild_not_Leaf)

lemma remove_node_compressed:
  "remove_node w k m t = Some (t', go) \<Longrightarrow> compressed t \<Longrightarrow> compressed t'"
proof (induction rule: remove_node_induct)
  case (right l r p v n r' go)
  then show ?case by (intro rebuild_compressed) (auto dest: remove_node_not_Leaf)
next
  case (left l r p v n l' go)
  then show ?case by (intro rebuild_compressed) (auto dest: remove_node_not_Leaf)
qed (auto intro: rebuild_compressed)

lemma remove_node_value_at:
  assumes "remove_node w k m t = Some (t', go)" "wf_node w t" "key_ok w k m"
  shows "value_at t' k' m' = (if k' = k \<and> m' = m then [] else value_at t k' m')"
  using assms
proof (induction rule: remove_node_induct)
  case (found l r p v n)
  have m: "m \<le> w" "k < 2 ^ w" "take_bit (w - m) k = 0" using found by (auto simp: key_ok_def)
  have n: "n \<le> w" "p < 2 ^ w" "take_bit (w - n) p = 0" using found by auto
  have "pre w n k = pre w n p" using commonBits_ge_iff [OF m(2) n(2) n(1)] found by simp
  then have "k = p" using m n found by (auto intro: clean_prefix_eq)
  have wf0: "wf_node w (Node l r p [] n)" using found by simp
  have "value_at l p n = []" "value_at r p n = []"
    using found by (auto intro!: value_at_not_under)
  then show ?case
    unfolding rebuild_value_at [OF wf0] using found(2) \<open>k = p\<close> by auto
next
  case (right l r p v n r' go)
  have odd: "pre w (Suc n) k = 2 * pre w n k + 1" using right.hyps right.prems(2) by (simp add: pre_Suc key_ok_def)
  have k: "value_at l k m = []"
  proof (rule value_at_not_under)
    show "under w (Suc n) (2 * pre w n p) l" using right by simp
    show "\<not> (Suc n \<le> m \<and> pre w (Suc n) k = 2 * pre w n p)"
      using odd by presburger
  qed
  have wf': "wf_node w (Node l r' p v n)" using right.prems(1) remove_node_under [OF right.hyps(1)] remove_node_wf [OF right.hyps(1)] by simp
  have "wf_node w r" using right by simp
  from right.IH [OF this right.prems(2)] show ?case
    unfolding rebuild_value_at [OF wf'] using right.hyps(2) k by auto
next
  case (left l r p v n l' go)
  have even: "pre w (Suc n) k = 2 * pre w n k" using left.hyps left.prems(2) by (simp add: pre_Suc key_ok_def)
  have k: "value_at r k m = []"
  proof (rule value_at_not_under)
    show "under w (Suc n) (2 * pre w n p + 1) r" using left by simp
    show "\<not> (Suc n \<le> m \<and> pre w (Suc n) k = 2 * pre w n p + 1)"
      using even by presburger
  qed
  have wf': "wf_node w (Node l' r p v n)" using left.prems(1) remove_node_under [OF left.hyps(1)] remove_node_wf [OF left.hyps(1)] by simp
  have "wf_node w l" using left by simp
  from left.IH [OF this left.prems(2)] show ?case
    unfolding rebuild_value_at [OF wf'] using left.hyps(2) k by auto
qed

lemma remove_node_None_iff:
  assumes "wf_node w t" "key_ok w k m"
  shows "remove_node w k m t = None \<longleftrightarrow> value_at t k m = []"
  using assms
proof (induction t)
  case (Node l r p v n)
  have m: "m \<le> w" using Node.prems by (simp add: key_ok_def)
  from Node.prems show ?case
  proof (cases rule: remove_node_cases)
    case right
    then show ?thesis using Node value_at_child [OF Node.prems(1) right(1) m, of k]
      by (simp del: value_at.simps split: option.splits)
  next
    case left
    then show ?thesis using Node value_at_child [OF Node.prems(1) left(1) m, of k]
      by (simp del: value_at.simps split: option.splits)
  qed auto
qed simp

end
