(* ===== verification/Net_Prefix.thy ===== *)
theory Net_Prefix
  imports Prelude
begin

text \<open>
  Network prefixes as numbers. The value \<^verbatim>\<open>big.Int.SetBytes\<close> gives an address is the value of
  its bits, a canonical mask is a run of ones followed by zeros, and masking an address keeps
  its leading bits and clears the others. The route table and the demultiplexer share these facts.
\<close>

abbreviation bits_val :: "bool list \<Rightarrow> nat" where
  "bits_val bs \<equiv> horner_sum of_bool 2 (rev bs)"

lemma bits_val_append: "bits_val (xs @ ys) = bits_val xs * 2 ^ length ys + bits_val ys"
  by (simp add: horner_sum_append)

lemma bits_val_less: "bits_val bs < 2 ^ length bs"
proof -
  have "bits_val bs = take_bit (length bs) (bits_val bs)"
    by (simp add: bit_eq_iff bit_take_bit_iff bit_horner_sum_bit_iff)
  then show ?thesis by (metis take_bit_nat_less_exp)
qed

lemma bits_val_pre:
  assumes "length bs = w" "n \<le> w"
  shows "drop_bit (w - n) (bits_val bs) = bits_val (take n bs)"
proof -
  have "bits_val bs = bits_val (take n bs) * 2 ^ (w - n) + bits_val (drop n bs)"
    using bits_val_append [of "take n bs" "drop n bs"] assms by simp
  moreover have "bits_val (drop n bs) < 2 ^ (w - n)"
    using bits_val_less [of "drop n bs"] assms by simp
  ultimately show ?thesis by (simp add: drop_bit_eq_div)
qed

lemma bits_val_inj: "length xs = length ys \<Longrightarrow> bits_val xs = bits_val ys \<Longrightarrow> xs = ys"
proof (induction xs ys rule: list_induct2)
  case (Cons x xs y ys)
  have "bits_val xs < 2 ^ length ys" "bits_val ys < 2 ^ length ys"
    using bits_val_less [of xs] bits_val_less [of ys] Cons.hyps by simp_all
  moreover have "of_bool x * 2 ^ length ys + bits_val xs = of_bool y * 2 ^ length ys + bits_val ys"
    using Cons.prems Cons.hyps by (cases x; cases y; simp add: horner_sum_append)
  ultimately have "x = y" "bits_val xs = bits_val ys" by (cases x; cases y; simp)+
  with Cons.IH show ?case by simp
qed simp

lemma length_byte_bits [simp]: "length (byte_bits b) = 8"
  by (simp add: byte_bits_def)

lemma length_mask_bits [simp]: "length (mask_bits bs) = 8 * length bs"
  by (induction bs) (simp_all add: mask_bits_def)

lemma mask_bits_Cons: "mask_bits (b # bs) = byte_bits b @ mask_bits bs"
  by (simp add: mask_bits_def)

lemma byte_bits_rev: "byte_bits b = rev (map (bit b) [0..<8])"
  by (rule nth_equalityI) (auto simp: byte_bits_def rev_nth)

lemma unat_byte_bits: "unat b = bits_val (byte_bits b)"
proof -
  have "bits_val (byte_bits b) = horner_sum of_bool 2 (map (bit (unat b)) [0..<8])"
    by (auto simp: byte_bits_rev bit_unsigned_iff intro!: arg_cong [where f = "horner_sum of_bool 2"])
  also have "\<dots> = take_bit 8 (unat b)" by (rule horner_sum_bit_eq_take_bit)
  also have "\<dots> = unat b" using unat_byte_less [of b] by (simp add: take_bit_nat_eq_self_iff)
  finally show ?thesis by simp
qed

lemma SetBytes_bits: "SetBytes bs = bits_val (mask_bits bs)"
proof (induction bs)
  case (Cons b bs)
  have "(2 :: nat) ^ (8 * length bs) = 256 ^ length bs" by (simp add: power_mult)
  then show ?case
    using Cons by (simp only: SetBytes_simps mask_bits_Cons bits_val_append length_mask_bits unat_byte_bits)
qed (simp add: mask_bits_def)

lemma byte_bits_and: "byte_bits (a AND b) = map2 (\<and>) (byte_bits a) (byte_bits b)"
  by (rule nth_equalityI) (auto simp: byte_bits_def bit_and_iff)

lemma mask_bits_and:
  "length xs = length ys \<Longrightarrow> mask_bits (map2 (AND) xs ys) = map2 (\<and>) (mask_bits xs) (mask_bits ys)"
  by (induction xs ys rule: list_induct2) (simp_all add: mask_bits_Cons byte_bits_and, simp add: mask_bits_def)

text \<open>A canonical mask of width \<open>w\<close> with \<open>n\<close> leading ones.\<close>

lemma list_all_Not_replicate: "list_all Not bs \<Longrightarrow> bs = replicate (length bs) False"
  by (induction bs) auto

lemma canonical_bits:
  "list_all Not (drop (length (takeWhile id bs)) bs) \<Longrightarrow>
   bs = replicate (length (takeWhile id bs)) True @ replicate (length bs - length (takeWhile id bs)) False"
proof (induction bs)
  case (Cons b bs)
  show ?case
  proof (cases b)
    case True
    with Cons show ?thesis by simp
  next
    case False
    with Cons.prems list_all_Not_replicate [of bs] show ?thesis by simp
  qed
qed simp

lemma Mask_Size_bits:
  assumes "Mask_Size m = (n, w)" "0 < w"
  shows "mask_bits m = replicate n True @ replicate (w - n) False" "n \<le> w" "w = 8 * length m"
proof -
  define bs where "bs = mask_bits m"
  define j where "j = length (takeWhile id bs)"
  have size: "Mask_Size m = (if list_all Not (drop j bs) then (j, length m * 8) else (0, 0))"
    unfolding Mask_Size_def Let_def j_def bs_def ..
  have all: "list_all Not (drop j bs)"
  proof (rule ccontr)
    assume "\<not> ?thesis"
    with size assms show False by simp
  qed
  then have jn: "j = n" "w = length m * 8" using size assms(1) by simp_all
  moreover have len: "length bs = w" unfolding bs_def jn by simp
  ultimately show "mask_bits m = replicate n True @ replicate (w - n) False"
    using canonical_bits [of bs] all unfolding j_def [symmetric] bs_def [symmetric] by simp
  show "n \<le> w" using length_takeWhile_le [of id bs] jn(1) len unfolding j_def by simp
  show "w = 8 * length m" using jn by simp
qed

lemma map2_and_mask:
  "length bs = w \<Longrightarrow> n \<le> w \<Longrightarrow>
   map2 (\<and>) bs (replicate n True @ replicate (w - n) False) = take n bs @ replicate (w - n) False"
  by (intro nth_equalityI) (auto simp: nth_append)

lemma mask_bits_inj: "mask_bits xs = mask_bits ys \<Longrightarrow> xs = ys"
proof -
  assume *: "mask_bits xs = mask_bits ys"
  then have "length xs = length ys" by (metis length_mask_bits mult_cancel1 zero_neq_numeral)
  with * show ?thesis using SetBytes_inj [of xs ys] by (simp add: SetBytes_bits)
qed

text \<open>Masking clears the host bits and keeps the network bits.\<close>

lemma SetBytes_masked:
  assumes "Mask_Size m = (n, w)" "0 < w" "length a = length m"
  shows "take_bit (w - n) (SetBytes (map2 (AND) a m)) = 0"
    and "drop_bit (w - n) (SetBytes (map2 (AND) a m)) = drop_bit (w - n) (SetBytes a)"
proof -
  note m = Mask_Size_bits [OF assms(1,2)]
  have *: "mask_bits (map2 (AND) a m) = take n (mask_bits a) @ replicate (w - n) False"
    using assms(3) m by (simp add: mask_bits_and map2_and_mask)
  have z: "bits_val (replicate j False) = 0" for j by (induction j) (simp_all add: horner_sum_append)
  have v: "SetBytes (map2 (AND) a m) = bits_val (take n (mask_bits a)) * 2 ^ (w - n)"
    by (simp only: SetBytes_bits * bits_val_append z) simp
  then show "take_bit (w - n) (SetBytes (map2 (AND) a m)) = 0"
    by (simp add: take_bit_eq_mod)
  have "drop_bit (w - n) (SetBytes a) = bits_val (take n (mask_bits a))"
    unfolding SetBytes_bits using m assms(3) by (intro bits_val_pre) simp_all
  then show "drop_bit (w - n) (SetBytes (map2 (AND) a m)) = drop_bit (w - n) (SetBytes a)"
    using v by (simp add: drop_bit_eq_div)
qed

lemma masked_eq_iff:
  assumes "Mask_Size m = (n, w)" "0 < w" "length a = length m" "length b = length m"
  shows "map2 (AND) a m = map2 (AND) b m \<longleftrightarrow> drop_bit (w - n) (SetBytes a) = drop_bit (w - n) (SetBytes b)"
proof
  assume "map2 (AND) a m = map2 (AND) b m"
  then show "drop_bit (w - n) (SetBytes a) = drop_bit (w - n) (SetBytes b)"
    using SetBytes_masked(2) [OF assms(1,2,3)] SetBytes_masked(2) [OF assms(1,2,4)] by simp
next
  assume *: "drop_bit (w - n) (SetBytes a) = drop_bit (w - n) (SetBytes b)"
  have "SetBytes (map2 (AND) a m) = SetBytes (map2 (AND) b m)"
    using SetBytes_masked [OF assms(1,2,3)] SetBytes_masked [OF assms(1,2,4)] *
      bits_ident [of "w - n" "SetBytes (map2 (AND) a m)"] bits_ident [of "w - n" "SetBytes (map2 (AND) b m)"]
    by simp
  then show "map2 (AND) a m = map2 (AND) b m" using assms by (intro SetBytes_inj) simp_all
qed

end
