(* ===== verification/Route_Lookup.thy ===== *)
theory Route_Lookup
  imports Route_Table Net_Prefix
begin

text \<open>
  The contract of the route table of \<^verbatim>\<open>pkg/route\<close>: whatever sequence of insertions, removals
  and exclusions built it, a lookup answers the most specific route that contains the
  destination. The trie is first related to a finite map from prefixes to routes, then the
  descent of \<^verbatim>\<open>lookup\<close> to a probe of that map from the longest prefix to the shortest.
\<close>

section \<open>Lookup is a longest-prefix match\<close>

text \<open>The reference: the first hit when probing the prefix lengths from \<open>n\<close> down to 0.\<close>

fun longest :: "(nat \<Rightarrow> 'r option) \<Rightarrow> nat \<Rightarrow> 'r option" where
  "longest f 0 = f 0"
| "longest f (Suc n) = (case f (Suc n) of Some r \<Rightarrow> Some r | None \<Rightarrow> longest f n)"

lemma longest_None_iff: "longest f n = None \<longleftrightarrow> (\<forall>m\<le>n. f m = None)"
  by (induction n) (auto simp: le_Suc_eq split: option.splits)

lemma longest_Some_iff:
  "longest f n = Some r \<longleftrightarrow> (\<exists>m\<le>n. f m = Some r \<and> (\<forall>j. m < j \<and> j \<le> n \<longrightarrow> f j = None))"
  (is "_ \<longleftrightarrow> (\<exists>m\<le>n. ?hit m n)")
proof (induction n)
  case (Suc n)
  show ?case
  proof (cases "f (Suc n)")
    case None
    have "(\<exists>m\<le>n. ?hit m n) \<longleftrightarrow> (\<exists>m\<le>Suc n. ?hit m (Suc n))"
    proof
      assume "\<exists>m\<le>n. ?hit m n"
      then obtain m where "m \<le> n" "?hit m n" by blast
      then show "\<exists>m\<le>Suc n. ?hit m (Suc n)" using None by (intro exI [of _ m]) (auto simp: le_Suc_eq)
    next
      assume "\<exists>m\<le>Suc n. ?hit m (Suc n)"
      then obtain m where "m \<le> Suc n" "?hit m (Suc n)" by blast
      moreover from this None have "m \<noteq> Suc n" by auto
      ultimately show "\<exists>m\<le>n. ?hit m n" by (intro exI [of _ m]) auto
    qed
    then show ?thesis using Suc None by simp
  next
    case (Some s)
    have "m = Suc n" if "m \<le> Suc n" "?hit m (Suc n)" for m
    proof (rule ccontr)
      assume "m \<noteq> Suc n"
      with that Some show False by auto
    qed
    then have "(\<exists>m\<le>Suc n. ?hit m (Suc n)) \<longleftrightarrow> f (Suc n) = Some r" by auto
    then show ?thesis using Some by simp
  qed
qed simp

lemma longest_cong: "(\<And>m. m \<le> n \<Longrightarrow> f m = g m) \<Longrightarrow> longest f n = longest g n"
  by (induction n) (auto split: option.splits)

text \<open>The hits of a node: its own at length \<open>n\<close>, those of one child beyond it.\<close>

lemma longest_split:
  assumes "n \<le> w" "\<And>m. n < m \<Longrightarrow> m \<le> w \<Longrightarrow> f m = g m" "\<And>m. m \<le> n \<Longrightarrow> g m = None"
    "\<And>m. m < n \<Longrightarrow> f m = None"
  shows "longest f w = (case longest g w of Some r \<Rightarrow> Some r | None \<Rightarrow> f n)"
  using assms
proof (induction w)
  case (Suc w)
  show ?case
  proof (cases "n = Suc w")
    case True
    then have "longest g (Suc w) = None" "longest f w = None"
      using Suc.prems by (simp_all add: longest_None_iff less_Suc_eq_le del: longest.simps)
    then show ?thesis using True by (auto split: option.splits)
  next
    case False
    then show ?thesis using Suc by (auto split: option.splits)
  qed
qed simp

definition pick :: "(string \<Rightarrow> bool) \<Rightarrow> Route list \<Rightarrow> Route option" where
  "pick ign v = List.find (\<lambda>r. \<not> ign (r_Interface r)) v"

lemma pick_Nil [simp]: "pick ign [] = None"
  by (simp add: pick_def)

lemma scan_value_pick:
  "scan_value ign n v (best, bl) =
     (if bl < int n then (case pick ign v of Some r \<Rightarrow> (Some r, int n) | None \<Rightarrow> (best, bl)) else (best, bl))"
  by (induction v arbitrary: best bl) (auto simp: pick_def)

lemma value_at_outside:
  assumes wf: "wf_node w (Node l r p v n)" and "pre w n d \<noteq> pre w n p" "m \<le> w"
  shows "value_at (Node l r p v n) (maskPrefix w d m) m = []"
proof (cases "n < m")
  case True
  then show ?thesis
    using value_at_child [OF wf True assms(3), of "maskPrefix w d m"] assms
    by (simp add: maskPrefix_pre del: value_at.simps)
next
  case False
  have "maskPrefix w d n \<noteq> p" using assms maskPrefix_pre [of n n w d] by auto
  then show ?thesis using False by (intro value_at_short [OF wf]) auto
qed

lemma getBit_maskPrefix: "n < m \<Longrightarrow> m \<le> w \<Longrightarrow> getBit w (maskPrefix w d m) n = getBit w d n"
  by (auto simp: getBit_def maskPrefix_eq bit_push_bit_iff bit_drop_bit_eq)

lemma lookup_node_longest:
  assumes "wf_node w t" "d < 2 ^ w" "\<And>k m. value_at t k m \<noteq> [] \<Longrightarrow> bl < int m"
  shows "fst (lookup_node w ign d t (best, bl)) =
    (case longest (\<lambda>m. pick ign (value_at t (maskPrefix w d m) m)) w of Some r \<Rightarrow> Some r | None \<Rightarrow> best)"
  using assms
proof (induction t arbitrary: best bl)
  case Leaf
  have "longest (\<lambda>_. None :: Route option) w = None" by (simp add: longest_None_iff)
  then show ?case by simp
next
  case (Node l r p v n)
  let ?t = "Node l r p v n" and ?c = "if getBit w d n then r else l"
  let ?f = "\<lambda>t m. pick ign (value_at t (maskPrefix w d m) m)"
  have n: "n \<le> w" "p < 2 ^ w" "take_bit (w - n) p = 0" using Node.prems by auto
  have ge: "n \<le> commonBits w d p \<longleftrightarrow> pre w n d = pre w n p"
    using commonBits_ge_iff [OF Node.prems(2) n(2) n(1)] .
  show ?case
  proof (cases "pre w n d = pre w n p")
    case False
    then have "longest (?f ?t) w = None"
      using value_at_outside [OF Node.prems(1)] by (simp add: longest_None_iff del: value_at.simps)
    then show ?thesis using False ge by (simp del: value_at.simps)
  next
    case True
    have p: "maskPrefix w d n = p"
      using maskPrefix_pre [OF order_refl n(1), of d] True
      by (intro clean_prefix_eq [OF maskPrefix_clean [OF n(1)] n(3)]) simp
    have "under w (Suc n) (2 * pre w n p + of_bool (getBit w d n)) ?c" using Node.prems(1) by simp
    then have len: "Suc n \<le> m" if "value_at ?c k m \<noteq> []" for k m
      using value_at_not_under that by blast
    have split: "longest (?f ?t) w = (case longest (?f ?c) w of Some r \<Rightarrow> Some r | None \<Rightarrow> ?f ?t n)"
    proof (rule longest_split [OF n(1)])
      show "?f ?t m = ?f ?c m" if "n < m" "m \<le> w" for m
        using value_at_child [OF Node.prems(1) that, of "maskPrefix w d m"] that True
        by (simp add: maskPrefix_pre getBit_maskPrefix del: value_at.simps)
      show "?f ?c m = None" if "m \<le> n" for m
        using len [of "maskPrefix w d m" m] that by fastforce
      show "?f ?t m = None" if "m < n" for m
        using that value_at_short [OF Node.prems(1)] by (simp del: value_at.simps)
    qed
    have here: "?f ?t n = pick ign v" using p by simp
    obtain b' bl' where b': "scan_value ign n v (best, bl) = (b', bl')" by fastforce
    have bl: "v \<noteq> [] \<Longrightarrow> bl < int n" using Node.prems(3) [of p n] by simp
    then have best': "b' = (case pick ign v of Some r \<Rightarrow> Some r | None \<Rightarrow> best)"
      using b' by (cases "v = []") (auto simp: scan_value_pick split: option.splits)
    have "bl' = bl \<or> bl' = int n" using b' by (auto simp: scan_value_pick split: if_splits option.splits)
    moreover have "bl < int m" if "value_at ?c k m \<noteq> []" for k m
      using Node.prems(3) [of k m] len [OF that] that by (auto split: if_splits)
    ultimately have pre: "bl' < int m" if "value_at ?c k m \<noteq> []" for k m
      using len [OF that] that by fastforce
    have step: "lookup_node w ign d ?t (best, bl) = (if w \<le> n then (b', bl') else lookup_node w ign d ?c (b', bl'))"
      using True ge b' by simp
    have "fst (lookup_node w ign d ?c (b', bl')) = (case longest (?f ?c) w of Some r \<Rightarrow> Some r | None \<Rightarrow> b')"
      using Node.IH(1) [OF _ Node.prems(2)] Node.IH(2) [OF _ Node.prems(2)] Node.prems(1) pre by (cases "getBit w d n") simp_all
    moreover have "longest (?f ?c) w = None" if "w \<le> n"
    proof -
      have "value_at ?c (maskPrefix w d m) m = []" if "m \<le> w" for m
        using len [of "maskPrefix w d m" m] that \<open>w \<le> n\<close> by fastforce
      then show ?thesis by (simp add: longest_None_iff)
    qed
    ultimately show ?thesis
      unfolding step split here best' by (auto split: option.splits)
  qed
qed

section \<open>Routes as prefixes\<close>

text \<open>A route of family \<open>f\<close> whose mask is canonical and as wide as its address, as
  \<^verbatim>\<open>net.ParseCIDR\<close> and the operating system's route sources build them.\<close>

definition wf_route :: "af \<Rightarrow> Route \<Rightarrow> bool" where
  "wf_route f r = (Family r = Some f \<and> snd (Mask_Size (net_Mask (r_Destination r))) = bitWidth f)"

definition route_prefix :: "Route \<Rightarrow> nat \<times> nat" where
  "route_prefix r = (case routeToTablePrefix r of None \<Rightarrow> 0 | Some k \<Rightarrow> k, routeToPrefixBits r)"

lemma bitWidth_pos [simp]: "0 < bitWidth f" "bitWidth f \<noteq> 0"
  by (cases f; simp)+

lemma wf_route_size:
  "wf_route f r \<Longrightarrow> Mask_Size (net_Mask (r_Destination r)) = (routeToPrefixBits r, bitWidth f)"
  by (simp add: wf_route_def routeToPrefixBits_def prod_eq_iff)

text \<open>The address of a route in the width of its family.\<close>

definition route_addr :: "Route \<Rightarrow> ip" where
  "route_addr r = (case To4 (net_IP (r_Destination r)) of Some a \<Rightarrow> a | None \<Rightarrow> net_IP (r_Destination r))"

lemma route_addr_length:
  assumes "wf_route f r"
  shows "length (route_addr r) = length (net_Mask (r_Destination r))"
    and "8 * length (route_addr r) = bitWidth f"
proof -
  note m = Mask_Size_bits [OF wf_route_size [OF assms] bitWidth_pos(1)]
  show "8 * length (route_addr r) = bitWidth f"
    using assms by (cases f) (auto simp: wf_route_def route_addr_def Family_def To4_def To16_def split: if_splits)
  with m(3) show "length (route_addr r) = length (net_Mask (r_Destination r))" by simp
qed


lemma mask_bits_take: "mask_bits (take n bs) = take (8 * n) (mask_bits bs)"
proof (induction bs arbitrary: n)
  case (Cons b bs)
  then show ?case by (cases n) (simp_all add: mask_bits_Cons, simp add: mask_bits_def)
qed (simp add: mask_bits_def)

text \<open>Masking cannot turn an IPv6 network into an IPv4-mapped one.\<close>

lemma masked_not_mapped:
  assumes size: "Mask_Size m = (n, 128)" and "length a = 16" "take 12 (map2 (AND) a m) = v4InV6Prefix"
  shows "take 12 a = v4InV6Prefix"
proof -
  note m = Mask_Size_bits [OF size]
  have bits: "mask_bits (map2 (AND) a m) = take n (mask_bits a) @ replicate (128 - n) False"
    using assms(2) m by (simp add: mask_bits_and map2_and_mask)
  then have eq: "take 96 (take n (mask_bits a) @ replicate (128 - n) False) = mask_bits v4InV6Prefix"
    using assms(3) mask_bits_take [of 12 "map2 (AND) a m"] by simp
  have "mask_bits v4InV6Prefix ! 95" by code_simp
  then have "take 96 (take n (mask_bits a) @ replicate (128 - n) False) ! 95" unfolding eq .
  then have "(take n (mask_bits a) @ replicate (128 - n) False) ! 95" by (subst (asm) nth_take) simp_all
  then have "95 < n" using m(2) assms(2) by (auto simp: nth_append split: if_splits)
  then have "take 96 (mask_bits a) = mask_bits v4InV6Prefix"
    using eq assms(2) by (simp add: min_def)
  then show ?thesis using mask_bits_take [of 12 a] by (intro mask_bits_inj) simp
qed

lemma routeToTablePrefix_eq:
  assumes wf: "wf_route f r"
  shows "routeToTablePrefix r =
    Some (if routeToPrefixBits r = bitWidth f then SetBytes (route_addr r)
          else SetBytes (map2 (AND) (route_addr r) (net_Mask (r_Destination r))))"
proof -
  let ?m = "net_Mask (r_Destination r)" and ?a = "net_IP (r_Destination r)"
  note size = wf_route_size [OF wf]
  note len = route_addr_length [OF wf]
  show ?thesis
  proof (cases f)
    case AF_INET
    then have 4: "length ?m = 4" "length (route_addr r) = 4" using len by auto
    obtain b where b: "To4 ?a = Some b" using wf AF_INET by (auto simp: wf_route_def Family_def split: if_splits)
    then have "IP_Mask ?a ?m = map2 (AND) (route_addr r) ?m"
      using 4 by (auto simp: IP_Mask_def route_addr_def To4_def split: if_splits)
    then show ?thesis
      using b size 4 AF_INET
      by (auto simp: routeToTablePrefix_def calculateNetworkAddress_def Let_def route_addr_def To4_def split: if_splits)
  next
    case AF_INET6
    then have 16: "length ?m = 16" "length (route_addr r) = 16" using len by auto
    have b: "To4 ?a = None" "length ?a = 16" "route_addr r = ?a"
      using wf AF_INET6 by (auto simp: wf_route_def Family_def To4_def To16_def route_addr_def split: if_splits)
    then have "IP_Mask ?a ?m = map2 (AND) ?a ?m"
      using 16 by (auto simp: IP_Mask_def)
    moreover have "To4 (map2 (AND) ?a ?m) = None"
      using masked_not_mapped [of ?m _ ?a] size b 16 AF_INET6 by (auto simp: To4_def split: if_splits)
    ultimately show ?thesis
      using b size 16 AF_INET6
      by (auto simp: routeToTablePrefix_def calculateNetworkAddress_def Let_def To16_def)
  qed
qed

lemma wf_route_prefix:
  assumes wf: "wf_route f r"
  shows "routeToTablePrefix r = Some (fst (route_prefix r))" "snd (route_prefix r) = routeToPrefixBits r"
    "key_ok (bitWidth f) (fst (route_prefix r)) (routeToPrefixBits r)"
    "pre (bitWidth f) (routeToPrefixBits r) (fst (route_prefix r)) =
     pre (bitWidth f) (routeToPrefixBits r) (SetBytes (route_addr r))"
proof -
  let ?n = "routeToPrefixBits r" and ?w = "bitWidth f"
  let ?am = "map2 (AND) (route_addr r) (net_Mask (r_Destination r))"
  note size = wf_route_size [OF wf] and len = route_addr_length [OF wf]
  note m = Mask_Size_bits [OF size bitWidth_pos(1)]
  have k: "fst (route_prefix r) = (if ?n = ?w then SetBytes (route_addr r) else SetBytes ?am)"
    by (simp add: route_prefix_def routeToTablePrefix_eq [OF wf])
  show "routeToTablePrefix r = Some (fst (route_prefix r))" "snd (route_prefix r) = ?n"
    by (simp_all add: route_prefix_def routeToTablePrefix_eq [OF wf])
  have "256 ^ length (route_addr r) = (2 :: nat) ^ ?w"
    unfolding len(2) [symmetric] by (simp add: power_mult)
  then have "SetBytes (route_addr r) < 2 ^ ?w" "SetBytes ?am < 2 ^ ?w"
    using SetBytes_less [of "route_addr r"] SetBytes_less [of ?am] len by simp_all
  then show "key_ok ?w (fst (route_prefix r)) ?n"
    using SetBytes_masked(1) [OF size bitWidth_pos(1) len(1)] m(2) by (auto simp: k key_ok_def)
  show "pre ?w ?n (fst (route_prefix r)) = pre ?w ?n (SetBytes (route_addr r))"
    using SetBytes_masked(2) [OF size bitWidth_pos(1) len(1)] by (simp add: k)
qed


lemma destinationKey_Some_iff:
  "destinationKey f dst = Some d \<longleftrightarrow>
     (let x = (case To4 dst of Some b \<Rightarrow> b | None \<Rightarrow> dst) in 8 * length x = bitWidth f \<and> d = SetBytes x)"
  by (cases f) (auto simp: destinationKey_def To4_def To16_def Let_def split: if_splits)

lemma SetBytes_width: "8 * length x = w \<Longrightarrow> SetBytes x < 2 ^ w"
  using SetBytes_less [of x] by (auto simp: power_mult)

lemma destinationKey_less: "destinationKey f dst = Some d \<Longrightarrow> d < 2 ^ bitWidth f"
  by (auto simp: destinationKey_Some_iff Let_def intro: SetBytes_width)

lemma networkNumberAndMask_wf:
  assumes "wf_route f r"
  shows "networkNumberAndMask (r_Destination r) = (route_addr r, net_Mask (r_Destination r))"
  using route_addr_length [OF assms] assms
  by (cases f) (auto simp: networkNumberAndMask_def Let_def wf_route_def Family_def route_addr_def
      To4_def To16_def split: if_splits)

text \<open>A route contains a destination exactly when its prefix is a prefix of the destination's key.\<close>

lemma contains_iff:
  assumes wf: "wf_route f r"
  shows "IPNet_Contains (r_Destination r) dst \<longleftrightarrow>
    (\<exists>d. destinationKey f dst = Some d \<and>
         fst (route_prefix r) = maskPrefix (bitWidth f) d (routeToPrefixBits r))"
proof -
  let ?x = "case To4 dst of Some b \<Rightarrow> b | None \<Rightarrow> dst" and ?n = "routeToPrefixBits r" and ?w = "bitWidth f"
  let ?m = "net_Mask (r_Destination r)" and ?k = "fst (route_prefix r)"
  note size = wf_route_size [OF wf] and len = route_addr_length [OF wf] and k = wf_route_prefix [OF wf]
  have n: "?n \<le> ?w" and clean: "take_bit (?w - ?n) ?k = 0" using k(3) by (simp_all add: key_ok_def)
  have "pre ?w ?n (SetBytes (route_addr r)) = pre ?w ?n d \<longleftrightarrow> ?k = maskPrefix ?w d ?n" for d
    unfolding k(4) [symmetric]
  proof
    assume "pre ?w ?n ?k = pre ?w ?n d"
    then have "pre ?w ?n ?k = pre ?w ?n (maskPrefix ?w d ?n)"
      unfolding maskPrefix_pre [OF order_refl n] .
    then show "?k = maskPrefix ?w d ?n" by (rule clean_prefix_eq [OF clean maskPrefix_clean [OF n]])
  next
    assume k: "?k = maskPrefix ?w d ?n"
    show "pre ?w ?n ?k = pre ?w ?n d" unfolding k by (rule maskPrefix_pre [OF order_refl n])
  qed
  moreover have "map2 (AND) (route_addr r) ?m = map2 (AND) ?x ?m \<longleftrightarrow>
      pre ?w ?n (SetBytes (route_addr r)) = pre ?w ?n (SetBytes ?x)" if "length ?x = length (route_addr r)"
    using that len by (intro masked_eq_iff [OF size]) simp_all
  ultimately show ?thesis
    using len(2) unfolding IPNet_Contains_def networkNumberAndMask_wf [OF wf] destinationKey_Some_iff Let_def
    by auto
qed

section \<open>The table as a finite map\<close>

definition table_inv :: "Table \<Rightarrow> bool" where
  "table_inv t =
     (wf_node (bitWidth (t_family t)) (t_root t) \<and> compressed (t_root t) \<and>
      (\<forall>k. value_at (t_root t) k 0 = []) \<and>
      (\<forall>k m. \<exists>r. set (value_at (t_root t) k m) \<subseteq> {r}))"

definition table_abs :: "Table \<Rightarrow> nat \<times> nat \<Rightarrow> Route option" where
  "table_abs t = (\<lambda>(k, m).
     if m = 0 then (if k = 0 then t_defaultRoute t else None)
     else case value_at (t_root t) k m of [] \<Rightarrow> None | r # _ \<Rightarrow> Some r)"

lemma key_ok_0 [simp]: "key_ok w k 0 \<longleftrightarrow> k = 0"
  by (auto simp: key_ok_def take_bit_nat_eq_self)

lemma pick_constant: "set v \<subseteq> {r} \<Longrightarrow> pick ign v = (case v of [] \<Rightarrow> None | r # _ \<Rightarrow> if ign (r_Interface r) then None else Some r)"
  by (induction v) (auto simp: pick_def split: list.splits)

text \<open>What a lookup may answer at one prefix: the default route always, others unless ignored.\<close>

definition visible :: "(string \<Rightarrow> bool) \<Rightarrow> nat \<Rightarrow> Route option \<Rightarrow> Route option" where
  "visible ign m x = (case x of None \<Rightarrow> None
     | Some r \<Rightarrow> if m \<noteq> 0 \<and> ign (r_Interface r) then None else Some r)"

lemma maskPrefix_0: "d < 2 ^ w \<Longrightarrow> maskPrefix w d 0 = 0"
  by (simp add: maskPrefix_eq drop_bit_nat_eq_0_iff)

lemma lookup_longest:
  assumes inv: "table_inv t"
  shows "lookup t dst = (case destinationKey (t_family t) dst of None \<Rightarrow> None
    | Some d \<Rightarrow> longest (\<lambda>m. visible (t_ignore t) m (table_abs t (maskPrefix (bitWidth (t_family t)) d m, m)))
        (bitWidth (t_family t)))"
proof (cases "destinationKey (t_family t) dst")
  case None
  then show ?thesis by (simp add: lookup_def)
next
  case (Some d)
  let ?w = "bitWidth (t_family t)" and ?best = "t_defaultRoute t"
  let ?bl = "(case t_defaultRoute t of None \<Rightarrow> -1 | Some _ \<Rightarrow> 0) :: int"
  let ?f = "\<lambda>m. pick (t_ignore t) (value_at (t_root t) (maskPrefix ?w d m) m)"
  let ?g = "\<lambda>m. visible (t_ignore t) m (table_abs t (maskPrefix ?w d m, m))"
  have d: "d < 2 ^ ?w" using Some by (rule destinationKey_less)
  have bl: "?bl < int m" if "value_at (t_root t) k m \<noteq> []" for k m
    using that inv by (cases m) (auto simp: table_inv_def split: option.splits)
  have g: "?g m = (if m = 0 then ?best else ?f m)" for m
  proof -
    obtain r where "set (value_at (t_root t) (maskPrefix ?w d m) m) \<subseteq> {r}"
      using inv unfolding table_inv_def by blast
    from pick_constant [OF this] show ?thesis
      using d by (auto simp: visible_def table_abs_def maskPrefix_0 split: list.splits option.splits)
  qed
  have f0: "?f 0 = None" using inv by (simp add: table_inv_def)
  have "longest ?g n = (case longest ?f n of Some r \<Rightarrow> Some r | None \<Rightarrow> ?best)" for n
    by (induction n) (simp_all add: g f0 split: option.splits)
  moreover have "lookup t dst = fst (lookup_node ?w (t_ignore t) d (t_root t) (?best, ?bl))"
    using Some by (simp add: lookup_def split: option.splits)
  moreover have "\<dots> = (case longest ?f ?w of Some r \<Rightarrow> Some r | None \<Rightarrow> ?best)"
    using inv d bl by (intro lookup_node_longest) (auto simp: table_inv_def)
  ultimately show ?thesis using Some by simp
qed


section \<open>Every history of operations\<close>

datatype rt_op = InsertRoute Route | RemoveRoute Route | ExcludeAdapters "string list" | LookupRoute ip

datatype rt_out = Done bool | Found "Route option"

definition rt_step :: "rt_op \<Rightarrow> Table \<Rightarrow> (Table \<times> rt_out) result" where
  "rt_step op t =
     (case op of
        InsertRoute r \<Rightarrow> rbind (insert t r) (\<lambda>(t', b). Inr (t', Done b))
      | RemoveRoute r \<Rightarrow> rbind (remove t r) (\<lambda>(t', b). Inr (t', Done b))
      | ExcludeAdapters names \<Rightarrow> Inr (ExcludeAdapter t names, Done True)
      | LookupRoute dst \<Rightarrow> Inr (t, Found (lookup t dst)))"

text \<open>The specification: a finite map from prefixes to routes and a set of ignored interfaces.\<close>

type_synonym rt_map = "(nat \<times> nat \<Rightarrow> Route option) \<times> (string \<Rightarrow> bool)"

definition rt_lookup :: "af \<Rightarrow> rt_map \<Rightarrow> ip \<Rightarrow> Route option" where
  "rt_lookup f a dst =
     (case destinationKey f dst of None \<Rightarrow> None
      | Some d \<Rightarrow> longest (\<lambda>m. visible (snd a) m (fst a (maskPrefix (bitWidth f) d m, m))) (bitWidth f))"

definition rt_spec :: "af \<Rightarrow> rt_op \<Rightarrow> rt_map \<Rightarrow> rt_map \<times> rt_out" where
  "rt_spec f op a =
     (case op of
        InsertRoute r \<Rightarrow>
          (if Family r = Some f then (((fst a)(route_prefix r \<mapsto> r), snd a), Done True) else (a, Done False))
      | RemoveRoute r \<Rightarrow>
          (if Family r = Some f
           then (((fst a)(route_prefix r := None), snd a), Done (fst a (route_prefix r) \<noteq> None))
           else (a, Done False))
      | ExcludeAdapters names \<Rightarrow> ((fst a, \<lambda>s. snd a s \<or> s \<in> set names), Done True)
      | LookupRoute dst \<Rightarrow> (a, Found (rt_lookup f a dst)))"

definition rt_ok :: "af \<Rightarrow> rt_op \<Rightarrow> bool" where
  "rt_ok f op = (case op of InsertRoute r \<Rightarrow> Family r = Some f \<longrightarrow> wf_route f r
     | RemoveRoute r \<Rightarrow> Family r = Some f \<longrightarrow> wf_route f r | _ \<Rightarrow> True)"

definition rt_inv :: "af \<Rightarrow> Table \<Rightarrow> bool" where
  "rt_inv f t = (table_inv t \<and> t_family t = f \<and>
     (\<forall>p r. table_abs t p = Some r \<longrightarrow> route_prefix r = p \<and> wf_route f r))"

definition rt_abs :: "Table \<Rightarrow> rt_map" where
  "rt_abs t = (table_abs t, t_ignore t)"

lemma route_prefix_0: "wf_route f r \<Longrightarrow> routeToPrefixBits r = 0 \<Longrightarrow> route_prefix r = (0, 0)"
  using wf_route_prefix [of f r] by (auto simp: prod_eq_iff)

lemma set_addRoute: "set (addRoute v r) = {r}"
  by (auto simp: addRoute_def)

lemma hd_addRoute: "(case addRoute v r of [] \<Rightarrow> None | x # _ \<Rightarrow> Some x) = Some r"
  by (cases v) (simp_all add: addRoute_def)

lemma table_abs_upd:
  assumes "\<And>k' m'. value_at root' k' m' = (if k' = k \<and> m' = m then v else value_at (t_root t) k' m')" "m \<noteq> 0"
  shows "table_abs (t\<lparr>t_root := root'\<rparr>) = (table_abs t)((k, m) := (case v of [] \<Rightarrow> None | r # _ \<Rightarrow> Some r))"
proof (rule ext)
  fix x
  show "table_abs (t\<lparr>t_root := root'\<rparr>) x = ((table_abs t)((k, m) := (case v of [] \<Rightarrow> None | r # _ \<Rightarrow> Some r))) x"
    using assms(2) by (cases x) (simp add: table_abs_def assms(1))
qed

lemma insert_refines:
  assumes inv: "table_inv t" and wf: "wf_route (t_family t) r"
  shows "\<exists>t'. insert t r = Inr (t', True) \<and> table_inv t' \<and> table_abs t' = (table_abs t)(route_prefix r \<mapsto> r) \<and>
    t_family t' = t_family t \<and> t_ignore t' = t_ignore t"
proof (cases "routeToPrefixBits r = 0")
  case True
  have "Family r = Some (t_family t)" using wf by (simp add: wf_route_def)
  then show ?thesis
    using True inv route_prefix_0 [OF wf True] by (auto simp: insert_def table_inv_def table_abs_def fun_eq_iff)
next
  case False
  let ?w = "bitWidth (t_family t)" and ?k = "fst (route_prefix r)" and ?n = "routeToPrefixBits r"
  let ?root = "insert_node ?w ?k ?n r (t_root t)"
  note k = wf_route_prefix [OF wf]
  have fam: "Family r = Some (t_family t)" using wf by (simp add: wf_route_def)
  have wfn: "wf_node ?w (t_root t)" using inv by (simp add: table_inv_def)
  note at = insert_node_value_at [OF wfn k(3), of r]
  have rp: "route_prefix r = (?k, ?n)" using k(2) by (simp add: prod_eq_iff)
  have "table_inv (t\<lparr>t_root := ?root\<rparr>)"
    using inv insert_node_wf [OF wfn k(3)] insert_node_compressed False
    by (auto simp: table_inv_def at set_addRoute)
  moreover have "table_abs (t\<lparr>t_root := ?root\<rparr>) = (table_abs t)(route_prefix r \<mapsto> r)"
    using table_abs_upd [OF at False] unfolding rp [symmetric] hd_addRoute .
  ultimately show ?thesis using fam False k(1) by (simp add: insert_def)
qed

lemma remove_refines:
  assumes inv: "table_inv t" and wf: "wf_route (t_family t) r"
  shows "\<exists>t'. remove t r = Inr (t', table_abs t (route_prefix r) \<noteq> None) \<and> table_inv t' \<and>
    table_abs t' = (table_abs t)(route_prefix r := None) \<and>
    t_family t' = t_family t \<and> t_ignore t' = t_ignore t"
proof (cases "routeToPrefixBits r = 0")
  case True
  have "Family r = Some (t_family t)" using wf by (simp add: wf_route_def)
  then show ?thesis
    using True inv route_prefix_0 [OF wf True] by (auto simp: remove_def table_inv_def table_abs_def fun_eq_iff)
next
  case False
  let ?w = "bitWidth (t_family t)" and ?k = "fst (route_prefix r)" and ?n = "routeToPrefixBits r"
  note k = wf_route_prefix [OF wf]
  have fam: "Family r = Some (t_family t)" using wf by (simp add: wf_route_def)
  have wfn: "wf_node ?w (t_root t)" using inv by (simp add: table_inv_def)
  have rp: "route_prefix r = (?k, ?n)" using k(2) by (simp add: prod_eq_iff)
  show ?thesis
  proof (cases "remove_node ?w ?k ?n (t_root t)")
    case None
    then have "value_at (t_root t) ?k ?n = []" using remove_node_None_iff [OF wfn k(3)] by simp
    then have "table_abs t (route_prefix r) = None" using False k(2) by (simp add: table_abs_def case_prod_unfold)
    moreover from this have "(table_abs t)(route_prefix r := None) = table_abs t" by (simp add: fun_upd_idem)
    moreover have "remove t r = Inr (t, False)" using None fam False k(1) by (simp add: remove_def)
    ultimately show ?thesis using inv by simp
  next
    case (Some p)
    then obtain root' go where rem: "remove_node ?w ?k ?n (t_root t) = Some (root', go)" by (cases p) auto
    note at = remove_node_value_at [OF rem wfn k(3)]
    have "value_at (t_root t) ?k ?n \<noteq> []" using remove_node_None_iff [OF wfn k(3)] Some by simp
    then have "table_abs t (route_prefix r) \<noteq> None" using False k(2) by (simp add: table_abs_def case_prod_unfold split: list.splits)
    moreover have "table_inv (t\<lparr>t_root := root'\<rparr>)"
      using inv remove_node_wf [OF rem wfn] remove_node_compressed [OF rem]
      by (auto simp: table_inv_def at)
    moreover have "table_abs (t\<lparr>t_root := root'\<rparr>) = (table_abs t)(route_prefix r := None)"
      using table_abs_upd [OF at False] unfolding rp [symmetric] by simp
    moreover have "remove t r = Inr (t\<lparr>t_root := root'\<rparr>, True)"
      using rem fam False k(1) by (auto simp: remove_def)
    ultimately show ?thesis by simp
  qed
qed

lemma fold_ignore: "fold (\<lambda>a ig. ig(a := True)) names ign = (\<lambda>s. ign s \<or> s \<in> set names)"
  by (induction names arbitrary: ign) (auto simp: fun_eq_iff)

lemma ignore_frame: "table_inv (t\<lparr>t_ignore := x\<rparr>) = table_inv t" "table_abs (t\<lparr>t_ignore := x\<rparr>) = table_abs t"
  by (auto simp: table_inv_def table_abs_def fun_eq_iff)

interpretation rt: data_refinement rt_step "rt_spec f" "rt_inv f" rt_abs "rt_ok f" for f
proof
  fix s op
  assume *: "rt_inv f s" "rt_ok f op"
  show "\<exists>s'. rt_step op s = Inr (s', snd (rt_spec f op (rt_abs s))) \<and> rt_inv f s' \<and> rt_abs s' = fst (rt_spec f op (rt_abs s))"
  proof (cases op)
    case (InsertRoute r)
    then show ?thesis
      using * insert_refines [of s r]
      by (auto simp: rt_step_def rt_spec_def rt_inv_def rt_ok_def rt_abs_def insert_def)
  next
    case (RemoveRoute r)
    then show ?thesis
      using * remove_refines [of s r]
      by (auto simp: rt_step_def rt_spec_def rt_inv_def rt_ok_def rt_abs_def remove_def)
  next
    case (ExcludeAdapters names)
    then show ?thesis
      using * by (simp add: rt_step_def rt_spec_def rt_inv_def rt_abs_def ExcludeAdapter_def fold_ignore
          ignore_frame)
  next
    case (LookupRoute dst)
    then show ?thesis
      using * by (auto simp: rt_step_def rt_spec_def rt_inv_def rt_abs_def lookup_longest rt_lookup_def split: option.splits)
  qed
qed


definition newTable :: "af \<Rightarrow> Table" where
  "newTable f = the (NewTable (Some f))"

lemma newTable_inv: "rt_inv f (newTable f)" "rt_abs (newTable f) = (\<lambda>_. None, \<lambda>_. False)"
  by (auto simp: newTable_def NewTable_def rt_inv_def table_inv_def rt_abs_def table_abs_def fun_eq_iff split: if_splits)

text \<open>A concrete table for the witnesses: 0.0.0.8/29 and, inside it, 0.0.0.12/30.\<close>

definition demo_route :: "byte list \<Rightarrow> byte list \<Rightarrow> string \<Rightarrow> Route" where
  "demo_route a m i = \<lparr>r_Destination = \<lparr>net_IP = a, net_Mask = m\<rparr>, r_Gateway = None,
     r_Interface = i, r_LinkAddr = []\<rparr>"

definition demo_r29 :: Route where
  "demo_r29 = demo_route [0, 0, 0, 8] [255, 255, 255, 248] ''eth0''"

definition demo_r30 :: Route where
  "demo_r30 = demo_route [0, 0, 0, 12] [255, 255, 255, 252] ''eth1''"

definition demo_ops :: "rt_op list" where
  "demo_ops = [InsertRoute demo_r29, InsertRoute demo_r30]"

lemma demo_ops_ok: "list_all (rt_ok AF_INET) demo_ops"
  by code_simp

lemma demo_run:
  "\<exists>t outs. run_ops rt_step demo_ops (newTable AF_INET) = Inr (t, outs) \<and>
     lookup t [0, 0, 0, 13] = Some demo_r30 \<and> lookup t [0, 0, 0, 1] = None \<and>
     table_abs t (8, 29) = Some demo_r29 \<and> \<not> t_ignore t ''eth0'' \<and> Walk t = [demo_r29, demo_r30]"
proof -
  have "case run_ops rt_step demo_ops (newTable AF_INET) of Inl _ \<Rightarrow> False | Inr (t, _) \<Rightarrow>
     lookup t [0, 0, 0, 13] = Some demo_r30 \<and> lookup t [0, 0, 0, 1] = None \<and>
     table_abs t (8, 29) = Some demo_r29 \<and> \<not> t_ignore t ''eth0'' \<and> Walk t = [demo_r29, demo_r30]"
    by code_simp
  then show ?thesis by (auto split: sum.splits)
qed

lemma rt_run_inv:
  assumes "list_all (rt_ok f) ops" "run_ops rt_step ops (newTable f) = Inr (t, outs)"
  shows "rt_inv f t"
  using rt.run_refines [OF newTable_inv(1) assms(1)] assms(2) by auto

lemma visible_Some_iff: "visible ign m x = Some r \<longleftrightarrow> x = Some r \<and> (m = 0 \<or> \<not> ign (r_Interface r))"
  by (auto simp: visible_def split: option.splits)

lemma rt_hit:
  assumes inv: "rt_inv f t" and r: "r \<in> ran (table_abs t)" and dst: "IPNet_Contains (r_Destination r) dst"
  shows "\<exists>d. destinationKey f dst = Some d \<and> routeToPrefixBits r \<le> bitWidth f \<and>
    table_abs t (maskPrefix (bitWidth f) d (routeToPrefixBits r), routeToPrefixBits r) = Some r"
proof -
  from r obtain p where p: "table_abs t p = Some r" by (auto simp: ran_def)
  with inv have wf: "wf_route f r" "route_prefix r = p" unfolding rt_inv_def by blast+
  from contains_iff [OF wf(1)] dst obtain d where
    d: "destinationKey f dst = Some d" "fst (route_prefix r) = maskPrefix (bitWidth f) d (routeToPrefixBits r)" by auto
  have "p = (maskPrefix (bitWidth f) d (routeToPrefixBits r), routeToPrefixBits r)"
    using d wf wf_route_prefix(2) [OF wf(1)] by (simp add: prod_eq_iff)
  then show ?thesis using p d(1) wf_route_prefix(3) [OF wf(1)] by (simp add: key_ok_def)
qed

lemma set_walk: "wf_node w t \<Longrightarrow> set (walk t) = {r. \<exists>k m. r \<in> set (value_at t k m)}"
proof (induction t)
  case (Node l r p v n)
  have disj: "value_at l k m = [] \<or> value_at r k m = []" and pl: "value_at l p n = []" and pr: "value_at r p n = []" for k m
    using value_at_not_under [of w "Suc n" "2 * pre w n p" l] value_at_not_under [of w "Suc n" "2 * pre w n p + 1" r] Node.prems
    by auto (metis n_not_Suc_n)+
  have "x \<in> set (value_at (Node l r p v n) k m) \<Longrightarrow> x \<in> set v \<or> x \<in> set (value_at l k m) \<or> x \<in> set (value_at r k m)" for x k m
    by (auto split: if_splits)
  moreover have "x \<in> set (value_at (Node l r p v n) p n)" if "x \<in> set v" for x using that by simp
  moreover have "x \<in> set (value_at (Node l r p v n) k m)" if "x \<in> set (value_at l k m) \<or> x \<in> set (value_at r k m)" for x k m
    using that disj [of k m] pl pr by (cases "value_at l k m = []") auto
  ultimately show ?case using Node by (auto simp del: value_at.simps) blast+
qed simp

lemma Walk_routes:
  assumes inv: "rt_inv f t"
  shows "set (Walk t) = ran (table_abs t)"
proof -
  have wf: "wf_node (bitWidth f) (t_root t)" and no0: "\<And>k. value_at (t_root t) k 0 = []"
    and const: "\<And>k m. \<exists>r. set (value_at (t_root t) k m) \<subseteq> {r}"
    using inv unfolding rt_inv_def table_inv_def by auto
  have "r \<in> set (walk (t_root t)) \<longleftrightarrow> (\<exists>k m. m \<noteq> 0 \<and> table_abs t (k, m) = Some r)" for r
  proof
    assume "r \<in> set (walk (t_root t))"
    then obtain k m where r: "r \<in> set (value_at (t_root t) k m)" using set_walk [OF wf] by auto
    moreover obtain x where "set (value_at (t_root t) k m) \<subseteq> {x}" using const by blast
    moreover have "m \<noteq> 0" using r no0 [of k] by (cases m) auto
    ultimately have "m \<noteq> 0" "table_abs t (k, m) = Some r"
      by (auto simp: table_abs_def split: list.splits)
    then show "\<exists>k m. m \<noteq> 0 \<and> table_abs t (k, m) = Some r" by blast
  next
    assume "\<exists>k m. m \<noteq> 0 \<and> table_abs t (k, m) = Some r"
    then obtain k m where "m \<noteq> 0" "table_abs t (k, m) = Some r" by blast
    then have "r \<in> set (value_at (t_root t) k m)"
      by (cases "value_at (t_root t) k m") (auto simp: table_abs_def)
    then show "r \<in> set (walk (t_root t))" using set_walk [OF wf] by auto
  qed
  moreover have "t_defaultRoute t = Some r \<longleftrightarrow> (\<exists>k. table_abs t (k, 0) = Some r)" for r
    by (simp add: table_abs_def)
  ultimately show ?thesis
    unfolding Walk_def ran_def by (auto split: option.splits) (metis neq0_conv)+
qed

section \<open>Correctness of the table\<close>

text \<open>
  C12. Whatever sequence of insertions, removals, exclusions and lookups a table goes through,
  no operation panics and every answer is the one of a plain finite map from prefixes to the
  route inserted last, probed from the longest prefix to the shortest; the trie stays a
  well-formed, path-compressed trie.
\<close>

theorem route_table_history:
  assumes "list_all (rt_ok f) ops"
  shows "\<exists>t. run_ops rt_step ops (newTable f) = Inr (t, snd (spec_run (rt_spec f) ops (\<lambda>_. None, \<lambda>_. False))) \<and>
    table_inv t"
  using rt.run_refines [OF newTable_inv(1) assms] unfolding newTable_inv(2) by (auto simp: rt_inv_def)

theorem route_table_history_witness:
  "\<exists>t. run_ops rt_step demo_ops (newTable AF_INET) =
     Inr (t, snd (spec_run (rt_spec AF_INET) demo_ops (\<lambda>_. None, \<lambda>_. False))) \<and> table_inv t"
  by (rule route_table_history [OF demo_ops_ok])

text \<open>
  C13. A lookup in any table built from an empty one answers a route of the table whose network
  contains the destination, and no other visible route that contains it is more specific.
\<close>

theorem lookup_most_specific:
  assumes ops: "list_all (rt_ok f) ops" "run_ops rt_step ops (newTable f) = Inr (t, outs)"
    and hit: "lookup t dst = Some r"
  shows "r \<in> ran (table_abs t) \<and> IPNet_Contains (r_Destination r) dst \<and>
    (\<forall>r' \<in> ran (table_abs t). IPNet_Contains (r_Destination r') dst \<and> \<not> t_ignore t (r_Interface r') \<longrightarrow>
       routeToPrefixBits r' \<le> routeToPrefixBits r)"
proof -
  note inv = rt_run_inv [OF ops]
  let ?w = "bitWidth f"
  from inv hit obtain d m where d: "destinationKey f dst = Some d"
    and m: "m \<le> ?w" "visible (t_ignore t) m (table_abs t (maskPrefix ?w d m, m)) = Some r"
    and above: "\<And>j. m < j \<Longrightarrow> j \<le> ?w \<Longrightarrow> visible (t_ignore t) j (table_abs t (maskPrefix ?w d j, j)) = None"
    by (auto simp: rt_inv_def lookup_longest longest_Some_iff split: option.splits)
  have at: "table_abs t (maskPrefix ?w d m, m) = Some r" using m by (simp add: visible_Some_iff)
  with inv have wf: "wf_route f r" and rp: "route_prefix r = (maskPrefix ?w d m, m)" by (auto simp: rt_inv_def)
  then have bits: "routeToPrefixBits r = m" using wf_route_prefix(2) [OF wf] by simp
  have "routeToPrefixBits r' \<le> m" if r': "r' \<in> ran (table_abs t)" "IPNet_Contains (r_Destination r') dst"
    "\<not> t_ignore t (r_Interface r')" for r'
  proof (rule ccontr)
    assume "\<not> routeToPrefixBits r' \<le> m"
    moreover obtain d' where "destinationKey f dst = Some d'" "routeToPrefixBits r' \<le> ?w"
      "table_abs t (maskPrefix ?w d' (routeToPrefixBits r'), routeToPrefixBits r') = Some r'"
      using rt_hit [OF inv r'(1,2)] by auto
    ultimately show False using above [of "routeToPrefixBits r'"] d r'(3) by (simp add: visible_def)
  qed
  moreover have "IPNet_Contains (r_Destination r) dst" using contains_iff [OF wf] d rp bits by simp
  ultimately show ?thesis using at bits by (auto simp: ran_def)
qed

theorem lookup_most_specific_witness:
  "\<exists>t outs. run_ops rt_step demo_ops (newTable AF_INET) = Inr (t, outs) \<and>
     lookup t [0, 0, 0, 13] = Some demo_r30 \<and> demo_r30 \<in> ran (table_abs t) \<and>
     IPNet_Contains (r_Destination demo_r30) [0, 0, 0, 13]"
  using demo_run lookup_most_specific [OF demo_ops_ok] by blast

text \<open>
  C28. A lookup misses only when it should: no visible route of the table contains the
  destination.
\<close>

theorem lookup_complete:
  assumes ops: "list_all (rt_ok f) ops" "run_ops rt_step ops (newTable f) = Inr (t, outs)"
    and miss: "lookup t dst = None" and r: "r \<in> ran (table_abs t)" "\<not> t_ignore t (r_Interface r)"
  shows "\<not> IPNet_Contains (r_Destination r) dst"
proof
  assume "IPNet_Contains (r_Destination r) dst"
  note inv = rt_run_inv [OF ops]
  obtain d where d: "destinationKey f dst = Some d" "routeToPrefixBits r \<le> bitWidth f"
    "table_abs t (maskPrefix (bitWidth f) d (routeToPrefixBits r), routeToPrefixBits r) = Some r"
    using rt_hit [OF inv r(1) \<open>IPNet_Contains (r_Destination r) dst\<close>] by auto
  have "visible (t_ignore t) m (table_abs t (maskPrefix (bitWidth f) d m, m)) = None" if "m \<le> bitWidth f" for m
    using inv miss d(1) that by (auto simp: rt_inv_def lookup_longest longest_None_iff)
  from this [OF d(2)] show False using d(3) r(2) by (simp add: visible_def)
qed

theorem lookup_complete_witness:
  "\<not> IPNet_Contains (r_Destination demo_r29) [0, 0, 0, 1]"
proof -
  obtain t outs where t: "run_ops rt_step demo_ops (newTable AF_INET) = Inr (t, outs)"
    "lookup t [0, 0, 0, 1] = None" "table_abs t (8, 29) = Some demo_r29" "\<not> t_ignore t ''eth0''"
    using demo_run by blast
  have "r_Interface demo_r29 = ''eth0''" by code_simp
  then show ?thesis
    using lookup_complete [OF demo_ops_ok t(1,2), of demo_r29] t(3,4) by (auto simp: ran_def)
qed

text \<open>
  A walk over the table visits exactly the routes the table holds, the default route
  included.
\<close>

theorem Walk_visits_table:
  assumes "list_all (rt_ok f) ops" "run_ops rt_step ops (newTable f) = Inr (t, outs)"
  shows "set (Walk t) = ran (table_abs t)"
  using Walk_routes [OF rt_run_inv [OF assms]] .

theorem Walk_visits_table_witness:
  "\<exists>t outs. run_ops rt_step demo_ops (newTable AF_INET) = Inr (t, outs) \<and>
     set (Walk t) = ran (table_abs t) \<and> Walk t = [demo_r29, demo_r30]"
  using demo_run Walk_visits_table [OF demo_ops_ok] by blast

end
