(* ===== verification/Icmp_Buffer.thy ===== *)
theory Icmp_Buffer
  imports Prelude
begin

text \<open>
  The circular byte buffer between the application and the ICMP connection
  (\<^verbatim>\<open>pkg/transport/icmp/buffer.go\<close>). Positions are 64-bit counters that wrap around; an index
  into the data is a position modulo the size. A call that would sleep on a condition variable
  answers \<open>Wait\<close> and leaves the buffer as it is; the signals themselves carry no state. Times
  are integers, the zero time is \<open>None\<close>.

  The theory shows that the buffer is a bounded queue of bytes, through every sequence of
  operations and through the wrap-around of its counters.
\<close>

section \<open>The buffer\<close>

record buffer =
  b_data :: bytes
  b_size :: nat
  b_readPos :: u64
  b_writePos :: u64
  b_readDeadline :: "int option"
  b_closed :: bool

datatype 'a attempt = Wait | Ret 'a

definition newBuffer :: "int \<Rightarrow> buffer" where
  "newBuffer sz =
     (let n = (if sz \<le> 0 then 64 * 1024 else nat sz)
      in \<lparr>b_data = replicate n 0, b_size = n, b_readPos = 0, b_writePos = 0,
          b_readDeadline = None, b_closed = False\<rparr>)"

definition calculateUsed :: "buffer \<Rightarrow> nat" where
  "calculateUsed b =
     (if b_writePos b = b_readPos b then 0
      else if b_writePos b > b_readPos b
      then (let diff = b_writePos b - b_readPos b
            in if diff \<le> of_nat (b_size b) then unat diff else b_size b)
      else (let readIdx = unat (b_readPos b) mod b_size b;
                writeIdx = unat (b_writePos b) mod b_size b;
                used = writeIdx + (b_size b - readIdx)
            in if used > b_size b then b_size b else used))"

definition calculateAvailable :: "buffer \<Rightarrow> nat" where
  "calculateAvailable b = b_size b - calculateUsed b"

text \<open>The copy of a write, split in two where it passes the end of the data.\<close>

definition ring_put :: "bytes \<Rightarrow> nat \<Rightarrow> bytes \<Rightarrow> bytes" where
  "ring_put buf idx d =
     (let remaining = length buf - idx
      in if remaining \<ge> length d then splice buf idx d
         else splice (splice buf idx (take remaining d)) 0 (drop remaining d))"

definition Write :: "buffer \<Rightarrow> bytes \<Rightarrow> buffer \<times> nat result attempt" where
  "Write b d =
     (if d = [] then (b, Ret (Inr 0))
      else if b_closed b then (b, Ret (Inl (Err ''buffer closed'')))
      else let used = calculateUsed b; available = b_size b - used
           in if used \<ge> b_size b \<or> available < length d then (b, Wait)
              else let writeLen = (if length d > available then available else length d);
                       idx = unat (b_writePos b) mod b_size b
                   in (b\<lparr>b_data := ring_put (b_data b) idx (take writeLen d),
                         b_writePos := b_writePos b + of_nat writeLen\<rparr>,
                       Ret (Inr writeLen)))"

definition isDeadlineExceeded :: "int \<Rightarrow> int option \<Rightarrow> bool" where
  "isDeadlineExceeded now deadline = (case deadline of None \<Rightarrow> False | Some d \<Rightarrow> now > d)"

definition ring_get :: "bytes \<Rightarrow> nat \<Rightarrow> nat \<Rightarrow> bytes" where
  "ring_get buf idx available =
     (let remaining = length buf - idx
      in if remaining \<ge> available then take available (drop idx buf)
         else drop idx buf @ take (available - remaining) buf)"

text \<open>The loop that waits for data, and the read itself, for a slice of length \<open>n\<close>.\<close>

definition read_loop :: "buffer \<Rightarrow> nat \<Rightarrow> int \<Rightarrow> buffer \<times> bytes result attempt" where
  "read_loop b n now =
     (if b_writePos b = b_readPos b
      then (if isDeadlineExceeded now (b_readDeadline b) then (b, Ret (Inl (Err ''read deadline exceeded'')))
            else (b, Wait))
      else let used = calculateUsed b; available = (if used > n then n else used);
               idx = unat (b_readPos b) mod b_size b
           in (b\<lparr>b_readPos := b_readPos b + of_nat available\<rparr>,
               Ret (Inr (ring_get (b_data b) idx available))))"

definition Read :: "buffer \<Rightarrow> nat \<Rightarrow> int \<Rightarrow> buffer \<times> bytes result attempt" where
  "Read b n now =
     (if n = 0 then (b, Ret (Inr []))
      else if b_closed b then (b, Ret (Inl (Err ''buffer closed'')))
      else if isDeadlineExceeded now (b_readDeadline b) then (b, Ret (Inl (Err ''read deadline exceeded'')))
      else read_loop b n now)"

text \<open>A read that slept and was woken.\<close>

definition Read_resume :: "buffer \<Rightarrow> nat \<Rightarrow> int \<Rightarrow> buffer \<times> bytes result attempt" where
  "Read_resume b n now =
     (if b_closed b then (b, Ret (Inl (Err ''buffer closed''))) else read_loop b n now)"

definition Close :: "buffer \<Rightarrow> buffer" where
  "Close b = b\<lparr>b_closed := True, b_readPos := 0, b_writePos := 0\<rparr>"

definition Len :: "buffer \<Rightarrow> nat" where
  "Len b = calculateUsed b"

definition SetReadDeadline :: "buffer \<Rightarrow> int option \<Rightarrow> buffer" where
  "SetReadDeadline b t = b\<lparr>b_readDeadline := t\<rparr>"

definition SetWriteDeadline :: "buffer \<Rightarrow> int option \<Rightarrow> buffer" where
  "SetWriteDeadline b t = b"

section \<open>Ring arithmetic\<close>

lemma ring_put_length [simp]: "idx < length buf \<Longrightarrow> length (ring_put buf idx d) = length buf"
  by (simp add: ring_put_def Let_def)

lemma ring_put_nth:
  assumes "idx < length buf" "length d \<le> length buf" "k < length buf"
  shows "ring_put buf idx d ! ((idx + k) mod length buf) =
    (if k < length d then d ! k else buf ! ((idx + k) mod length buf))"
proof -
  define n rem j where "n = length buf" and "rem = n - idx" and "j = (idx + k) mod n"
  have j: "j = (if idx + k < n then idx + k else idx + k - n)" "j < n"
    using assms by (auto simp: j_def n_def mod_if)
  show ?thesis unfolding j_def [symmetric] n_def [symmetric]
  proof (cases "length d \<le> rem")
    case True
    then have "ring_put buf idx d ! j = (if idx \<le> j \<and> j < idx + length d then d ! (j - idx) else buf ! j)"
      using assms j(2) by (simp add: ring_put_def nth_splice n_def rem_def)
    then show "ring_put buf idx d ! j = (if k < length d then d ! k else buf ! j)"
      using True assms j(1) unfolding rem_def n_def by (cases "idx + k < length buf") auto
  next
    case False
    then have "ring_put buf idx d ! j =
      (if j < length d - rem then drop rem d ! j
       else if idx \<le> j \<and> j < idx + rem then take rem d ! (j - idx) else buf ! j)"
      using assms j(2) by (simp add: ring_put_def nth_splice n_def rem_def Let_def min_def)
    then show "ring_put buf idx d ! j = (if k < length d then d ! k else buf ! j)"
      using False assms j(1) unfolding rem_def n_def by (cases "idx + k < length buf") auto
  qed
qed

lemma ring_get_eq:
  assumes "idx < length buf" "n \<le> length buf"
  shows "ring_get buf idx n = map (\<lambda>i. buf ! ((idx + i) mod length buf)) [0..<n]"
proof (rule nth_equalityI)
  show "length (ring_get buf idx n) = length (map (\<lambda>i. buf ! ((idx + i) mod length buf)) [0..<n])"
    using assms by (simp add: ring_get_def Let_def)
  show "ring_get buf idx n ! i = map (\<lambda>i. buf ! ((idx + i) mod length buf)) [0..<n] ! i"
    if "i < length (ring_get buf idx n)" for i
  proof -
    have i: "i < n" using that assms by (simp add: ring_get_def Let_def split: if_splits)
    then have "(idx + i) mod length buf = (if idx + i < length buf then idx + i else idx + i - length buf)"
      using assms by (simp add: mod_if)
    then show ?thesis
      using i assms by (cases "idx + i < length buf") (auto simp: ring_get_def Let_def nth_append add.commute)
  qed
qed

lemma unat_u64_less: "unat (x :: u64) < 2 ^ 64"
proof -
  have "unat x < 2 ^ LENGTH(64)" by (rule unsigned_less)
  then show ?thesis by simp
qed

text \<open>The counters wrap at \<open>2 ^ 64\<close>, a multiple of the size: indices do not notice.\<close>

lemma pos_mod:
  assumes "s dvd 2 ^ 64"
  shows "unat (r + of_nat k :: u64) mod s = (unat r + k) mod s"
proof -
  have "unat (r + of_nat k) = (unat r + k) mod 2 ^ 64"
    by (simp add: unat_word_ariths unat_of_nat take_bit_eq_mod mod_simps)
  then show ?thesis using assms by (simp add: mod_mod_cancel)
qed

definition buffer_inv :: "buffer \<Rightarrow> bool" where
  "buffer_inv b =
     (0 < b_size b \<and> b_size b dvd 2 ^ 64 \<and> b_size b < 2 ^ 63 \<and> length (b_data b) = b_size b \<and>
      unat (b_writePos b - b_readPos b) \<le> b_size b)"

definition contents :: "buffer \<Rightarrow> bytes" where
  "contents b = map (\<lambda>i. b_data b ! ((unat (b_readPos b) + i) mod b_size b))
     [0..<unat (b_writePos b - b_readPos b)]"

lemma unat_minus_u64:
  "unat (w - r :: u64) = (if unat r \<le> unat w then unat w - unat r else 2 ^ 64 - unat r + unat w)"
proof (cases "unat r \<le> unat w")
  case True
  then have "w - r = of_nat (unat w - unat r)" by (simp add: of_nat_diff)
  moreover have "unat w - unat r < 2 ^ 64" using unat_u64_less [of w] by simp
  ultimately show ?thesis using True by (simp add: unat_of_nat take_bit_nat_eq_self del: of_nat_diff)
next
  case False
  have "w - r = of_nat (2 ^ 64 - unat r + unat w)"
    using unat_u64_less [of r] by (simp add: of_nat_diff)
  moreover have "2 ^ 64 - unat r + unat w < 2 ^ 64" using False unat_u64_less [of r] by simp
  ultimately show ?thesis using False by (simp add: unat_of_nat take_bit_nat_eq_self del: of_nat_diff of_nat_add)
qed

lemma mod_below_multiple:
  fixes s :: nat
  assumes "s dvd N" "0 < e" "e \<le> s" "e \<le> N"
  shows "(N - e) mod s = (if e = s then 0 else s - e)"
proof -
  from assms(1) obtain q where N: "N = s * q" by blast
  then obtain q' where q: "q = Suc q'" using assms(2,4) by (cases q) auto
  define f where "f = s - e"
  have "N - e = s * q' + f" using N q assms(3) by (simp add: algebra_simps f_def)
  then have "(N - e) mod s = f mod s" by simp
  then show ?thesis using assms(2,3) by (cases "e = s") (simp_all add: f_def)
qed

lemma calculateUsed_eq:
  assumes inv: "buffer_inv b"
  shows "calculateUsed b = unat (b_writePos b - b_readPos b)"
proof -
  define r w s u where "r = unat (b_readPos b)" and "w = unat (b_writePos b)" and "s = b_size b"
    and "u = unat (b_writePos b - b_readPos b)"
  have s: "0 < s" "s dvd 2 ^ 64" "u \<le> s" "s < 2 ^ 63" using inv by (simp_all add: buffer_inv_def s_def u_def)
  have rw: "r < 2 ^ 64" "w < 2 ^ 64" by (simp_all only: r_def w_def unat_u64_less)
  have u: "u = (if r \<le> w then w - r else 2 ^ 64 - r + w)"
    unfolding u_def r_def w_def by (rule unat_minus_u64)
  consider "w = r" | "r < w" | "w < r" by linarith
  then show ?thesis
  proof cases
    case 1
    then have "b_writePos b = b_readPos b" by (simp add: r_def w_def word_unat_eq_iff)
    then show ?thesis by (simp add: calculateUsed_def)
  next
    case 2
    have lt: "b_readPos b < b_writePos b" using 2 by (simp add: r_def w_def word_less_nat_alt)
    then have ne: "b_writePos b \<noteq> b_readPos b" by (metis less_irrefl)
    have le: "b_writePos b - b_readPos b \<le> of_nat (b_size b)"
      using s(3,4) unfolding word_le_nat_alt u_def [symmetric] s_def [symmetric]
      by (simp add: unat_of_nat take_bit_nat_eq_self)
    show ?thesis unfolding calculateUsed_def if_not_P [OF ne] if_P [OF lt] Let_def if_P [OF le] ..
  next
    case 3
    define e where "e = 2 ^ 64 - r"
    have e: "0 < e" "e \<le> s" "u = e + w" "r = 2 ^ 64 - e" "e \<le> 2 ^ 64" using 3 u rw s by (simp_all add: e_def)
    have "r mod s = (if e = s then 0 else s - e)"
      unfolding e(4) using s(2) e(1,2,5) by (rule mod_below_multiple)
    moreover have "w mod s = w" using e s by simp
    ultimately have used: "w mod s + (s - r mod s) = u" using e s by auto
    have ne: "b_writePos b \<noteq> b_readPos b" "\<not> b_readPos b < b_writePos b"
      using 3 by (auto simp: r_def w_def word_less_nat_alt)
    have "calculateUsed b = (if s < w mod s + (s - r mod s) then s else w mod s + (s - r mod s))"
      unfolding calculateUsed_def if_not_P [OF ne(1)] if_not_P [OF ne(2)] Let_def r_def w_def s_def ..
    then show ?thesis unfolding used u_def [symmetric] using s(3) by simp
  qed
qed

lemma length_contents: "length (contents b) = unat (b_writePos b - b_readPos b)"
  by (simp add: contents_def)

lemma contents_empty_iff: "contents b = [] \<longleftrightarrow> b_writePos b = b_readPos b"
proof -
  have "contents b = [] \<longleftrightarrow> unat (b_writePos b - b_readPos b) = 0" by (simp add: contents_def)
  then show ?thesis by (simp add: unat_eq_0)
qed

lemma contents_nth:
  "i < length (contents b) \<Longrightarrow> contents b ! i = b_data b ! ((unat (b_readPos b) + i) mod b_size b)"
  by (simp add: contents_def)

lemma contents_le: "buffer_inv b \<Longrightarrow> length (contents b) \<le> b_size b"
  by (simp add: length_contents buffer_inv_def)

lemma unat_plus_small: "unat (x :: u64) + n < 2 ^ 64 \<Longrightarrow> unat (x + of_nat n) = unat x + n"
  by (simp add: unat_word_ariths unat_of_nat take_bit_eq_mod mod_simps)

lemma unat_minus_small: "n \<le> unat (x :: u64) \<Longrightarrow> unat (x - of_nat n) = unat x - n"
proof -
  assume "n \<le> unat x"
  moreover have "unat (of_nat n :: u64) = n"
    using calculation unat_u64_less [of x] by (simp add: unat_of_nat take_bit_nat_eq_self)
  ultimately show ?thesis by (simp add: unat_minus_u64)
qed

text \<open>A write that fits appends its bytes.\<close>

lemma put_contents:
  assumes inv: "buffer_inv b" and fit: "length (contents b) + length d \<le> b_size b"
  defines "b' \<equiv> b\<lparr>b_data := ring_put (b_data b) (unat (b_writePos b) mod b_size b) d,
                  b_writePos := b_writePos b + of_nat (length d)\<rparr>"
  shows "buffer_inv b'" "contents b' = contents b @ d"
proof -
  define s u r idx where "s = b_size b" and "u = length (contents b)" and "r = unat (b_readPos b)"
    and "idx = unat (b_writePos b) mod s"
  note s = inv [unfolded buffer_inv_def, folded s_def]
  have "b_writePos b = b_readPos b + of_nat u" by (simp add: u_def length_contents)
  then have idx: "idx = (r + u) mod s"
    unfolding idx_def r_def using pos_mod [of s "b_readPos b" u] s by simp
  have idx_less: "idx < length (b_data b)" using s by (simp add: idx_def)
  have diff: "b_writePos b' - b_readPos b' = (b_writePos b - b_readPos b) + of_nat (length d)"
    by (simp add: b'_def)
  have "u + length d < 2 ^ 64" using fit s by (simp add: u_def s_def)
  then have len: "unat (b_writePos b' - b_readPos b') = u + length d"
    unfolding diff u_def length_contents by (rule unat_plus_small)
  then show "buffer_inv b'" using s fit idx_less by (simp add: buffer_inv_def b'_def u_def s_def idx_def)
  have put: "ring_put (b_data b) idx d ! ((idx + k) mod s) = (if k < length d then d ! k else b_data b ! ((idx + k) mod s))"
    if "k < s" for k
    using ring_put_nth [OF idx_less, of d k] that s fit by (simp add: u_def s_def)
  have "u \<le> s" using fit by (simp add: u_def s_def)
  have old: "ring_put (b_data b) idx d ! ((r + i) mod s) = b_data b ! ((r + i) mod s)" if "i < u" for i
  proof -
    have k: "s - u + i < s" "\<not> s - u + i < length d" using that fit by (auto simp: u_def s_def)
    have "(idx + (s - u + i)) mod s = (r + u + (s - u + i)) mod s" unfolding idx by (simp add: mod_simps)
    also have "r + u + (s - u + i) = r + i + s" using k(1) that \<open>u \<le> s\<close> by simp
    finally have "(idx + (s - u + i)) mod s = (r + i) mod s" by simp
    then show ?thesis using put [OF k(1)] k(2) by simp
  qed
  have new: "ring_put (b_data b) idx d ! ((r + (u + k)) mod s) = d ! k" if "k < length d" for k
  proof -
    have "(idx + k) mod s = (r + (u + k)) mod s" unfolding idx by (simp add: mod_simps add.assoc)
    moreover have "k < s" using that fit by (simp add: s_def)
    ultimately show ?thesis using put [of k] that by simp
  qed
  have "contents b' = map (\<lambda>i. ring_put (b_data b) idx d ! ((r + i) mod s)) [0..<u + length d]"
    unfolding contents_def len by (simp add: b'_def idx_def s_def r_def)
  also have "\<dots> = map (\<lambda>i. b_data b ! ((r + i) mod s)) [0..<u] @ d"
  proof (rule nth_equalityI)
    fix i
    assume "i < length (map (\<lambda>i. ring_put (b_data b) idx d ! ((r + i) mod s)) [0..<u + length d])"
    then have "i < u + length d" by simp
    then show "map (\<lambda>i. ring_put (b_data b) idx d ! ((r + i) mod s)) [0..<u + length d] ! i =
      (map (\<lambda>i. b_data b ! ((r + i) mod s)) [0..<u] @ d) ! i"
      using old [of i] new [of "i - u"] by (cases "i < u") (auto simp: nth_append)
  qed simp
  also have "map (\<lambda>i. b_data b ! ((r + i) mod s)) [0..<u] = contents b"
    by (simp add: contents_def u_def r_def s_def)
  finally show "contents b' = contents b @ d" .
qed

text \<open>A read takes bytes from the front.\<close>

lemma get_contents:
  assumes inv: "buffer_inv b" and n: "n \<le> length (contents b)"
  defines "b' \<equiv> b\<lparr>b_readPos := b_readPos b + of_nat n\<rparr>"
  shows "buffer_inv b'" "contents b' = drop n (contents b)"
    and "ring_get (b_data b) (unat (b_readPos b) mod b_size b) n = take n (contents b)"
proof -
  define s u r where "s = b_size b" and "u = length (contents b)" and "r = unat (b_readPos b)"
  note s = inv [unfolded buffer_inv_def, folded s_def]
  have diff: "b_writePos b' - b_readPos b' = (b_writePos b - b_readPos b) - of_nat n"
    by (simp add: b'_def)
  have len: "unat (b_writePos b' - b_readPos b') = u - n"
    using n unfolding diff u_def length_contents by (rule unat_minus_small)
  then show "buffer_inv b'" using s n by (auto simp: buffer_inv_def b'_def u_def s_def length_contents)
  have idx: "(unat (b_readPos b') + i) mod s = (r + (n + i)) mod s" for i
  proof -
    have "(unat (b_readPos b') + i) mod s = (unat (b_readPos b') mod s + i) mod s" by (simp add: mod_simps)
    also have "unat (b_readPos b') mod s = (r + n) mod s"
      unfolding b'_def r_def using s by (simp add: pos_mod)
    finally show ?thesis by (simp add: mod_simps add.assoc)
  qed
  show "contents b' = drop n (contents b)"
  proof (rule nth_equalityI)
    show "length (contents b') = length (drop n (contents b))"
      using len by (simp add: length_contents [of b'] u_def)
    show "contents b' ! i = drop n (contents b) ! i" if "i < length (contents b')" for i
    proof -
      have i: "i < u - n" using that len by (simp add: length_contents)
      have "contents b' ! i = b_data b ! ((unat (b_readPos b') + i) mod s)"
        using that len by (simp add: contents_def b'_def s_def)
      also have "\<dots> = contents b ! (n + i)"
        unfolding idx using i by (simp add: contents_nth r_def s_def u_def length_contents)
      finally show ?thesis using n by simp
    qed
  qed
  have "u \<le> s" using s by (simp add: u_def length_contents)
  then have "ring_get (b_data b) (r mod s) n = map (\<lambda>i. b_data b ! ((r mod s + i) mod s)) [0..<n]"
    using s n ring_get_eq [of "r mod s" "b_data b" n] by (simp add: s_def u_def)
  also have "\<dots> = take n (contents b)"
    using n by (intro nth_equalityI) (auto simp: contents_nth r_def s_def mod_simps)
  finally show "ring_get (b_data b) (unat (b_readPos b) mod b_size b) n = take n (contents b)"
    by (simp add: r_def s_def)
qed

section \<open>A bounded queue of bytes\<close>

datatype buf_op =
    BWrite bytes | BRead nat int | BResume nat int | BLen | BDeadline "int option" | BClose

datatype buf_out =
    Wrote "nat result attempt" | Got "bytes result attempt" | Length nat | Unit

definition buf_step :: "buf_op \<Rightarrow> buffer \<Rightarrow> (buffer \<times> buf_out) result" where
  "buf_step op b =
     (case op of
        BWrite d \<Rightarrow> (let (b', r) = Write b d in Inr (b', Wrote r))
      | BRead n now \<Rightarrow> (let (b', r) = Read b n now in Inr (b', Got r))
      | BResume n now \<Rightarrow> (let (b', r) = Read_resume b n now in Inr (b', Got r))
      | BLen \<Rightarrow> Inr (b, Length (Len b))
      | BDeadline t \<Rightarrow> Inr (SetReadDeadline b t, Unit)
      | BClose \<Rightarrow> Inr (Close b, Unit))"

text \<open>The specification: a list of at most \<open>q_cap\<close> bytes.\<close>

record byte_queue =
  q_bytes :: bytes
  q_cap :: nat
  q_deadline :: "int option"
  q_closed :: bool

definition q_read :: "byte_queue \<Rightarrow> nat \<Rightarrow> int \<Rightarrow> byte_queue \<times> bytes result attempt" where
  "q_read q n now =
     (if q_bytes q = []
      then (q, if isDeadlineExceeded now (q_deadline q) then Ret (Inl (Err ''read deadline exceeded'')) else Wait)
      else (q\<lparr>q_bytes := drop n (q_bytes q)\<rparr>, Ret (Inr (take n (q_bytes q)))))"

definition buf_spec :: "buf_op \<Rightarrow> byte_queue \<Rightarrow> byte_queue \<times> buf_out" where
  "buf_spec op q =
     (case op of
        BWrite d \<Rightarrow>
          (if d = [] then (q, Wrote (Ret (Inr 0)))
           else if q_closed q then (q, Wrote (Ret (Inl (Err ''buffer closed''))))
           else if length (q_bytes q) + length d > q_cap q then (q, Wrote Wait)
           else (q\<lparr>q_bytes := q_bytes q @ d\<rparr>, Wrote (Ret (Inr (length d)))))
      | BRead n now \<Rightarrow>
          (if n = 0 then (q, Got (Ret (Inr [])))
           else if q_closed q then (q, Got (Ret (Inl (Err ''buffer closed''))))
           else if isDeadlineExceeded now (q_deadline q) then (q, Got (Ret (Inl (Err ''read deadline exceeded''))))
           else apsnd Got (q_read q n now))
      | BResume n now \<Rightarrow>
          (if q_closed q then (q, Got (Ret (Inl (Err ''buffer closed'')))) else apsnd Got (q_read q n now))
      | BLen \<Rightarrow> (q, Length (length (q_bytes q)))
      | BDeadline t \<Rightarrow> (q\<lparr>q_deadline := t\<rparr>, Unit)
      | BClose \<Rightarrow> (q\<lparr>q_bytes := [], q_closed := True\<rparr>, Unit))"

definition buf_abs :: "buffer \<Rightarrow> byte_queue" where
  "buf_abs b = \<lparr>q_bytes = contents b, q_cap = b_size b, q_deadline = b_readDeadline b, q_closed = b_closed b\<rparr>"

lemma Write_refines:
  assumes inv: "buffer_inv b"
  shows "buffer_inv (fst (Write b d))"
    "(buf_abs (fst (Write b d)), Wrote (snd (Write b d))) = buf_spec (BWrite d) (buf_abs b)"
proof -
  note used = calculateUsed_eq [OF inv, folded length_contents]
  show "buffer_inv (fst (Write b d))"
    using put_contents(1) [OF inv, of d] inv by (auto simp: Write_def Let_def used not_less)
  show "(buf_abs (fst (Write b d)), Wrote (snd (Write b d))) = buf_spec (BWrite d) (buf_abs b)"
  proof (cases "d = [] \<or> b_closed b \<or> length (contents b) + length d > b_size b")
    case True
    then show ?thesis using contents_le [OF inv] by (auto simp: Write_def Let_def used buf_spec_def buf_abs_def)
  next
    case False
    then have fit: "length (contents b) + length d \<le> b_size b" and "d \<noteq> []" by auto
    then have "\<not> (b_size b \<le> length (contents b) \<or> b_size b - length (contents b) < length d)"
      by (cases d) auto
    then show ?thesis
      using False put_contents(2) [OF inv fit] by (simp add: Write_def Let_def used buf_spec_def buf_abs_def)
  qed
qed

lemma read_loop_refines:
  assumes inv: "buffer_inv b"
  shows "buffer_inv (fst (read_loop b n now))"
    "(buf_abs (fst (read_loop b n now)), snd (read_loop b n now)) = q_read (buf_abs b) n now"
proof -
  note used = calculateUsed_eq [OF inv, folded length_contents]
  let ?n = "if length (contents b) > n then n else length (contents b)"
  have le: "?n \<le> length (contents b)" by simp
  note get = get_contents [OF inv le]
  have "take ?n (contents b) = take n (contents b)" "drop ?n (contents b) = drop n (contents b)" by auto
  note get' = get [unfolded this]
  show "buffer_inv (fst (read_loop b n now))"
    using inv get'(1) by (simp add: read_loop_def Let_def used)
  show "(buf_abs (fst (read_loop b n now)), snd (read_loop b n now)) = q_read (buf_abs b) n now"
    using get'(2,3) by (simp add: read_loop_def Let_def used q_read_def buf_abs_def contents_empty_iff)
qed

interpretation ring: data_refinement buf_step buf_spec buffer_inv buf_abs "\<lambda>_. True"
proof
  fix b op
  assume inv: "buffer_inv b"
  show "\<exists>b'. buf_step op b = Inr (b', snd (buf_spec op (buf_abs b))) \<and> buffer_inv b' \<and>
    buf_abs b' = fst (buf_spec op (buf_abs b))"
  proof (cases op)
    case (BWrite d)
    then show ?thesis
      using Write_refines [OF inv, of d] by (auto simp: buf_step_def case_prod_unfold prod_eq_iff)
  next
    case (BRead n now)
    then show ?thesis
      using inv read_loop_refines [OF inv, of n now]
      by (auto simp: buf_step_def Read_def buf_spec_def buf_abs_def prod_eq_iff case_prod_unfold)
  next
    case (BResume n now)
    then show ?thesis
      using inv read_loop_refines [OF inv, of n now]
      by (auto simp: buf_step_def Read_resume_def buf_spec_def buf_abs_def prod_eq_iff case_prod_unfold)
  next
    case BLen
    then show ?thesis
      using inv calculateUsed_eq [OF inv] by (simp add: buf_step_def buf_spec_def buf_abs_def Len_def length_contents)
  next
    case (BDeadline t)
    then show ?thesis
      using inv by (simp add: buf_step_def buf_spec_def buf_abs_def SetReadDeadline_def buffer_inv_def contents_def)
  next
    case BClose
    then show ?thesis
      using inv by (simp add: buf_step_def buf_spec_def buf_abs_def Close_def buffer_inv_def contents_def)
  qed
qed

lemma newBuffer_inv:
  assumes "n \<le> 62"
  shows "buffer_inv (newBuffer (2 ^ n))" "buf_abs (newBuffer (2 ^ n)) = \<lparr>q_bytes = [], q_cap = 2 ^ n, q_deadline = None, q_closed = False\<rparr>"
proof -
  have "(2 :: nat) ^ n dvd 2 ^ 64" using assms by (intro le_imp_power_dvd) simp
  moreover have "(2 :: nat) ^ n < 2 ^ 63" using assms by (intro power_strict_increasing) simp_all
  
  ultimately show "buffer_inv (newBuffer (2 ^ n))" by (simp add: buffer_inv_def newBuffer_def Let_def nat_power_eq)
  show "buf_abs (newBuffer (2 ^ n)) = \<lparr>q_bytes = [], q_cap = 2 ^ n, q_deadline = None, q_closed = False\<rparr>"
    by (simp add: buf_abs_def newBuffer_def contents_def Let_def nat_power_eq)
qed



end
