(* ===== verification/Icmp_Seq.thy ===== *)
theory Icmp_Seq
  imports Prelude
begin

text \<open>
  Sequence numbers of the ICMP transport (\<^verbatim>\<open>pkg/transport/icmp/seq.go\<close>). Numbers are 32-bit
  words; the 16-bit variants truncate them. The lemmas relate the circular comparisons to the
  order of the unbounded stream offsets the numbers stand for.
\<close>

definition maxICMPSeq :: u32 where
  "maxICMPSeq = 65535"

definition maxUint32Seq :: u32 where
  "maxUint32Seq = NOT 0"

definition halfUint32Seq :: u32 where
  "halfUint32Seq = push_bit 31 1"

definition halfUint16Seq :: u16 where
  "halfUint16Seq = push_bit 15 1"

text \<open>\<^verbatim>\<open>getSeqAck\<close> slices the payload first: fewer than eight bytes panic.\<close>

definition getSeqAck :: "bytes \<Rightarrow> (u32 \<times> u32) result" where
  "getSeqAck payload =
     (if length payload < 8 then Inl Panic else Inr (get32 payload 0, get32 payload 4))"

definition isUint16SeqHigher :: "u32 \<Rightarrow> u32 \<Rightarrow> bool" where
  "isUint16SeqHigher a b = (if a = b then False else (ucast (a - b) :: u16) < halfUint16Seq)"

definition uint16SeqDiff :: "u32 \<Rightarrow> u32 \<Rightarrow> u32" where
  "uint16SeqDiff a b = ucast ((ucast a :: u16) - ucast b)"

definition nextUint16Seq :: "u32 \<Rightarrow> u32" where
  "nextUint16Seq s = ucast (ucast (s + 1) :: u16)"

definition isUint16SeqInWindow :: "u32 \<Rightarrow> u32 \<Rightarrow> u32 \<Rightarrow> bool" where
  "isUint16SeqInWindow s start finish = ((ucast (s - start) :: u16) \<le> ucast (finish - start))"

definition isUint32SeqHigher :: "u32 \<Rightarrow> u32 \<Rightarrow> bool" where
  "isUint32SeqHigher a b = (if a = b then False else a - b < halfUint32Seq)"

definition uint32SeqDiff :: "u32 \<Rightarrow> u32 \<Rightarrow> u32" where
  "uint32SeqDiff a b = a - b"

definition nextUint32Seq :: "u32 \<Rightarrow> u32" where
  "nextUint32Seq s = s + 1"

definition isUint32SeqInWindow :: "u32 \<Rightarrow> u32 \<Rightarrow> u32 \<Rightarrow> bool" where
  "isUint32SeqInWindow s start finish = (s - start \<le> finish - start)"

section \<open>Stream offsets\<close>

text \<open>
  A sequence number is a stream offset modulo \<open>2 ^ 32\<close>. Offsets less than \<open>2 ^ 31\<close> apart are
  compared correctly.
\<close>

abbreviation seq_of :: "nat \<Rightarrow> u32" where
  "seq_of n \<equiv> word_of_nat n"

lemma halfUint32Seq_eq: "halfUint32Seq = 2147483648"
  by (simp add: halfUint32Seq_def push_bit_eq_mult)

lemma unat_seq_of: "n < 2 ^ 32 \<Longrightarrow> unat (seq_of n) = n"
  by (simp add: unat_of_nat take_bit_nat_eq_self)

lemma seq_of_diff: "m \<le> n \<Longrightarrow> seq_of n - seq_of m = seq_of (n - m)"
  by simp

lemma seq_of_eq_iff:
  assumes "n - m < 2 ^ 32" "m - n < 2 ^ 32"
  shows "seq_of n = seq_of m \<longleftrightarrow> n = m"
proof
  assume *: "seq_of n = seq_of m"
  show "n = m"
  proof (cases "m \<le> n")
    case True
    then have "seq_of (n - m) = 0" using * by (simp flip: seq_of_diff)
    then have "unat (seq_of (n - m)) = 0" by simp
    then show ?thesis using assms True by (simp add: unat_seq_of del: unat_of_nat of_nat_diff)
  next
    case False
    then have "seq_of (m - n) = 0" using * by (simp flip: seq_of_diff)
    then have "unat (seq_of (m - n)) = 0" by simp
    then show ?thesis using assms False by (simp add: unat_seq_of del: unat_of_nat of_nat_diff)
  qed
qed simp

lemma seq_less_half: "n < 2 ^ 32 \<Longrightarrow> seq_of n < halfUint32Seq \<longleftrightarrow> n < 2 ^ 31"
  by (simp add: word_less_nat_alt halfUint32Seq_eq unat_seq_of del: unat_of_nat)

lemma isUint32SeqHigher_iff:
  assumes "n < m + 2 ^ 31" "m < n + 2 ^ 31"
  shows "isUint32SeqHigher (seq_of n) (seq_of m) \<longleftrightarrow> m < n"
proof (cases "m < n")
  case True
  have "seq_of n \<noteq> seq_of m" using seq_of_eq_iff [of n m] assms True by simp
  moreover have "seq_of n - seq_of m < halfUint32Seq"
    using True assms seq_less_half [of "n - m"] by (simp flip: seq_of_diff)
  ultimately show ?thesis using True by (simp add: isUint32SeqHigher_def)
next
  case False
  show ?thesis
  proof (cases "n = m")
    case True
    then show ?thesis by (simp add: isUint32SeqHigher_def)
  next
    case ne: False
    with False have lt: "n < m" by simp
    define K where "K = 2 ^ 32 - (m - n)"
    have K: "K < 2 ^ 32" "\<not> K < 2 ^ 31" using lt assms by (simp_all add: K_def)
    have "seq_of n - seq_of m = seq_of K" using lt assms by (simp add: K_def of_nat_diff)
    then have "\<not> seq_of n - seq_of m < halfUint32Seq" using seq_less_half [OF K(1)] K(2) by simp
    then show ?thesis using lt unfolding isUint32SeqHigher_def by simp
  qed
qed

lemma uint32SeqDiff_of: "m \<le> n \<Longrightarrow> n - m < 2 ^ 32 \<Longrightarrow> unat (uint32SeqDiff (seq_of n) (seq_of m)) = n - m"
  by (simp add: uint32SeqDiff_def seq_of_diff unat_seq_of del: of_nat_diff unat_of_nat)

lemma unat_u32_less: "unat (x :: u32) < 2 ^ 32"
proof -
  have "unat x < 2 ^ LENGTH(32)" by (rule unsigned_less)
  then show ?thesis by simp
qed

lemma unat_uminus32: "x \<noteq> 0 \<Longrightarrow> unat (- x :: u32) = 2 ^ 32 - unat x"
proof -
  assume "x \<noteq> 0"
  have "- x = seq_of (2 ^ 32 - unat x)"
    using unat_u32_less [of x] by (simp add: of_nat_diff)
  moreover have "0 < unat x" using \<open>x \<noteq> 0\<close> by (simp add: unat_gt_0)
  ultimately show ?thesis by (simp add: unat_seq_of del: of_nat_diff unat_of_nat)
qed

lemma isUint32SeqHigher_antipode:
  "isUint32SeqHigher a b \<longleftrightarrow> a \<noteq> b \<and> a - b \<noteq> halfUint32Seq \<and> \<not> isUint32SeqHigher b a"
proof -
  have half: "x < halfUint32Seq \<longleftrightarrow> x \<noteq> halfUint32Seq \<and> \<not> - x < halfUint32Seq" if "x \<noteq> 0" for x :: u32
    using unat_uminus32 [OF that] unat_u32_less [of x]
    unfolding halfUint32Seq_eq word_less_nat_alt word_unat_eq_iff by auto
  show ?thesis
  proof (cases "a = b")
    case False
    then have "a - b \<noteq> 0" by simp
    from half [OF this] show ?thesis using False unfolding isUint32SeqHigher_def by (simp add: eq_commute)
  qed (simp add: isUint32SeqHigher_def)
qed

text \<open>
  C24. Wrap-around comparison: for stream offsets less than \<open>2 ^ 31\<close> apart, the circular
  comparison of their sequence numbers is the order of the offsets and the circular difference
  is their distance, also across the wrap of the 32-bit numbers.
\<close>

theorem seq_order_offsets:
  assumes "n < m + 2 ^ 31" "m < n + 2 ^ 31"
  shows "isUint32SeqHigher (seq_of n) (seq_of m) = (m < n) \<and>
    (if m \<le> n then unat (uint32SeqDiff (seq_of n) (seq_of m)) = n - m
     else unat (uint32SeqDiff (seq_of m) (seq_of n)) = m - n)"
  using isUint32SeqHigher_iff [OF assms] uint32SeqDiff_of [of m n] uint32SeqDiff_of [of n m] assms by simp

theorem seq_order_offsets_witness:
  "isUint32SeqHigher (seq_of (2 ^ 32 + 5)) (seq_of (2 ^ 32 - 3)) \<and>
   unat (uint32SeqDiff (seq_of (2 ^ 32 + 5)) (seq_of (2 ^ 32 - 3))) = 8"
  using seq_order_offsets [of "2 ^ 32 + 5" "2 ^ 32 - 3"] by simp

end
