(* ===== verification/Icmp_Packet.thy ===== *)
theory Icmp_Packet
  imports Icmp_Seq "HOL-Library.Multiset"
begin

text \<open>
  Packets of the ICMP transport (\<^verbatim>\<open>packet.go\<close>) and the queue that keeps unacknowledged and
  out-of-order packets (\<^verbatim>\<open>retransmit.go\<close>). A pooled buffer is named by a number; the buffers a
  queue operation hands to its \<^verbatim>\<open>clearMemory\<close> callback are part of its answer.
\<close>

section \<open>Packets\<close>

record Packet =
  p_IPSrc :: bytes
  p_IPDst :: bytes
  p_IcmpType :: u8
  p_IcmpCode :: u8
  p_IcmpEchoID :: u16
  p_IcmpSeq :: u16
  p_IcmpPayload :: bytes
  p_PacketSeq :: u32
  p_PacketAck :: u32
  p_Data :: bytes
  p_buffer :: nat

definition icmpHeaderSize :: nat where
  "icmpHeaderSize = 8"

definition eHeaderSize :: nat where
  "eHeaderSize = 8"

definition emptyPacket :: Packet where
  "emptyPacket = \<lparr>p_IPSrc = [], p_IPDst = [], p_IcmpType = 0, p_IcmpCode = 0, p_IcmpEchoID = 0,
     p_IcmpSeq = 0, p_IcmpPayload = [], p_PacketSeq = 0, p_PacketAck = 0, p_Data = [], p_buffer = 0\<rparr>"

text \<open>
  The header length is read from the packet after only the minimum size has been checked: a
  longer header that leaves fewer than eight bytes makes a slice expression panic.
\<close>

definition Unmarshal :: "Packet \<Rightarrow> bytes \<Rightarrow> Packet result" where
  "Unmarshal p data =
     (if length data < 20 + icmpHeaderSize then Inl (Err ''packet too short'')
      else let payloadOffset = unat (push_bit 2 (data ! 0 AND 0x0F))
      in if payloadOffset > length data then Inl Panic
      else let ipPayload = drop payloadOffset data
      in if length ipPayload < icmpHeaderSize then Inl Panic
      else let p1 = p\<lparr>p_IPSrc := take 4 (drop 12 data), p_IPDst := take 4 (drop 16 data),
                      p_IcmpType := ipPayload ! 0, p_IcmpCode := ipPayload ! 1,
                      p_IcmpEchoID := get16 ipPayload 4, p_IcmpSeq := get16 ipPayload 6,
                      p_IcmpPayload := drop icmpHeaderSize ipPayload\<rparr>
      in if length (p_IcmpPayload p1) < eHeaderSize then Inr p1
         else rbind (getSeqAck (take eHeaderSize (p_IcmpPayload p1))) (\<lambda>(sq, ak).
              Inr (p1\<lparr>p_PacketSeq := sq, p_PacketAck := ak,
                      p_Data := drop eHeaderSize (p_IcmpPayload p1)\<rparr>)))"

definition NewPacket :: "nat \<Rightarrow> bytes \<Rightarrow> nat \<Rightarrow> Packet result" where
  "NewPacket buf store n =
     rbind (slice store 0 n) (Unmarshal (emptyPacket\<lparr>p_buffer := buf\<rparr>))"

section \<open>The retransmit queue\<close>

type_synonym RetransmitQueue = "Packet list"

definition NewRetransmitQueue :: RetransmitQueue where
  "NewRetransmitQueue = []"

definition Put :: "RetransmitQueue \<Rightarrow> Packet \<Rightarrow> RetransmitQueue \<times> nat list" where
  "Put q p =
     (if p_Data p = [] then (q, [p_buffer p])
      else if q = [] then (q @ [p], [])
      else if p_PacketSeq (last q) \<ge> p_PacketSeq p then (q, [p_buffer p])
      else (q @ [p], []))"

fun GetPacket :: "RetransmitQueue \<Rightarrow> u32 \<Rightarrow> Packet option" where
  "GetPacket [] s = None"
| "GetPacket (e # es) s = (if p_PacketSeq e = s then Some e else GetPacket es s)"

text \<open>The scan of \<^verbatim>\<open>DeleteUntil\<close>: the index that stopped it, if any, and the bytes passed.\<close>

fun delete_scan :: "RetransmitQueue \<Rightarrow> u32 \<Rightarrow> nat \<Rightarrow> u32 \<Rightarrow> nat option \<times> u32" where
  "delete_scan [] s i n = (None, n)"
| "delete_scan (e # es) s i n =
     (if p_PacketSeq e = s then (Some i, n)
      else if p_PacketSeq e > s then (Some i, n)
      else delete_scan es s (i + 1) (n + of_nat (length (p_Data e))))"

definition DeleteUntil :: "RetransmitQueue \<Rightarrow> u32 \<Rightarrow> RetransmitQueue \<times> u32 \<times> nat list" where
  "DeleteUntil q s =
     (if q = [] then (q, 0, [])
      else case delete_scan q s 0 0 of
             (None, n) \<Rightarrow> (q, n, [])
           | (Some i, n) \<Rightarrow> (drop i q, n, map p_buffer (take i q)))"

definition QueueLen :: "RetransmitQueue \<Rightarrow> u32" where
  "QueueLen q = foldl (\<lambda>n e. n + of_nat (length (p_Data e))) 0 q"

definition Clear :: "RetransmitQueue \<Rightarrow> RetransmitQueue \<times> nat list" where
  "Clear q = ([], map p_buffer q)"

fun range_start :: "RetransmitQueue \<Rightarrow> u32 \<Rightarrow> RetransmitQueue option" where
  "range_start [] s = None"
| "range_start (e # es) s =
     (if p_PacketSeq e = s then Some (e # es)
      else if p_PacketSeq e > s then None
      else range_start es s)"

text \<open>The callback transforms a state and says whether to go on; 0 stands for no next packet.\<close>

fun range_iter :: "(Packet \<Rightarrow> u32 \<Rightarrow> 's \<Rightarrow> 's \<times> bool) \<Rightarrow> RetransmitQueue \<Rightarrow> 's \<Rightarrow> 's" where
  "range_iter fn [] s = s"
| "range_iter fn (e # es) s =
     (let (s', go) = fn e (case es of [] \<Rightarrow> 0 | e' # _ \<Rightarrow> p_PacketSeq e') s
      in if go then range_iter fn es s' else s')"

definition RangeFrom :: "RetransmitQueue \<Rightarrow> u32 \<Rightarrow> (Packet \<Rightarrow> u32 \<Rightarrow> 's \<Rightarrow> 's \<times> bool) \<Rightarrow> 's \<Rightarrow> 's" where
  "RangeFrom q s fn st =
     (case range_start q s of None \<Rightarrow> st | Some ps \<Rightarrow> range_iter fn ps st)"

section \<open>Decoding\<close>

lemma header_length: "unat (push_bit 2 (b AND 0x0F) :: byte) = 4 * (unat b mod 16)"
proof -
  have "(b AND 0x0F) = take_bit 4 b" by (simp add: take_bit_eq_mask mask_eq_exp_minus_1)
  then have "unat (b AND 0x0F) = unat b mod 16"
    by (simp add: take_bit_eq_mod unat_mod)
  moreover have "unat b mod 16 < 16" by simp
  ultimately show ?thesis
    by (simp add: push_bit_eq_mult unat_word_ariths)
qed

lemma header_length' [simp]: "unat (push_bit 2 b AND 60 :: byte) = 4 * (unat b mod 16)"
  using header_length [of b] by simp

text \<open>What the decoder makes of an echo message behind an IPv4 header of any legal length.\<close>

lemma Unmarshal_echo:
  fixes payload :: bytes and sq eid :: u16 and ty code :: u8 and p :: Packet
  assumes "20 \<le> length hdr" "length hdr = 4 * (unat (hdr ! 0) mod 16)" "length ck = 2"
  defines "data \<equiv> hdr @ [ty, code] @ ck @ put16 eid @ put16 sq @ payload"
  defines "p1 \<equiv> p\<lparr>p_IPSrc := take 4 (drop 12 hdr), p_IPDst := take 4 (drop 16 hdr), p_IcmpType := ty,
     p_IcmpCode := code, p_IcmpEchoID := eid, p_IcmpSeq := sq, p_IcmpPayload := payload\<rparr>"
  shows "Unmarshal p data =
    (if length payload < 8 then Inr p1
     else Inr (p1\<lparr>p_PacketSeq := get32 payload 0, p_PacketAck := get32 payload 4, p_Data := drop 8 payload\<rparr>))"
proof -
  obtain a b where ck: "ck = [a, b]" using assms(3) by (cases ck; cases "tl ck") auto
  define rest where "rest = [ty, code] @ ck @ put16 eid @ put16 sq @ payload"
  have data: "data = hdr @ rest" by (simp add: data_def rest_def)
  have "data ! 0 = hdr ! 0" using assms(1) by (cases hdr) (auto simp: data)
  then have off: "unat (push_bit 2 (data ! 0 AND 0x0F)) = length hdr" by (simp only: header_length assms(2))
  have rest: "length rest = 8 + length payload" "rest ! 0 = ty" "rest ! 1 = code" "drop 8 rest = payload"
    "get16 rest 4 = eid" "get16 rest 6 = sq"
    by (simp_all add: rest_def ck put16_def get16_def be16_put)
  have len: "\<not> length data < 20 + 8" "\<not> length hdr > length data" "\<not> length rest < 8"
    using assms(1) rest(1) by (simp_all add: data)
  have src: "take 4 (drop 12 data) = take 4 (drop 12 hdr)" "take 4 (drop 16 data) = take 4 (drop 16 hdr)"
    "drop (length hdr) data = rest"
    using assms(1) by (simp_all add: data)
  have "p\<lparr>p_IPSrc := take 4 (drop 12 data), p_IPDst := take 4 (drop 16 data), p_IcmpType := rest ! 0,
     p_IcmpCode := rest ! 1, p_IcmpEchoID := get16 rest 4, p_IcmpSeq := get16 rest 6, p_IcmpPayload := drop 8 rest\<rparr> = p1"
    by (simp only: src rest p1_def)
  moreover have "p_IcmpPayload p1 = payload" by (simp add: p1_def)
  moreover have "getSeqAck (take 8 payload) = Inr (get32 payload 0, get32 payload 4)" if "\<not> length payload < 8"
    using that by (simp add: getSeqAck_def get32_def)
  ultimately show ?thesis
    unfolding Unmarshal_def icmpHeaderSize_def eHeaderSize_def Let_def off if_not_P [OF len(1)] if_not_P [OF len(2)]
      src(3) if_not_P [OF len(3)]
    by simp
qed

section \<open>Order and memory of the queue\<close>

abbreviation q_sorted :: "RetransmitQueue \<Rightarrow> bool" where
  "q_sorted q \<equiv> sorted_wrt (\<lambda>a b. p_PacketSeq a < p_PacketSeq b) q"

lemma delete_scan_index:
  assumes "delete_scan q s i n = (r, k)"
  shows "(case r of
      None \<Rightarrow> (\<forall>e\<in>set q. p_PacketSeq e < s) \<and> k = n + of_nat (sum_list (map (length \<circ> p_Data) q))
    | Some j \<Rightarrow> i \<le> j \<and> j - i < length q \<and> (\<forall>e\<in>set (take (j - i) q). p_PacketSeq e < s) \<and>
        s \<le> p_PacketSeq (q ! (j - i)) \<and> k = n + of_nat (sum_list (map (length \<circ> p_Data) (take (j - i) q))))"
  using assms
proof (induction q arbitrary: i n)
  case (Cons e q)
  show ?case
  proof (cases "p_PacketSeq e < s")
    case False
    then show ?thesis using Cons.prems by (auto simp: not_less split: if_splits)
  next
    case True
    then have "p_PacketSeq e \<noteq> s" "\<not> s < p_PacketSeq e" by (metis less_irrefl, metis less_asym)
    then have "delete_scan q s (i + 1) (n + of_nat (length (p_Data e))) = (r, k)" using Cons.prems by simp
    note IH = Cons.IH [OF this]
    show ?thesis
    proof (cases r)
      case None
      then show ?thesis using IH True by simp
    next
      case (Some j)
      then have "j - i = Suc (j - Suc i)" "i \<le> j" using IH by auto
      then show ?thesis using IH True Some by simp
    qed
  qed
qed simp

lemma DeleteUntil_found:
  assumes "q_sorted q" "\<exists>e\<in>set q. s \<le> p_PacketSeq e"
  shows "DeleteUntil q s = (filter (\<lambda>e. s \<le> p_PacketSeq e) q,
    of_nat (sum_list (map (length \<circ> p_Data) (filter (\<lambda>e. p_PacketSeq e < s) q))),
    map p_buffer (filter (\<lambda>e. p_PacketSeq e < s) q))"
proof -
  obtain r k where sc: "delete_scan q s 0 0 = (r, k)" by fastforce
  note idx = delete_scan_index [OF sc]
  obtain j where r: "r = Some j" using idx assms(2) by (cases r) (auto simp: not_less [symmetric])
  have j: "j < length q" "\<forall>e\<in>set (take j q). p_PacketSeq e < s" "s \<le> p_PacketSeq (q ! j)"
    "k = of_nat (sum_list (map (length \<circ> p_Data) (take j q)))" using idx r by auto
  have ge: "\<forall>e\<in>set (drop j q). s \<le> p_PacketSeq e"
  proof
    fix e
    assume "e \<in> set (drop j q)"
    then obtain i where i: "e = q ! (j + i)" "j + i < length q" by (auto simp: in_set_conv_nth)
    have "p_PacketSeq (q ! j) \<le> p_PacketSeq (q ! (j + i))"
      using sorted_wrt_nth_less [OF assms(1), of j "j + i"] i(2) by (cases i) auto
    then show "s \<le> p_PacketSeq e" using j(3) i(1) by simp
  qed
  have "filter (\<lambda>e. s \<le> p_PacketSeq e) (take j q @ drop j q) = drop j q"
    "filter (\<lambda>e. p_PacketSeq e < s) (take j q @ drop j q) = take j q"
    unfolding filter_append using j(2) ge by (auto simp: filter_empty_conv filter_id_conv not_less not_le)
  then have "filter (\<lambda>e. s \<le> p_PacketSeq e) q = drop j q" "filter (\<lambda>e. p_PacketSeq e < s) q = take j q" by simp_all
  moreover have "q \<noteq> []" using j(1) by auto
  ultimately show ?thesis using sc r j(4) by (simp add: DeleteUntil_def)
qed

lemma DeleteUntil_beyond:
  assumes "\<forall>e\<in>set q. p_PacketSeq e < s"
  shows "DeleteUntil q s = (q, of_nat (sum_list (map (length \<circ> p_Data) q)), [])"
proof -
  obtain r k where sc: "delete_scan q s 0 0 = (r, k)" by fastforce
  note idx = delete_scan_index [OF sc]
  have "r = None" using idx assms by (cases r) (auto simp: not_less [symmetric])
  then show ?thesis using sc idx by (simp add: DeleteUntil_def)
qed

text \<open>
  C23. An acknowledgment that falls inside the retransmit queue removes exactly the packets
  before it: the queue keeps the packets at or beyond the given sequence number, the buffers of
  the others go back to the pool and their bytes are reported. An acknowledgment beyond every
  packet removes nothing, while their bytes are still reported as deleted.
\<close>

theorem DeleteUntil_correct:
  assumes "q_sorted q"
  shows "DeleteUntil q s =
    (let old = filter (\<lambda>e. p_PacketSeq e < s) q
     in (if old = q then q else filter (\<lambda>e. s \<le> p_PacketSeq e) q,
         of_nat (sum_list (map (length \<circ> p_Data) old)),
         if old = q then [] else map p_buffer old))"
proof (cases "\<exists>e\<in>set q. s \<le> p_PacketSeq e")
  case True
  then have "filter (\<lambda>e. p_PacketSeq e < s) q \<noteq> q" by (auto simp: filter_id_conv not_less)
  then show ?thesis using DeleteUntil_found [OF assms True] by (simp add: Let_def)
next
  case False
  then have lt: "\<forall>e\<in>set q. p_PacketSeq e < s" by (auto simp: not_le)
  then have "filter (\<lambda>e. p_PacketSeq e < s) q = q" by (simp add: filter_id_conv)
  then show ?thesis using DeleteUntil_beyond [OF lt] by (simp add: Let_def)
qed

theorem DeleteUntil_correct_witness:
  "DeleteUntil [emptyPacket\<lparr>p_PacketSeq := 10, p_Data := [1, 2], p_buffer := 7\<rparr>,
                emptyPacket\<lparr>p_PacketSeq := 12, p_Data := [3], p_buffer := 8\<rparr>] 12 =
   ([emptyPacket\<lparr>p_PacketSeq := 12, p_Data := [3], p_buffer := 8\<rparr>], 2, [7])"
  by (subst DeleteUntil_correct) (simp_all add: emptyPacket_def)

datatype q_op = QPut Packet | QDelete u32 | QClear

text \<open>A queue with the buffers it was given and the buffers it has handed back.\<close>

definition q_step :: "q_op \<Rightarrow> RetransmitQueue \<times> nat list \<times> nat list \<Rightarrow> RetransmitQueue \<times> nat list \<times> nat list" where
  "q_step op st =
     (case st of (q, given, freed) \<Rightarrow>
        case op of
          QPut p \<Rightarrow> (let (q', c) = Put q p in (q', given @ [p_buffer p], freed @ c))
        | QDelete s \<Rightarrow> (let (q', _, c) = DeleteUntil q s in (q', given, freed @ c))
        | QClear \<Rightarrow> (let (q', c) = Clear q in (q', given, freed @ c)))"

definition q_inv :: "RetransmitQueue \<times> nat list \<times> nat list \<Rightarrow> bool" where
  "q_inv st = (case st of (q, given, freed) \<Rightarrow>
     q_sorted q \<and> list_all (\<lambda>p. p_Data p \<noteq> []) q \<and> mset given = mset freed + mset (map p_buffer q))"

lemma Put_inv:
  assumes "q_inv (q, given, freed)"
  shows "q_inv (q_step (QPut p) (q, given, freed))"
proof -
  have "p_PacketSeq e \<le> p_PacketSeq (last q)" if "e \<in> set q" for e
  proof -
    have q: "q = butlast q @ [last q]" using that by (cases q rule: rev_cases) auto
    have "q_sorted (butlast q @ [last q])" using assms q by (simp add: q_inv_def)
    moreover have "e \<in> set (butlast q @ [last q])" using that q by simp
    ultimately show ?thesis by (auto simp: sorted_wrt_append order_less_imp_le)
  qed
  then show ?thesis
    using assms by (auto simp: q_inv_def q_step_def Put_def sorted_wrt_append not_le intro: le_less_trans)
qed

lemma DeleteUntil_inv:
  assumes "q_inv (q, given, freed)"
  shows "q_inv (q_step (QDelete s) (q, given, freed))"
proof -
  have sorted: "q_sorted q" using assms by (simp add: q_inv_def)
  have part: "mset (map p_buffer q) = mset (map p_buffer (filter P q)) + mset (map p_buffer (filter (\<lambda>x. \<not> P x) q))" for P
    by (induction q) auto
  show ?thesis
  proof (cases "\<exists>e\<in>set q. s \<le> p_PacketSeq e")
    case True
    then show ?thesis
      using assms DeleteUntil_found [OF sorted True] part [of "\<lambda>e. p_PacketSeq e < s"]
      by (simp add: q_inv_def q_step_def not_less list_all_iff sorted_wrt_filter)
  next
    case False
    then have "\<forall>e\<in>set q. p_PacketSeq e < s" by (auto simp: not_le)
    then show ?thesis using assms DeleteUntil_beyond by (simp add: q_inv_def q_step_def)
  qed
qed

lemma q_step_inv: "q_inv st \<Longrightarrow> q_inv (q_step op st)"
  by (cases st; cases op) (auto simp: Put_inv DeleteUntil_inv, auto simp: q_inv_def q_step_def Clear_def)

text \<open>
  C22. Ownership of packet buffers: through any sequence of insertions, deletions and clears,
  the buffers handed to the queue are exactly those it still holds together with those it has
  returned to the pool, each as often as it was given, so no buffer is freed twice or while
  still queued; the queue stays strictly ordered by sequence number and holds no empty packet.
\<close>

theorem queue_buffers_conserved:
  "case fold q_step ops (NewRetransmitQueue, [], []) of (q, given, freed) \<Rightarrow>
     q_sorted q \<and> list_all (\<lambda>p. p_Data p \<noteq> []) q \<and> mset given = mset freed + mset (map p_buffer q)"
proof -
  have "q_inv (fold q_step ops st)" if "q_inv st" for st
    using that by (induction ops arbitrary: st) (auto simp: q_step_inv)
  moreover have "q_inv (NewRetransmitQueue, [], [])" by (simp add: q_inv_def NewRetransmitQueue_def)
  ultimately have "q_inv (fold q_step ops (NewRetransmitQueue, [], []))" by blast
  then show ?thesis unfolding q_inv_def .
qed

text \<open>
  C25. Decoding inverts the sender's framing: an echo message behind an IPv4 header of any legal
  length decodes to its type, code, identifier, sequence number and, when the payload starts
  with a sequence and an acknowledgment number, to those numbers and the data behind them.
\<close>

theorem Unmarshal_roundtrip:
  assumes "20 \<le> length hdr" "length hdr = 4 * (unat (hdr ! 0) mod 16)" "length ck = 2"
  shows "\<exists>p. Unmarshal emptyPacket (hdr @ [ty, code] @ ck @ put16 eid @ put16 isq @ put32 sq @ put32 ak @ d) = Inr p \<and>
    p_IcmpType p = ty \<and> p_IcmpCode p = code \<and> p_IcmpEchoID p = eid \<and> p_IcmpSeq p = isq \<and>
    p_PacketSeq p = sq \<and> p_PacketAck p = ak \<and> p_Data p = d \<and>
    p_IPSrc p = take 4 (drop 12 hdr) \<and> p_IPDst p = take 4 (drop 16 hdr)"
  unfolding Unmarshal_echo [OF assms] by (simp add: get32_append get32_put32)

theorem Unmarshal_roundtrip_witness:
  "\<exists>p. Unmarshal emptyPacket ((0x45 # replicate 19 1) @ [8, 0] @ [0, 0] @ put16 7 @ put16 9 @ put32 100 @ put32 50 @ [65]) = Inr p \<and>
    p_IcmpType p = 8 \<and> p_IcmpCode p = 0 \<and> p_IcmpEchoID p = 7 \<and> p_IcmpSeq p = 9 \<and>
    p_PacketSeq p = 100 \<and> p_PacketAck p = 50 \<and> p_Data p = [65] \<and>
    p_IPSrc p = take 4 (drop 12 (0x45 # replicate 19 1)) \<and> p_IPDst p = take 4 (drop 16 (0x45 # replicate 19 1))"
  by (rule Unmarshal_roundtrip) simp_all

text \<open>
  C26. The decoder panics on exactly the packets that pass the length check of 28 bytes but
  announce an IPv4 header that leaves fewer than eight bytes behind it.
\<close>

theorem Unmarshal_panics:
  "Unmarshal p data = Inl Panic \<longleftrightarrow> 28 \<le> length data \<and> length data < 4 * (unat (data ! 0) mod 16) + 8"
  by (auto simp: Unmarshal_def Let_def header_length icmpHeaderSize_def eHeaderSize_def getSeqAck_def)

end
