(* ===== verification/Icmp_Conn.thy ===== *)
theory Icmp_Conn
  imports Icmp_Buffer Icmp_Packet
begin

text \<open>
  The connection of the ICMP transport: congestion control and loss recovery (\<^verbatim>\<open>reno.go\<close>,
  \<^verbatim>\<open>flight.go\<close>), round-trip times (\<^verbatim>\<open>rtt.go\<close>), message construction (\<^verbatim>\<open>serialize.go\<close>,
  \<^verbatim>\<open>echo.go\<close>) and the two loops (\<^verbatim>\<open>conn.go\<close>).

  A handler maps a connection to a connection. What it hands to the socket and to the buffer
  pool is appended to the fields \<open>c_out\<close> and \<open>c_cleared\<close>. The flag \<open>sok\<close> says whether the socket
  accepts messages while the handler runs, \<open>now\<close> is the clock. A handler that has to sleep
  (a full read buffer, an empty write buffer, a closed window) is \<open>Wait\<close>: it takes effect when
  it can run to its end. Durations are integers in nanoseconds. Log output is left out.
\<close>

section \<open>Messages and the connection\<close>

definition ICMPTypeEcho :: u8 where
  "ICMPTypeEcho = 8"

definition ICMPTypeEchoReply :: u8 where
  "ICMPTypeEchoReply = 0"

text \<open>An ICMP echo message handed to the listener; the sequence number is written as 16 bits.\<close>

record EchoMsg =
  m_Type :: u8
  m_Code :: u8
  m_ID :: u16
  m_Seq :: u32
  m_Data :: bytes

text \<open>
  \<open>c_rtoSeq\<close> is \<open>None\<close> both for the unset atomic value and for the zero measurement that
  consumes a sample. A timer is \<open>Some d\<close> when armed with the duration \<open>d\<close>.
\<close>

record Conn =
  c_emss :: u32
  c_wantType :: u8
  c_isServer :: bool
  c_readBuf :: buffer
  c_writeBuf :: buffer
  c_ctxDone :: bool
  c_icmpID :: u16
  c_nextIcmpSeq :: u32
  c_recvIcmpSeq :: u32
  c_rtt :: int
  c_rttvar :: int
  c_rtoSeq :: "(int \<times> u32) option"
  c_rq :: RetransmitQueue
  c_ooq :: RetransmitQueue
  c_retransmit :: bool
  c_recovery :: bool
  c_transmitBlocked :: bool
  c_peerAck :: u32
  c_peerSeq :: u32
  c_prevPeerAck :: u32
  c_ack :: u32
  c_seq :: u32
  c_sentAck :: u32
  c_ackTimer :: "int option"
  c_rto :: "int option"
  c_recover :: u32
  c_cwnd :: u32
  c_ssthresh :: u32
  c_sendWindowSize :: u32
  c_flight :: u32
  c_dupCnt :: u8
  c_ackBytesCount :: u32
  c_out :: "EchoMsg list"
  c_cleared :: "nat list"

definition clearMemory :: "Conn \<Rightarrow> nat list \<Rightarrow> Conn" where
  "clearMemory c bs = c\<lparr>c_cleared := c_cleared c @ bs\<rparr>"

section \<open>Flight counter\<close>

definition flight_Add :: "Conn \<Rightarrow> u32 \<Rightarrow> Conn" where
  "flight_Add c num = (if num \<le> 0 then c else c\<lparr>c_flight := c_flight c + num\<rparr>)"

definition flight_Sub :: "Conn \<Rightarrow> u32 \<Rightarrow> Conn" where
  "flight_Sub c num =
     (if num \<le> 0 then c
      else if num > c_flight c then c\<lparr>c_flight := 0\<rparr>
      else c\<lparr>c_flight := c_flight c - num\<rparr>)"

text \<open>The condition under which \<^verbatim>\<open>WaitCwnd\<close> keeps waiting.\<close>

definition WaitCwnd_blocks :: "Conn \<Rightarrow> bool" where
  "WaitCwnd_blocks c =
     (c_flight c > 0 \<and>
      (c_flight c \<ge> c_cwnd c - c_emss c \<or> c_flight c \<ge> c_sendWindowSize c - c_emss c))"

section \<open>Echo messages\<close>

definition sendEchoMessage :: "bool \<Rightarrow> Conn \<Rightarrow> bytes \<Rightarrow> Conn \<times> bool" where
  "sendEchoMessage sok c data =
     (let msg = \<lparr>m_Type = (if c_isServer c then ICMPTypeEchoReply else ICMPTypeEcho), m_Code = 0,
                 m_ID = c_icmpID c, m_Seq = c_nextIcmpSeq c, m_Data = data\<rparr>;
          c' = c\<lparr>c_nextIcmpSeq := c_nextIcmpSeq c + 1\<rparr>
      in if sok then (c'\<lparr>c_out := c_out c' @ [msg]\<rparr>, True) else (c', False))"

definition sendCloseMessage :: "bool \<Rightarrow> Conn \<Rightarrow> Conn" where
  "sendCloseMessage sok c =
     (let msg = \<lparr>m_Type = (if c_isServer c then ICMPTypeEchoReply else ICMPTypeEcho), m_Code = 255,
                 m_ID = c_icmpID c, m_Seq = c_nextIcmpSeq c, m_Data = []\<rparr>;
          c' = c\<lparr>c_nextIcmpSeq := c_nextIcmpSeq c + 1\<rparr>
      in if sok then c'\<lparr>c_out := c_out c' @ [msg]\<rparr> else c')"

definition seq_ack_header :: "u32 \<Rightarrow> u32 \<Rightarrow> bytes" where
  "seq_ack_header sq ak = put32 sq @ put32 ak"

definition serializeDuplicateAck :: "bool \<Rightarrow> Conn \<Rightarrow> u32 \<Rightarrow> u32 \<Rightarrow> Conn" where
  "serializeDuplicateAck sok c sq ak = fst (sendEchoMessage sok c (seq_ack_header sq ak))"

definition serializeAck :: "bool \<Rightarrow> Conn \<Rightarrow> u32 \<Rightarrow> Conn" where
  "serializeAck sok c ak =
     (let lastSentAck = c_sentAck c
      in if lastSentAck = ak \<or> isUint32SeqHigher lastSentAck ak then c
         else let c1 = c\<lparr>c_sentAck := ak\<rparr>
              in fst (sendEchoMessage sok c1 (seq_ack_header (c_seq c1) ak)))"

definition serializeData :: "bool \<Rightarrow> Conn \<Rightarrow> bytes \<Rightarrow> Conn" where
  "serializeData sok c icmpPayload = fst (sendEchoMessage sok c icmpPayload)"

text \<open>
  \<open>buf\<close> names the pooled buffer. Reading from the write buffer may wait; an error hands the
  buffer back.
\<close>

definition serializeOutboundData :: "bool \<Rightarrow> int \<Rightarrow> nat \<Rightarrow> Conn \<Rightarrow> (Conn \<times> bool) attempt" where
  "serializeOutboundData sok now buf c =
     (case Read (c_writeBuf c) (unat (c_emss c)) now of
        (wb, Wait) \<Rightarrow> Wait
      | (wb, Ret (Inl e)) \<Rightarrow> Ret (clearMemory (c\<lparr>c_writeBuf := wb\<rparr>) [buf], False)
      | (wb, Ret (Inr d)) \<Rightarrow>
          (let sq = c_seq c; ak = c_ack c; n = of_nat (length d);
               c1 = c\<lparr>c_writeBuf := wb, c_sentAck := ak, c_seq := sq + n\<rparr>;
               c2 = flight_Add c1 n;
               packet = emptyPacket\<lparr>p_PacketSeq := sq, p_PacketAck := ak,
                          p_IcmpPayload := seq_ack_header sq ak @ d, p_Data := d, p_buffer := buf\<rparr>;
               (rq, cleared) = Put (c_rq c2) packet;
               c3 = clearMemory (c2\<lparr>c_rq := rq\<rparr>) cleared;
               (c4, sent) = sendEchoMessage sok c3 (p_IcmpPayload packet)
           in if sent then Ret (c4\<lparr>c_rtoSeq := Some (now, c_seq c4)\<rparr>, True) else Ret (c4, False)))"

section \<open>Round-trip times\<close>

definition minRTO :: int where
  "minRTO = 300 * 1000000"

definition maxRTO :: int where
  "maxRTO = 1000 * 1000000"

definition GetRTT :: "Conn \<Rightarrow> int" where
  "GetRTT c =
     (let rto = c_rtt c + 1 * c_rttvar c;
          rto1 = (if rto < minRTO then minRTO else rto)
      in if rto1 > maxRTO then maxRTO else rto1)"

text \<open>
  The weights 1/8 and 1/4 are exact in binary floating point, and so are the products and sums
  for durations below \<open>2 ^ 50\<close> nanoseconds; the conversion back truncates. The exponential
  averages are therefore integer divisions here.
\<close>

definition UpdateRTT :: "int \<Rightarrow> Conn \<Rightarrow> u32 \<Rightarrow> Conn" where
  "UpdateRTT now c peerAck =
     (case c_rtoSeq c of
        None \<Rightarrow> c
      | Some (sendTime, sq) \<Rightarrow>
          (let c1 = c\<lparr>c_rtoSeq := None\<rparr>
           in if isUint32SeqHigher sq peerAck then c1
              else let sample = now - sendTime; currentRTT = c_rtt c; currentRTTVAR = c_rttvar c
                   in if currentRTT = 0 then c1\<lparr>c_rtt := sample, c_rttvar := sample div 2\<rparr>
                      else c1\<lparr>c_rttvar := (3 * currentRTTVAR + \<bar>currentRTT - sample\<bar>) div 4,
                              c_rtt := (7 * currentRTT + sample) div 8\<rparr>))"

definition BackoffRTO :: "Conn \<Rightarrow> int" where
  "BackoffRTO c = GetRTT c * 2"

section \<open>Congestion control\<close>

definition initNewReno :: "Conn \<Rightarrow> Conn" where
  "initNewReno c =
     c\<lparr>c_cwnd := 10 * c_emss c, c_ssthresh := maxUint32Seq,
       c_sendWindowSize := of_nat (b_size (c_writeBuf c)), c_flight := 0, c_rto := None,
       c_seq := 0, c_ack := 0, c_peerSeq := 0, c_peerAck := 0xFFFFFFFF, c_rtt := 500 * 1000000,
       c_rq := NewRetransmitQueue, c_ooq := NewRetransmitQueue\<rparr>"

definition max_u32 :: "u32 \<Rightarrow> u32 \<Rightarrow> u32" where
  "max_u32 a b = (if a > b then a else b)"

definition updateCongestionWindow :: "Conn \<Rightarrow> u32 \<Rightarrow> Conn" where
  "updateCongestionWindow c peerAck =
     (if c_retransmit c then c
      else let ackedBytes = uint32SeqDiff peerAck (c_peerAck c)
      in if c_cwnd c \<ge> c_ssthresh c
         then (let n = c_ackBytesCount c + ackedBytes
               in if n \<ge> c_cwnd c then c\<lparr>c_ackBytesCount := 0, c_cwnd := c_cwnd c + c_emss c\<rparr>
                  else c\<lparr>c_ackBytesCount := n\<rparr>)
         else (let ackedBytes' = (if ackedBytes > c_emss c then c_emss c else ackedBytes)
               in c\<lparr>c_ackBytesCount := 0, c_cwnd := c_cwnd c + ackedBytes'\<rparr>))"

definition blockTransmit :: "Conn \<Rightarrow> Conn" where
  "blockTransmit c = c\<lparr>c_transmitBlocked := True\<rparr>"

definition unblockTransmit :: "Conn \<Rightarrow> Conn" where
  "unblockTransmit c =
     (if c_retransmit c \<or> c_recovery c then c
      else if \<not> c_transmitBlocked c then c
      else c\<lparr>c_transmitBlocked := False\<rparr>)"

definition waitTransmit_blocks :: "Conn \<Rightarrow> bool" where
  "waitTransmit_blocks c = c_transmitBlocked c"

text \<open>The packet found in the queue is changed in place: its acknowledgment is refreshed.\<close>

fun update_first :: "RetransmitQueue \<Rightarrow> u32 \<Rightarrow> (Packet \<Rightarrow> Packet) \<Rightarrow> RetransmitQueue" where
  "update_first [] s f = []"
| "update_first (e # es) s f = (if p_PacketSeq e = s then f e # es else e # update_first es s f)"

definition refresh_ack :: "u32 \<Rightarrow> Packet \<Rightarrow> Packet" where
  "refresh_ack ak p = p\<lparr>p_PacketAck := ak, p_IcmpPayload := splice (p_IcmpPayload p) 4 (put32 ak)\<rparr>"

definition retransmitMissingSegment :: "bool \<Rightarrow> Conn \<Rightarrow> u32 \<Rightarrow> Conn" where
  "retransmitMissingSegment sok c peerAck =
     (case GetPacket (c_rq c) peerAck of
        None \<Rightarrow> c
      | Some packet \<Rightarrow>
          serializeData sok (c\<lparr>c_rq := update_first (c_rq c) peerAck (refresh_ack (c_ack c))\<rparr>)
            (p_IcmpPayload (refresh_ack (c_ack c) packet)))"

definition handleDuplicateAck :: "bool \<Rightarrow> Conn \<Rightarrow> u32 \<Rightarrow> Packet \<Rightarrow> Conn \<times> bool" where
  "handleDuplicateAck sok c ourSeq packet =
     (if \<not> (p_Data packet = [] \<and> p_PacketAck packet = c_peerAck c \<and>
            isUint32SeqHigher ourSeq (p_PacketAck packet))
      then (c, False)
      else if c_retransmit c then (c\<lparr>c_cwnd := c_cwnd c + c_emss c\<rparr>, True)
      else let c1 = c\<lparr>c_dupCnt := c_dupCnt c + 1\<rparr>
      in if c_dupCnt c1 < 3 then (c1, True)
      else if isUint32SeqHigher (c_recover c1) (p_PacketAck packet) \<and>
              (c_cwnd c1 \<le> c_emss c1 \<or>
               uint32SeqDiff (c_peerAck c1) (c_prevPeerAck c1) > 4 * c_emss c1)
      then (c1, True)
      else let c2 = blockTransmit (c1\<lparr>c_recover := ourSeq\<rparr>);
               c3 = c2\<lparr>c_ssthresh := max_u32 (c_flight c2 div 2) (2 * c_emss c2)\<rparr>;
               c4 = retransmitMissingSegment sok c3 (p_PacketAck packet);
               c5 = c4\<lparr>c_cwnd := c_ssthresh c4 + 3 * c_emss c4, c_retransmit := True\<rparr>
           in (c5, True))"

definition doFastRetransmit :: "bool \<Rightarrow> Conn \<Rightarrow> u32 \<Rightarrow> Conn \<times> bool" where
  "doFastRetransmit sok c peerAck =
     (if \<not> c_retransmit c then (c, False)
      else if isUint32SeqHigher (c_recover c) peerAck
      then (let c1 = retransmitMissingSegment sok c peerAck;
                ackedBytes = uint32SeqDiff peerAck (c_peerAck c1);
                ackedBytes' = (if ackedBytes < c_emss c1 then c_emss c1 else ackedBytes);
                cwnd = c_ssthresh c1
            in (if ackedBytes' < cwnd then c1\<lparr>c_cwnd := cwnd + c_emss c1\<rparr> else c1, True))
      else (unblockTransmit (c\<lparr>c_cwnd := c_ssthresh c, c_rto := Some minRTO, c_retransmit := False\<rparr>), False))"

text \<open>The callback of \<^verbatim>\<open>recoverFromLoss\<close>; a full read buffer makes the whole recovery wait.\<close>

definition recover_packet :: "Packet \<Rightarrow> u32 \<Rightarrow> (Conn \<times> nat) attempt \<Rightarrow> (Conn \<times> nat) attempt \<times> bool" where
  "recover_packet packet nextSeq st =
     (case st of Wait \<Rightarrow> (Wait, False)
      | Ret (c, numRecovered) \<Rightarrow>
          (let c1 = (if p_PacketAck packet > c_peerAck c then c\<lparr>c_peerAck := p_PacketAck packet\<rparr> else c)
           in case Write (c_readBuf c1) (p_Data packet) of
                (rb, Wait) \<Rightarrow> (Wait, False)
              | (rb, Ret (Inl e)) \<Rightarrow> (Ret (c1\<lparr>c_readBuf := rb\<rparr>, numRecovered), False)
              | (rb, Ret (Inr n)) \<Rightarrow>
                  (let nextPeerSeq = p_PacketSeq packet + of_nat (length (p_Data packet))
                   in (Ret (c1\<lparr>c_readBuf := rb, c_peerSeq := nextPeerSeq\<rparr>, numRecovered + 1),
                       nextSeq = nextPeerSeq))))"

definition recoverFromLoss :: "bool \<Rightarrow> Conn \<Rightarrow> u32 \<Rightarrow> (Conn \<times> bool) attempt" where
  "recoverFromLoss sok c startSeq =
     (case RangeFrom (c_ooq c) startSeq recover_packet (Ret (c, 0)) of
        Wait \<Rightarrow> Wait
      | Ret (c1, numRecovered) \<Rightarrow>
          (let (ooq, _, cleared) = DeleteUntil (c_ooq c1) (c_peerSeq c1);
               c2 = clearMemory (c1\<lparr>c_ooq := ooq\<rparr>) cleared;
               c3 = c2\<lparr>c_ack := c_peerSeq c2\<rparr>
           in Ret (serializeAck sok c3 (c_peerSeq c3), numRecovered > 0)))"

section \<open>Incoming packets\<close>

text \<open>
  \<^verbatim>\<open>processICMPPacket\<close> in its parts: the acknowledgment side, then the data side. The value
  \<open>True\<close> of \<open>process_ack\<close> says that the packet was a duplicate acknowledgment.
\<close>

definition process_ack :: "bool \<Rightarrow> int \<Rightarrow> Conn \<Rightarrow> Packet \<Rightarrow> Conn \<times> bool" where
  "process_ack sok now c packet =
     (let (c1, dup) = handleDuplicateAck sok c (c_seq c) packet
      in if dup then (c1, True)
         else let c2 = UpdateRTT now (c1\<lparr>c_dupCnt := 0\<rparr>) (p_PacketAck packet);
                  (c3, fast) = doFastRetransmit sok c2 (p_PacketAck packet);
                  c4 = (if \<not> fast then updateCongestionWindow c3 (p_PacketAck packet) else c3)
              in (if isUint32SeqHigher (p_PacketAck packet) (c_peerAck c4)
                  then (let (rq, _, cleared) = DeleteUntil (c_rq c4) (p_PacketAck packet);
                            c5 = clearMemory (c4\<lparr>c_rq := rq\<rparr>) cleared;
                            c6 = flight_Sub c5 (uint32SeqDiff (p_PacketAck packet) (c_peerAck c5))
                        in c6\<lparr>c_prevPeerAck := c_peerAck c6, c_peerAck := p_PacketAck packet\<rparr>)
                  else c4, False))"

definition process_data :: "bool \<Rightarrow> Conn \<Rightarrow> Packet \<Rightarrow> Conn attempt" where
  "process_data sok c packet =
     (if p_Data packet = [] then Ret c
      else if c_recovery c
      then (if c_peerSeq c \<noteq> p_PacketSeq packet
            then (let (ooq, cleared) = Put (c_ooq c) packet;
                      c1 = clearMemory (c\<lparr>c_ooq := ooq\<rparr>) cleared
                  in Ret (serializeDuplicateAck sok c1 (c_seq c1) (c_sentAck c1)))
            else (case Write (c_readBuf c) (p_Data packet) of
                    (rb, Wait) \<Rightarrow> Wait
                  | (rb, Ret _) \<Rightarrow>
                      (let c1 = c\<lparr>c_readBuf := rb,
                                  c_peerSeq := p_PacketSeq packet + of_nat (length (p_Data packet))\<rparr>;
                           c2 = clearMemory c1 [p_buffer packet]
                       in case recoverFromLoss sok c2 (c_peerSeq c2) of
                            Wait \<Rightarrow> Wait
                          | Ret (c3, _) \<Rightarrow> Ret (unblockTransmit (c3\<lparr>c_recovery := False\<rparr>)))))
      else (case Write (c_readBuf c) (p_Data packet) of
              (rb, Wait) \<Rightarrow> Wait
            | (rb, Ret (Inl e)) \<Rightarrow> Ret (c\<lparr>c_readBuf := rb\<rparr>)
            | (rb, Ret (Inr n)) \<Rightarrow>
                (if n \<noteq> length (p_Data packet) then Ret (c\<lparr>c_readBuf := rb\<rparr>)
                 else let c1 = c\<lparr>c_readBuf := rb,
                                 c_peerSeq := p_PacketSeq packet + of_nat (length (p_Data packet))\<rparr>;
                          c2 = clearMemory (c1\<lparr>c_ack := c_peerSeq c1\<rparr>) [p_buffer packet]
                      in if uint32SeqDiff (c_peerSeq c2) (c_sentAck c2) < 2 * c_emss c2 then Ret c2
                         else Ret (serializeAck sok c2 (c_peerSeq c2)))))"

definition processICMPPacket :: "bool \<Rightarrow> int \<Rightarrow> Conn \<Rightarrow> Packet \<Rightarrow> (Conn \<times> unit result) attempt" where
  "processICMPPacket sok now c packet =
     (if p_IcmpType packet \<noteq> c_wantType c then Ret (c, Inr ())
      else if p_IcmpCode packet = 255 then Ret (c, Inl (Err ''received close packet''))
      else if p_IcmpEchoID packet \<noteq> c_icmpID c then Ret (c, Inr ())
      else let c1 = c\<lparr>c_recvIcmpSeq := ucast (p_IcmpSeq packet)\<rparr>
      in if length (p_IcmpPayload packet) < eHeaderSize
         then Ret (clearMemory c1 [p_buffer packet], Inr ())
      else if isUint32SeqHigher (c_peerSeq c1) (p_PacketSeq packet) then Ret (c1, Inr ())
      else let c2 = (if isUint32SeqHigher (p_PacketSeq packet) (c_peerSeq c1) \<and> \<not> c_recovery c1
                     then blockTransmit (c1\<lparr>c_recovery := True\<rparr>) else c1);
               (c3, dup) = process_ack sok now c2 packet
           in if dup then Ret (c3, Inr ())
              else case process_data sok c3 packet of Wait \<Rightarrow> Wait | Ret c4 \<Rightarrow> Ret (c4, Inr ()))"

section \<open>The loops and the application's calls\<close>

definition newConnection :: "nat \<Rightarrow> bool \<Rightarrow> u16 \<Rightarrow> Conn" where
  "newConnection mss isServer icmpID =
     initNewReno
       \<lparr>c_emss = of_nat (mss - eHeaderSize),
        c_wantType = (if isServer then ICMPTypeEcho else ICMPTypeEchoReply), c_isServer = isServer,
        c_readBuf = newBuffer (2 ^ 18), c_writeBuf = newBuffer (2 ^ 18), c_ctxDone = False,
        c_icmpID = icmpID, c_nextIcmpSeq = 0, c_recvIcmpSeq = maxICMPSeq, c_rtt = 0, c_rttvar = 0,
        c_rtoSeq = None, c_rq = [], c_ooq = [], c_retransmit = False, c_recovery = False,
        c_transmitBlocked = False, c_peerAck = 0, c_peerSeq = 0, c_prevPeerAck = 0, c_ack = 0,
        c_seq = 0, c_sentAck = 0, c_ackTimer = Some (300 * 1000000), c_rto = Some (1000 * 1000000),
        c_recover = 0, c_cwnd = 0, c_ssthresh = 0, c_sendWindowSize = 0, c_flight = 0, c_dupCnt = 0,
        c_ackBytesCount = 0, c_out = [], c_cleared = []\<rparr>"

definition Conn_Close :: "bool \<Rightarrow> Conn \<Rightarrow> Conn" where
  "Conn_Close sok c =
     (if c_ctxDone c then c
      else let c1 = sendCloseMessage sok c
           in c1\<lparr>c_ctxDone := True, c_readBuf := Close (c_readBuf c1), c_writeBuf := Close (c_writeBuf c1)\<rparr>)"

definition Conn_Read :: "Conn \<Rightarrow> nat \<Rightarrow> int \<Rightarrow> Conn \<times> bytes result attempt" where
  "Conn_Read c n now =
     (if c_ctxDone c then (c, Ret (Inl (Err ''connection closed'')))
      else let (rb, r) = Read (c_readBuf c) n now in (c\<lparr>c_readBuf := rb\<rparr>, r))"

definition Conn_Write :: "Conn \<Rightarrow> bytes \<Rightarrow> Conn \<times> nat result attempt" where
  "Conn_Write c b =
     (if c_ctxDone c then (c, Ret (Inl (Err ''connection closed'')))
      else let (wb, r) = Write (c_writeBuf c) b in (c\<lparr>c_writeBuf := wb\<rparr>, r))"

datatype event = RtoFired | AckFired | Incoming Packet

definition reset_timers :: "Conn \<Rightarrow> Conn" where
  "reset_timers c =
     (let c1 = c\<lparr>c_rto := None, c_ackTimer := None\<rparr>;
          c2 = (if isUint32SeqHigher (c_seq c1) (c_peerAck c1) then c1\<lparr>c_rto := Some (GetRTT c1)\<rparr> else c1)
      in if isUint32SeqHigher (c_ack c2) (c_sentAck c2) then c2\<lparr>c_ackTimer := Some (100 * 1000000)\<rparr> else c2)"

text \<open>The branch of \<^verbatim>\<open>readLoop\<close> for an expired retransmission timer.\<close>

definition rto_backoff :: "Conn \<Rightarrow> Conn" where
  "rto_backoff c =
     (let c1 = c\<lparr>c_rtt := GetRTT c * 2\<rparr>;
          c2 = c1\<lparr>c_ssthresh := max_u32 (c_flight c1 div 2) (2 * c_emss c1), c_cwnd := c_emss c1\<rparr>
      in c2\<lparr>c_rto := Some (GetRTT c2)\<rparr>)"

definition rto_expired :: "bool \<Rightarrow> Conn \<Rightarrow> Conn" where
  "rto_expired sok c =
     (let c1 = rto_backoff c;
          c2 = retransmitMissingSegment sok c1 (c_peerAck c1)
      in unblockTransmit (c2\<lparr>c_recover := c_seq c2, c_retransmit := False\<rparr>))"

text \<open>One turn of \<^verbatim>\<open>readLoop\<close>.\<close>

definition readLoop_step :: "bool \<Rightarrow> int \<Rightarrow> event \<Rightarrow> Conn \<Rightarrow> Conn attempt" where
  "readLoop_step sok now ev c =
     (if c_ctxDone c then Ret c
      else case ev of
        RtoFired \<Rightarrow> Ret (rto_expired sok c)
      | AckFired \<Rightarrow>
          Ret (reset_timers (if c_sentAck c = c_ack c then c else serializeAck sok c (c_ack c)))
      | Incoming packet \<Rightarrow>
          (case processICMPPacket sok now c packet of
             Wait \<Rightarrow> Wait
           | Ret (c1, Inl e) \<Rightarrow> Ret (Conn_Close sok c1)
           | Ret (c1, Inr _) \<Rightarrow> Ret (reset_timers c1)))"

text \<open>One turn of \<^verbatim>\<open>writeLoop\<close>.\<close>

definition writeLoop_step :: "bool \<Rightarrow> int \<Rightarrow> nat \<Rightarrow> Conn \<Rightarrow> Conn attempt" where
  "writeLoop_step sok now buf c =
     (if c_ctxDone c then Ret c
      else if waitTransmit_blocks c then Wait
      else if WaitCwnd_blocks c then Wait
      else case serializeOutboundData sok now buf c of Wait \<Rightarrow> Wait | Ret (c1, _) \<Rightarrow> Ret c1)"

end
