(* ===== verification/Icmp_Stream.thy ===== *)
theory Icmp_Stream
  imports Icmp_Conn "HOL-Library.Sublist"
begin

text \<open>
  Reliable delivery over the ICMP transport. The sender's invariant says that every queued
  packet and every message sent carries the bytes that stand at its sequence number in the
  stream of bytes sent so far; the receiver's invariant says that the bytes delivered so far
  are a prefix of that stream. Every handler keeps both, and so does every interleaving of the
  two endpoints over a network that loses, duplicates and reorders.
\<close>

section \<open>Segments of a stream\<close>

text \<open>The bytes \<open>d\<close> stand at the offset of sequence number \<open>sq\<close> in the stream.\<close>

definition seg_ok :: "bytes \<Rightarrow> u32 \<Rightarrow> bytes \<Rightarrow> bool" where
  "seg_ok stream sq d =
     (\<exists>k. sq = seq_of k \<and> k + length d \<le> length stream \<and> d = take (length d) (drop k stream))"

definition own_ok :: "bytes \<Rightarrow> Packet \<Rightarrow> bool" where
  "own_ok stream p =
     (seg_ok stream (p_PacketSeq p) (p_Data p) \<and>
      p_IcmpPayload p = seq_ack_header (p_PacketSeq p) (p_PacketAck p) @ p_Data p)"

definition msg_ok :: "bytes \<Rightarrow> EchoMsg \<Rightarrow> bool" where
  "msg_ok stream m =
     (m_Code m = 255 \<or> (\<exists>sq ak d. m_Data m = seq_ack_header sq ak @ d \<and> seg_ok stream sq d))"

lemma seg_ok_append: "seg_ok s sq d \<Longrightarrow> seg_ok (s @ t) sq d"
proof -
  assume "seg_ok s sq d"
  then obtain k where "sq = seq_of k" "k + length d \<le> length s" "d = take (length d) (drop k s)"
    by (auto simp: seg_ok_def)
  then show ?thesis unfolding seg_ok_def by (intro exI [of _ k]) auto
qed

lemma own_ok_append: "own_ok s p \<Longrightarrow> own_ok (s @ t) p"
  by (auto simp: own_ok_def seg_ok_append)

lemma msg_ok_append: "msg_ok s m \<Longrightarrow> msg_ok (s @ t) m"
  unfolding msg_ok_def using seg_ok_append by blast

lemma seg_ok_Nil: "k \<le> length s \<Longrightarrow> seg_ok s (seq_of k) []"
  by (auto simp: seg_ok_def)

section \<open>The sender\<close>

definition send_inv :: "bytes \<Rightarrow> Conn \<Rightarrow> bool" where
  "send_inv s c =
     (c_seq c = seq_of (length s) \<and> (\<forall>p\<in>set (c_rq c). own_ok s p) \<and> (\<forall>m\<in>set (c_out c). msg_ok s m))"

definition send_view :: "Conn \<Rightarrow> u32 \<times> RetransmitQueue \<times> EchoMsg list" where
  "send_view c = (c_seq c, c_rq c, c_out c)"

lemma send_inv_view: "send_view c' = send_view c \<Longrightarrow> send_inv s c \<Longrightarrow> send_inv s c'"
  by (simp add: send_inv_def send_view_def)

lemma send_view_simps [simp]:
  "send_view (flight_Sub c n) = send_view c" "send_view (flight_Add c n) = send_view c"
  "send_view (clearMemory c bs) = send_view c" "send_view (blockTransmit c) = send_view c"
  "send_view (unblockTransmit c) = send_view c" "send_view (updateCongestionWindow c a) = send_view c"
  "send_view (UpdateRTT now c a) = send_view c" "send_view (reset_timers c) = send_view c"
  by (auto simp: send_view_def flight_Sub_def flight_Add_def clearMemory_def blockTransmit_def
      unblockTransmit_def updateCongestionWindow_def UpdateRTT_def reset_timers_def Let_def split: option.splits)

lemma send_inv_echo:
  assumes "send_inv s c" "data = seq_ack_header sq ak @ d" "seg_ok s sq d"
  shows "send_inv s (fst (sendEchoMessage sok c data))"
  using assms by (auto simp: send_inv_def sendEchoMessage_def Let_def msg_ok_def)

lemma send_inv_ack: "send_inv s c \<Longrightarrow> send_inv s (fst (sendEchoMessage sok c (seq_ack_header (c_seq c) ak)))"
  by (rule send_inv_echo [of _ _ _ "c_seq c" ak "[]"]) (auto simp: send_inv_def intro: seg_ok_Nil)

lemma send_inv_serializeAck: "send_inv s c \<Longrightarrow> send_inv s (serializeAck sok c ak)"
  using send_inv_ack [of s "c\<lparr>c_sentAck := ak\<rparr>" sok ak]
  by (auto simp: serializeAck_def Let_def send_inv_def)

lemma send_inv_dupAck: "send_inv s c \<Longrightarrow> send_inv s (serializeDuplicateAck sok c (c_seq c) ak)"
  unfolding serializeDuplicateAck_def by (rule send_inv_ack)

lemma GetPacket_mem: "GetPacket q sq = Some p \<Longrightarrow> p \<in> set q \<and> p_PacketSeq p = sq"
  by (induction q) (auto split: if_splits)

lemma refresh_ack_ok: "own_ok s p \<Longrightarrow> own_ok s (refresh_ack ak p)"
  by (auto simp: own_ok_def refresh_ack_def seq_ack_header_def splice_def put32_def)

lemma update_first_set: "x \<in> set (update_first q sq f) \<Longrightarrow> x \<in> set q \<or> (\<exists>p\<in>set q. x = f p)"
  by (induction q) (auto split: if_splits)

lemma send_inv_retransmit: "send_inv s c \<Longrightarrow> send_inv s (retransmitMissingSegment sok c a)"
proof (cases "GetPacket (c_rq c) a")
  case (Some p)
  assume inv: "send_inv s c"
  let ?c = "c\<lparr>c_rq := update_first (c_rq c) a (refresh_ack (c_ack c))\<rparr>"
  have "own_ok s p" using GetPacket_mem [OF Some] inv by (auto simp: send_inv_def)
  then have p: "own_ok s (refresh_ack (c_ack c) p)" by (rule refresh_ack_ok)
  have c: "send_inv s ?c" using inv update_first_set refresh_ack_ok by (fastforce simp: send_inv_def)
  from p c show ?thesis
    unfolding retransmitMissingSegment_def serializeData_def Some option.case
    by (intro send_inv_echo [OF c]) (auto simp: own_ok_def)
qed (simp add: retransmitMissingSegment_def)

lemma send_inv_update:
  "send_inv s c \<Longrightarrow> send_inv s (c\<lparr>c_cwnd := x\<rparr>)" "send_inv s c \<Longrightarrow> send_inv s (c\<lparr>c_dupCnt := y\<rparr>)"
  by (simp_all add: send_inv_def)

lemma send_inv_dup: "send_inv s c \<Longrightarrow> send_inv s (fst (handleDuplicateAck sok c q p))"
proof -
  assume inv: "send_inv s c"
  have *: "send_inv s (c'\<lparr>c_cwnd := x, c_retransmit := y\<rparr>)" if "send_inv s c'" for c' x y
    using that by (simp add: send_inv_def)
  have "send_inv s (c\<lparr>c_dupCnt := x, c_recover := y, c_transmitBlocked := b, c_ssthresh := z\<rparr>)" for x y b z
    using inv by (simp add: send_inv_def)
  from send_inv_retransmit [OF this] show ?thesis
    using inv by (auto simp: handleDuplicateAck_def Let_def blockTransmit_def intro!: * send_inv_update)
qed

lemma send_inv_fast: "send_inv s c \<Longrightarrow> send_inv s (fst (doFastRetransmit sok c a))"
proof -
  assume inv: "send_inv s c"
  have "send_inv s (unblockTransmit (c\<lparr>c_cwnd := x, c_rto := y, c_retransmit := z\<rparr>))" for x y z
    using inv by (intro send_inv_view [OF send_view_simps(5)]) (simp add: send_inv_def)
  then show ?thesis
    using inv send_inv_retransmit [OF inv, of sok a]
    by (auto simp: doFastRetransmit_def Let_def intro: send_inv_update)
qed

lemma DeleteUntil_subset: "set (fst (DeleteUntil q sq)) \<subseteq> set q"
  by (auto simp: DeleteUntil_def split: option.splits prod.splits dest: in_set_dropD)

lemma send_inv_process_ack: "send_inv s c \<Longrightarrow> send_inv s (fst (process_ack sok now c p))"
proof -
  assume inv: "send_inv s c"
  obtain c1 dup where 1: "handleDuplicateAck sok c (c_seq c) p = (c1, dup)" by fastforce
  have c1: "send_inv s c1" using send_inv_dup [OF inv, of sok "c_seq c" p] 1 by simp
  let ?c2 = "UpdateRTT now (c1\<lparr>c_dupCnt := 0\<rparr>) (p_PacketAck p)"
  have c2: "send_inv s ?c2"
    using c1 by (intro send_inv_view [OF send_view_simps(7)]) (simp add: send_inv_def)
  obtain c3 fast where 3: "doFastRetransmit sok ?c2 (p_PacketAck p) = (c3, fast)" by fastforce
  have c3: "send_inv s c3" using send_inv_fast [OF c2, of sok "p_PacketAck p"] 3 by simp
  define c4 where "c4 = (if \<not> fast then updateCongestionWindow c3 (p_PacketAck p) else c3)"
  have c4: "send_inv s c4" using c3 by (auto simp: c4_def intro: send_inv_view [OF send_view_simps(6)])
  obtain rq n cl where d: "DeleteUntil (c_rq c4) (p_PacketAck p) = (rq, n, cl)" by (cases "DeleteUntil (c_rq c4) (p_PacketAck p)") auto
  have "set rq \<subseteq> set (c_rq c4)" using DeleteUntil_subset [of "c_rq c4" "p_PacketAck p"] d by simp
  then have "send_inv s (c4\<lparr>c_rq := rq\<rparr>)" using c4 by (auto simp: send_inv_def)
  then have "send_inv s (flight_Sub (clearMemory (c4\<lparr>c_rq := rq\<rparr>) cl) x)" for x
    by (rule send_inv_view [rotated]) simp
  then have "send_inv s ((flight_Sub (clearMemory (c4\<lparr>c_rq := rq\<rparr>) cl) x)\<lparr>c_prevPeerAck := y, c_peerAck := z\<rparr>)" for x y z
    by (simp add: send_inv_def)
  then show ?thesis
    using c1 c4 by (simp add: process_ack_def 1 3 c4_def [symmetric] d Let_def)
qed

section \<open>The receiver\<close>

lemma seg_ok_at:
  assumes "seg_ok s (seq_of M) d" "M \<le> length s" "length s < 2 ^ 31"
  shows "M + length d \<le> length s" "take M s @ d = take (M + length d) s"
proof -
  from assms(1) obtain k where k: "seq_of M = seq_of k" "k + length d \<le> length s" "d = take (length d) (drop k s)"
    by (auto simp: seg_ok_def)
  have "length s < 2147483648" using assms(3) by simp
  then have "M - k < 2 ^ 32" "k - M < 2 ^ 32" using k(2) assms(2) by simp_all
  then have "k = M" using seq_of_eq_iff [of M k] k(1) by blast
  then show "M + length d \<le> length s" "take M s @ d = take (M + length d) s"
    using k by (auto simp: take_add)
qed

lemma Write_open:
  assumes inv: "buffer_inv b" "\<not> b_closed b"
  shows "\<exists>b'. (Write b d = (b', Wait) \<and> b' = b) \<or>
    (Write b d = (b', Ret (Inr (length d))) \<and> buffer_inv b' \<and> \<not> b_closed b' \<and> contents b' = contents b @ d)"
proof -
  obtain b' r where w: "Write b d = (b', r)" by fastforce
  have i: "buffer_inv b'" and s: "(buf_abs b', Wrote r) = buf_spec (BWrite d) (buf_abs b)"
    using Write_refines [OF inv(1), of d] w by simp_all
  consider "d = []" | "d \<noteq> []" "length (contents b) + length d > b_size b"
    | "d \<noteq> []" "length (contents b) + length d \<le> b_size b" by linarith
  then show ?thesis
  proof cases
    case 1
    then show ?thesis using inv by (simp add: Write_def)
  next
    case 2
    then have "r = Wait" using s inv by (simp add: buf_spec_def buf_abs_def)
    then show ?thesis using w by (auto simp: Write_def Let_def split: if_splits)
  next
    case 3
    then show ?thesis using s inv w i by (auto simp: buf_spec_def buf_abs_def)
  qed
qed

definition recv_inv :: "bytes \<Rightarrow> bytes \<Rightarrow> Conn \<Rightarrow> bool" where
  "recv_inv s got c =
     ((\<forall>p\<in>set (c_ooq c). seg_ok s (p_PacketSeq p) (p_Data p)) \<and>
      (if c_ctxDone c then prefix got s
       else buffer_inv (c_readBuf c) \<and> \<not> b_closed (c_readBuf c) \<and>
            (\<exists>M \<le> length s. c_peerSeq c = seq_of M \<and> got @ contents (c_readBuf c) = take M s)))"

definition recv_view :: "Conn \<Rightarrow> buffer \<times> u32 \<times> RetransmitQueue \<times> bool \<times> bool" where
  "recv_view c = (c_readBuf c, c_peerSeq c, c_ooq c, c_ctxDone c, c_recovery c)"

lemma recv_inv_view: "recv_view c' = recv_view c \<Longrightarrow> recv_inv s got c \<Longrightarrow> recv_inv s got c'"
  by (simp add: recv_inv_def recv_view_def)

lemma recv_view_simps [simp]:
  "recv_view (flight_Sub c n) = recv_view c" "recv_view (flight_Add c n) = recv_view c"
  "recv_view (clearMemory c bs) = recv_view c" "recv_view (blockTransmit c) = recv_view c"
  "recv_view (unblockTransmit c) = recv_view c" "recv_view (updateCongestionWindow c a) = recv_view c"
  "recv_view (UpdateRTT now c a) = recv_view c" "recv_view (reset_timers c) = recv_view c"
  "recv_view (fst (sendEchoMessage sok c d)) = recv_view c" "recv_view (serializeAck sok c ak) = recv_view c"
  "recv_view (serializeDuplicateAck sok c sq ak) = recv_view c" "recv_view (serializeData sok c d) = recv_view c"
  "recv_view (sendCloseMessage sok c) = recv_view c"
  by (auto simp: recv_view_def flight_Sub_def flight_Add_def clearMemory_def blockTransmit_def
      unblockTransmit_def updateCongestionWindow_def UpdateRTT_def reset_timers_def sendEchoMessage_def
      serializeAck_def serializeDuplicateAck_def serializeData_def sendCloseMessage_def Let_def split: option.splits)

lemma recv_view_upd [simp]:
  "recv_view (c\<lparr>c_cwnd := x1\<rparr>) = recv_view c" "recv_view (c\<lparr>c_ssthresh := x1\<rparr>) = recv_view c"
  "recv_view (c\<lparr>c_rq := x3\<rparr>) = recv_view c" "recv_view (c\<lparr>c_dupCnt := x4\<rparr>) = recv_view c"
  "recv_view (c\<lparr>c_recover := x5\<rparr>) = recv_view c" "recv_view (c\<lparr>c_retransmit := x6\<rparr>) = recv_view c"
  "recv_view (c\<lparr>c_rto := x7\<rparr>) = recv_view c" "recv_view (c\<lparr>c_rtt := x8\<rparr>) = recv_view c"
  "recv_view (c\<lparr>c_peerAck := x9\<rparr>) = recv_view c" "recv_view (c\<lparr>c_prevPeerAck := x9\<rparr>) = recv_view c"
  "recv_view (c\<lparr>c_ack := x9\<rparr>) = recv_view c" "recv_view (c\<lparr>c_recvIcmpSeq := x9\<rparr>) = recv_view c"
  by (simp_all add: recv_view_def)

lemma recv_view_retransmit [simp]: "recv_view (retransmitMissingSegment sok c a) = recv_view c"
  by (simp add: retransmitMissingSegment_def split: option.splits)

lemma recv_view_dup [simp]: "recv_view (fst (handleDuplicateAck sok c q p)) = recv_view c"
  by (simp add: handleDuplicateAck_def Let_def)

lemma recv_view_fast [simp]: "recv_view (fst (doFastRetransmit sok c a)) = recv_view c"
  by (simp add: doFastRetransmit_def Let_def)

lemma recv_view_process_ack [simp]: "recv_view (fst (process_ack sok now c p)) = recv_view c"
  by (simp add: process_ack_def Let_def case_prod_unfold)

lemma send_view_upd [simp]:
  "send_view (c\<lparr>c_readBuf := x1\<rparr>) = send_view c" "send_view (c\<lparr>c_peerSeq := x2\<rparr>) = send_view c"
  "send_view (c\<lparr>c_peerAck := x2\<rparr>) = send_view c" "send_view (c\<lparr>c_ooq := x3\<rparr>) = send_view c"
  "send_view (c\<lparr>c_ack := x2\<rparr>) = send_view c" "send_view (c\<lparr>c_recovery := x4\<rparr>) = send_view c"
  "send_view (c\<lparr>c_recvIcmpSeq := x2\<rparr>) = send_view c" "send_view (c\<lparr>c_rtt := x5\<rparr>) = send_view c"
  "send_view (c\<lparr>c_cwnd := x2\<rparr>) = send_view c" "send_view (c\<lparr>c_ssthresh := x2\<rparr>) = send_view c"
  "send_view (c\<lparr>c_rto := x6\<rparr>) = send_view c" "send_view (c\<lparr>c_recover := x2\<rparr>) = send_view c"
  "send_view (c\<lparr>c_retransmit := x4\<rparr>) = send_view c" "send_view (c\<lparr>c_writeBuf := x1\<rparr>) = send_view c"
  by (simp_all add: send_view_def)

text \<open>The part of the receiver's invariant the recovery loop carries along.\<close>

definition stream_at :: "bytes \<Rightarrow> bytes \<Rightarrow> Conn \<Rightarrow> bool" where
  "stream_at s got c =
     (buffer_inv (c_readBuf c) \<and> \<not> b_closed (c_readBuf c) \<and>
      (\<exists>M \<le> length s. c_peerSeq c = seq_of M \<and> got @ contents (c_readBuf c) = take M s))"

lemma stream_at_write:
  assumes at: "stream_at s got c" and seg: "seg_ok s (c_peerSeq c) d" and s: "length s < 2 ^ 31"
    and w: "Write (c_readBuf c) d = (rb, Ret r)"
  shows "r = Inr (length d)" "stream_at s got (c\<lparr>c_readBuf := rb, c_peerSeq := c_peerSeq c + of_nat (length d)\<rparr>)"
proof -
  from at obtain M where b: "buffer_inv (c_readBuf c)" "\<not> b_closed (c_readBuf c)"
    and M: "M \<le> length s" "c_peerSeq c = seq_of M" "got @ contents (c_readBuf c) = take M s"
    by (auto simp: stream_at_def)
  from Write_open [OF b, of d] w have rb: "r = Inr (length d)" "buffer_inv rb" "\<not> b_closed rb"
    "contents rb = contents (c_readBuf c) @ d" by auto
  then show "r = Inr (length d)" by simp
  note seg' = seg_ok_at [OF seg [unfolded M(2)] M(1) s]
  have "got @ contents rb = take (M + length d) s" using rb(4) M(3) seg'(2) by (metis append_assoc)
  then show "stream_at s got (c\<lparr>c_readBuf := rb, c_peerSeq := c_peerSeq c + of_nat (length d)\<rparr>)"
    using rb seg'(1) M(2) by (auto simp: stream_at_def intro!: exI [of _ "M + length d"])
qed

lemma stream_at_peerAck [simp]: "stream_at s got (c\<lparr>c_peerAck := x\<rparr>) = stream_at s got c"
  by (simp add: stream_at_def)

lemma recover_loop:
  assumes "list_all (\<lambda>p. seg_ok s (p_PacketSeq p) (p_Data p)) ps" "length s < 2 ^ 31"
    "stream_at s got c" "ps \<noteq> [] \<Longrightarrow> p_PacketSeq (hd ps) = c_peerSeq c"
    "range_iter recover_packet ps (Ret (c, n)) = Ret (c', n')"
  shows "stream_at s got c' \<and> send_view c' = send_view c \<and> c_ooq c' = c_ooq c \<and> c_ctxDone c' = c_ctxDone c"
  using assms
proof (induction ps arbitrary: c n)
  case (Cons p ps)
  define c1 where "c1 = (if p_PacketAck p > c_peerAck c then c\<lparr>c_peerAck := p_PacketAck p\<rparr> else c)"
  define sq where "sq = (case ps of [] \<Rightarrow> 0 | e' # _ \<Rightarrow> p_PacketSeq e')"
  have c1: "stream_at s got c1" "p_PacketSeq p = c_peerSeq c1" "send_view c1 = send_view c" "c_ooq c1 = c_ooq c"
    "c_ctxDone c1 = c_ctxDone c"
    using Cons.prems by (auto simp: c1_def)
  have seg: "seg_ok s (c_peerSeq c1) (p_Data p)" using Cons.prems c1(2) by simp
  obtain rb r where w: "Write (c_readBuf c1) (p_Data p) = (rb, r)" by fastforce
  show ?case
  proof (cases r)
    case Wait
    then have "recover_packet p sq (Ret (c, n)) = (Wait, False)"
      using w by (simp add: recover_packet_def c1_def [symmetric])
    then show ?thesis using Cons.prems(5) by (simp add: sq_def)
  next
    case (Ret v)
    define c2 where "c2 = c1\<lparr>c_readBuf := rb, c_peerSeq := c_peerSeq c1 + of_nat (length (p_Data p))\<rparr>"
    note wr = stream_at_write [OF c1(1) seg Cons.prems(2) w [unfolded Ret], folded c2_def]
    have step: "recover_packet p sq (Ret (c, n)) = (Ret (c2, n + 1), sq = c_peerSeq c2)"
      using w Ret wr(1) c1(2) by (simp add: recover_packet_def c1_def [symmetric] c2_def Let_def)
    have c2: "send_view c2 = send_view c" "c_ooq c2 = c_ooq c" "c_ctxDone c2 = c_ctxDone c" using c1 by (simp_all add: c2_def)
    show ?thesis
    proof (cases "sq = c_peerSeq c2")
      case True
      have "range_iter recover_packet ps (Ret (c2, n + 1)) = Ret (c', n')"
        using Cons.prems(5) step True by (simp add: sq_def [symmetric])
      moreover have "p_PacketSeq (hd ps) = c_peerSeq c2" if "ps \<noteq> []"
        using that True by (cases ps) (auto simp: sq_def)
      ultimately show ?thesis using Cons.IH [of c2 "n + 1"] Cons.prems(1,2) wr(2) c2 by simp
    next
      case False
      then have "c' = c2" using Cons.prems(5) step by (simp add: sq_def [symmetric])
      then show ?thesis using wr(2) c2 by simp
    qed
  qed
qed simp

lemma range_start_Some:
  "range_start q sq = Some ps \<Longrightarrow> ps \<noteq> [] \<and> p_PacketSeq (hd ps) = sq \<and> set ps \<subseteq> set q"
  by (induction q) (auto split: if_splits)

lemma recv_inv_alt:
  "recv_inv s got c = ((\<forall>p\<in>set (c_ooq c). seg_ok s (p_PacketSeq p) (p_Data p)) \<and>
     (if c_ctxDone c then prefix got s else stream_at s got c))"
  by (simp add: recv_inv_def stream_at_def)

lemma recoverFromLoss_inv:
  assumes inv: "recv_inv s got c" "send_inv t c" "\<not> c_ctxDone c" and s: "length s < 2 ^ 31"
    and r: "recoverFromLoss sok c (c_peerSeq c) = Ret (c', b)"
  shows "recv_inv s got c' \<and> send_inv t c' \<and> c_ctxDone c' = c_ctxDone c"
proof -
  from r obtain c1 n where 1: "RangeFrom (c_ooq c) (c_peerSeq c) recover_packet (Ret (c, 0)) = Ret (c1, n)"
    by (auto simp: recoverFromLoss_def split: attempt.splits)
  have c1: "stream_at s got c1 \<and> send_view c1 = send_view c \<and> c_ooq c1 = c_ooq c \<and> c_ctxDone c1 = c_ctxDone c"
  proof (cases "range_start (c_ooq c) (c_peerSeq c)")
    case None
    then show ?thesis using 1 inv by (simp add: RangeFrom_def recv_inv_alt)
  next
    case (Some ps)
    then show ?thesis
      using 1 inv range_start_Some [OF Some] s
      by (intro recover_loop [of s ps got c 0 c1 n]) (auto simp: RangeFrom_def recv_inv_alt list_all_iff)
  qed
  obtain ooq x cl where d: "DeleteUntil (c_ooq c1) (c_peerSeq c1) = (ooq, x, cl)"
    by (cases "DeleteUntil (c_ooq c1) (c_peerSeq c1)") auto
  define c2 where "c2 = (clearMemory (c1\<lparr>c_ooq := ooq\<rparr>) cl)\<lparr>c_ack := c_peerSeq c1\<rparr>"
  have c': "c' = serializeAck sok c2 (c_peerSeq c1)"
    using r 1 d by (simp add: recoverFromLoss_def c2_def clearMemory_def)
  have "set ooq \<subseteq> set (c_ooq c)" using DeleteUntil_subset [of "c_ooq c1" "c_peerSeq c1"] d c1 by simp
  then have "recv_inv s got c2" using inv c1 by (auto simp: recv_inv_alt stream_at_def c2_def clearMemory_def)
  moreover have "send_view c2 = send_view c" using c1 by (simp add: c2_def)
  ultimately show ?thesis
    using send_inv_view inv(2) c1 recv_inv_view [OF recv_view_simps(10)] recv_view_simps(10) [of sok c2 "c_peerSeq c1"]
    unfolding c' by (auto intro!: send_inv_serializeAck simp: recv_view_def c2_def clearMemory_def)
qed

lemma recv_inv_put:
  assumes "recv_inv s got c" "seg_ok s (p_PacketSeq p) (p_Data p)" "Put (c_ooq c) p = (q, cl)"
  shows "recv_inv s got (c\<lparr>c_ooq := q\<rparr>)"
proof -
  have "set q \<subseteq> set (c_ooq c) \<union> {p}" using assms(3) by (auto simp: Put_def split: if_splits)
  then show ?thesis using assms(1,2) by (auto simp: recv_inv_def)
qed

lemma process_data_inv:
  assumes inv: "recv_inv s got c" "send_inv t c" "\<not> c_ctxDone c" and s: "length s < 2 ^ 31"
    and seg: "seg_ok s (p_PacketSeq p) (p_Data p)" and order: "\<not> c_recovery c \<Longrightarrow> p_PacketSeq p = c_peerSeq c"
    and r: "process_data sok c p = Ret c'"
  shows "recv_inv s got c' \<and> send_inv t c' \<and> \<not> c_ctxDone c'"
proof -
  let ?next = "\<lambda>rb. c\<lparr>c_readBuf := rb, c_peerSeq := p_PacketSeq p + of_nat (length (p_Data p))\<rparr>"
  have at: "stream_at s got c" using inv by (simp add: recv_inv_alt)
  consider (empty) "p_Data p = []" | (stash) "p_Data p \<noteq> []" "c_recovery c" "c_peerSeq c \<noteq> p_PacketSeq p"
    | (loss) "p_Data p \<noteq> []" "c_recovery c" "p_PacketSeq p = c_peerSeq c"
    | (expected) "p_Data p \<noteq> []" "\<not> c_recovery c" "p_PacketSeq p = c_peerSeq c" using order by metis
  then show ?thesis
  proof cases
    case empty
    then show ?thesis using inv r by (simp add: process_data_def)
  next
    case stash
    obtain q cl where q: "Put (c_ooq c) p = (q, cl)" by fastforce
    let ?c1 = "clearMemory (c\<lparr>c_ooq := q\<rparr>) cl"
    have c': "c' = serializeDuplicateAck sok ?c1 (c_seq ?c1) (c_sentAck ?c1)"
      using r stash q by (simp add: process_data_def Let_def)
    have "recv_inv s got ?c1" by (rule recv_inv_view [OF recv_view_simps(3) recv_inv_put [OF inv(1) seg q]])
    moreover have "send_inv t ?c1" using inv(2) by (rule send_inv_view [rotated]) simp
    moreover have "\<not> c_ctxDone ?c1" using inv(3) by (simp add: clearMemory_def)
    ultimately show ?thesis
      unfolding c' using recv_inv_view [OF recv_view_simps(11)] send_inv_dupAck
        recv_view_simps(11) [of sok ?c1 "c_seq ?c1" "c_sentAck ?c1"]
      by (auto simp: recv_view_def)
  next
    case loss
    obtain rb v where w: "Write (c_readBuf c) (p_Data p) = (rb, Ret v)"
      using r loss by (cases "Write (c_readBuf c) (p_Data p)") (auto simp: process_data_def split: attempt.splits)
    let ?c2 = "clearMemory (?next rb) [p_buffer p]"
    have "stream_at s got (?next rb)" using stream_at_write(2) [OF at _ s w] seg loss(3) by simp
    then have c2: "recv_inv s got ?c2" "send_inv t ?c2" "\<not> c_ctxDone ?c2"
      using inv by (auto simp: recv_inv_alt clearMemory_def stream_at_def send_inv_def)
    obtain c3 b where 3: "recoverFromLoss sok ?c2 (c_peerSeq ?c2) = Ret (c3, b)"
      and c': "c' = unblockTransmit (c3\<lparr>c_recovery := False\<rparr>)"
      using r loss w by (auto simp: process_data_def Let_def split: attempt.splits)
    have "recv_inv s got c3 \<and> send_inv t c3 \<and> c_ctxDone c3 = c_ctxDone ?c2"
      by (rule recoverFromLoss_inv [OF c2 s 3])
    then have "recv_inv s got (c3\<lparr>c_recovery := False\<rparr>) \<and> send_inv t (c3\<lparr>c_recovery := False\<rparr>) \<and> \<not> c_ctxDone c3"
      using c2(3) by (simp add: recv_inv_def send_inv_def)
    then show ?thesis
      unfolding c' using recv_inv_view [OF recv_view_simps(5)] send_inv_view [OF send_view_simps(5)]
        recv_view_simps(5) [of "c3\<lparr>c_recovery := False\<rparr>"] by (auto simp: recv_view_def)
  next
    case expected
    obtain rb v where w: "Write (c_readBuf c) (p_Data p) = (rb, Ret v)"
      using r expected by (cases "Write (c_readBuf c) (p_Data p)") (auto simp: process_data_def split: attempt.splits)
    have wr: "v = Inr (length (p_Data p))" "stream_at s got (?next rb)"
      using stream_at_write [OF at _ s w] seg expected(3) by simp_all
    define c2 where "c2 = clearMemory ((?next rb)\<lparr>c_ack := c_peerSeq (?next rb)\<rparr>) [p_buffer p]"
    have c2: "recv_inv s got c2" "send_inv t c2" "\<not> c_ctxDone c2"
      using wr(2) inv by (auto simp: recv_inv_alt clearMemory_def stream_at_def send_inv_def c2_def)
    have "c' = c2 \<or> c' = serializeAck sok c2 (c_peerSeq c2)"
      using r expected w wr(1) by (auto simp: process_data_def Let_def c2_def split: if_splits)
    then show ?thesis
      using c2 recv_inv_view [OF recv_view_simps(10)] send_inv_serializeAck
        recv_view_simps(10) [of sok c2 "c_peerSeq c2"] by (auto simp: recv_view_def)
  qed
qed

text \<open>A packet that passes the filters of \<^verbatim>\<open>processICMPPacket\<close> carries bytes of the stream.\<close>

definition genuine :: "bytes \<Rightarrow> Conn \<Rightarrow> Packet \<Rightarrow> bool" where
  "genuine s c p =
     (p_IcmpType p = c_wantType c \<and> p_IcmpCode p \<noteq> 255 \<and> p_IcmpEchoID p = c_icmpID c \<and>
      eHeaderSize \<le> length (p_IcmpPayload p) \<longrightarrow> seg_ok s (p_PacketSeq p) (p_Data p))"

lemma seg_seq_order:
  assumes "seg_ok s sq d" "M \<le> length s" "length s < 2 ^ 31"
  shows "isUint32SeqHigher sq (seq_of M) \<or> isUint32SeqHigher (seq_of M) sq \<or> sq = seq_of M"
proof -
  from assms(1) obtain k where k: "sq = seq_of k" "k + length d \<le> length s" by (auto simp: seg_ok_def)
  have s: "length s < 2147483648" using assms(3) by simp
  have "k < M + 2 ^ 31" "M < k + 2 ^ 31" using k(2) s assms(2) by simp_all
  from isUint32SeqHigher_iff [OF this] isUint32SeqHigher_iff [OF this(2,1)] show ?thesis
    unfolding k(1) by (metis linorder_neqE_nat)
qed

lemma processICMPPacket_inv:
  assumes inv: "recv_inv s got c" "send_inv t c" "\<not> c_ctxDone c" and s: "length s < 2 ^ 31"
    and p: "genuine s c p" and r: "processICMPPacket sok now c p = Ret (c', e)"
  shows "recv_inv s got c' \<and> send_inv t c' \<and> \<not> c_ctxDone c'"
proof -
  let ?c1 = "c\<lparr>c_recvIcmpSeq := ucast (p_IcmpSeq p)\<rparr>"
  define c2 where "c2 = (if isUint32SeqHigher (p_PacketSeq p) (c_peerSeq ?c1) \<and> \<not> c_recovery ?c1
                     then blockTransmit (?c1\<lparr>c_recovery := True\<rparr>) else ?c1)"
  have c1: "recv_inv s got ?c1" "send_inv t ?c1" "\<not> c_ctxDone ?c1" using inv by (simp_all add: recv_inv_def send_inv_def)
  have c2: "recv_inv s got c2" "send_inv t c2" "\<not> c_ctxDone c2" "c_peerSeq c2 = c_peerSeq c"
    using inv by (simp_all add: recv_inv_def send_inv_def c2_def blockTransmit_def)
  obtain c3 dup where 3: "process_ack sok now c2 p = (c3, dup)" by fastforce
  have v: "recv_view c3 = recv_view c2" using recv_view_process_ack [of sok now c2 p] 3 by simp
  have c3: "recv_inv s got c3" "send_inv t c3" "\<not> c_ctxDone c3" "c_peerSeq c3 = c_peerSeq c" "c_recovery c3 = c_recovery c2"
    using recv_inv_view [OF v c2(1)] send_inv_process_ack [OF c2(2), of sok now p] 3 v c2 by (auto simp: recv_view_def)
  have clear: "recv_inv s got (clearMemory ?c1 bs)" "send_inv t (clearMemory ?c1 bs)" "\<not> c_ctxDone (clearMemory ?c1 bs)" for bs
    using c1 by (simp_all add: clearMemory_def recv_inv_def send_inv_def)
  show ?thesis
  proof (cases "p_IcmpType p \<noteq> c_wantType c \<or> p_IcmpCode p = 255 \<or> p_IcmpEchoID p \<noteq> c_icmpID c \<or>
      length (p_IcmpPayload p) < eHeaderSize \<or> isUint32SeqHigher (c_peerSeq c) (p_PacketSeq p) \<or> dup")
    case True
    then have "c' = c \<or> c' = ?c1 \<or> c' = clearMemory ?c1 [p_buffer p] \<or> c' = c3"
      using r 3 unfolding processICMPPacket_def Let_def c2_def [symmetric]
      by (auto split: if_splits attempt.splits)
    then show ?thesis using inv c1 c3 clear by blast
  next
    case False
    then have seg: "seg_ok s (p_PacketSeq p) (p_Data p)" using p by (auto simp: genuine_def)
    from c2(1,3) obtain M where M: "M \<le> length s" "c_peerSeq c = seq_of M" using c2(4) by (auto simp: recv_inv_def)
    have order: "p_PacketSeq p = c_peerSeq c3" if "\<not> c_recovery c3"
      using seg_seq_order [OF seg M(1) s] that False M(2) c3(4,5) by (auto simp: c2_def blockTransmit_def split: if_splits)
    have "process_data sok c3 p = Ret c'"
      using r 3 False unfolding processICMPPacket_def Let_def c2_def [symmetric]
      by (auto split: if_splits attempt.splits)
    then show ?thesis using process_data_inv [OF c3(1-3) s seg order] by blast
  qed
qed

section \<open>The loops\<close>

lemma Conn_Close_inv:
  assumes "recv_inv s got c" "send_inv t c"
  shows "recv_inv s got (Conn_Close sok c) \<and> send_inv t (Conn_Close sok c)"
proof (cases "c_ctxDone c")
  case False
  then have "prefix got s" using assms(1) by (auto simp: recv_inv_def) (metis append_prefixD take_is_prefix)
  then show ?thesis
    using assms False by (auto simp: Conn_Close_def Let_def sendCloseMessage_def recv_inv_def send_inv_def msg_ok_def)
qed (use assms in \<open>simp add: Conn_Close_def\<close>)

lemma readLoop_inv:
  assumes inv: "recv_inv s got c" "send_inv t c" and s: "length s < 2 ^ 31"
    and p: "\<And>p. ev = Incoming p \<Longrightarrow> genuine s c p" and r: "readLoop_step sok now ev c = Ret c'"
  shows "recv_inv s got c' \<and> send_inv t c'"
proof (cases "c_ctxDone c")
  case True
  then show ?thesis using inv r by (simp add: readLoop_step_def)
next
  case False
  show ?thesis
  proof (cases ev)
    case RtoFired
    define c3 where "c3 = rto_backoff c"
    define c4 where "c4 = retransmitMissingSegment sok c3 (c_peerAck c3)"
    have c': "c' = unblockTransmit (c4\<lparr>c_recover := c_seq c4, c_retransmit := False\<rparr>)"
      using r False RtoFired by (simp add: readLoop_step_def rto_expired_def Let_def c3_def c4_def)
    have c3: "recv_inv s got c3" "send_inv t c3"
      using inv by (simp_all add: c3_def rto_backoff_def recv_inv_def send_inv_def Let_def)
    have "recv_inv s got c4" "send_inv t c4"
      using recv_inv_view [OF recv_view_retransmit c3(1)] send_inv_retransmit [OF c3(2)] by (simp_all add: c4_def)
    then have c5: "recv_inv s got (c4\<lparr>c_recover := c_seq c4, c_retransmit := False\<rparr>)"
      "send_inv t (c4\<lparr>c_recover := c_seq c4, c_retransmit := False\<rparr>)"
      by (simp_all add: recv_inv_def send_inv_def)
    show ?thesis
      unfolding c' using recv_inv_view [OF recv_view_simps(5) c5(1)] send_inv_view [OF send_view_simps(5) c5(2)] by blast
  next
    case AckFired
    have "c' = reset_timers c \<or> c' = reset_timers (serializeAck sok c (c_ack c))"
      using r False AckFired by (auto simp: readLoop_step_def split: if_splits)
    then show ?thesis
      using inv recv_inv_view [OF recv_view_simps(8)] send_inv_view [OF send_view_simps(8)]
        recv_inv_view [OF recv_view_simps(10) inv(1)] send_inv_serializeAck [OF inv(2)] by blast
  next
    case (Incoming p)
    obtain c1 e where 1: "processICMPPacket sok now c p = Ret (c1, e)"
      using r False Incoming by (auto simp: readLoop_step_def split: attempt.splits)
    have c1: "recv_inv s got c1 \<and> send_inv t c1 \<and> \<not> c_ctxDone c1"
      by (rule processICMPPacket_inv [OF inv False s p [OF Incoming] 1])
    have "c' = Conn_Close sok c1 \<or> c' = reset_timers c1"
      using r False Incoming 1 by (cases e) (simp_all add: readLoop_step_def)
    then show ?thesis
      using c1 Conn_Close_inv recv_inv_view [OF recv_view_simps(8)] send_inv_view [OF send_view_simps(8)] by blast
  qed
qed

lemma Read_open:
  assumes inv: "buffer_inv b" and r: "Read b n now = (b', Ret (Inr d))"
  shows "buffer_inv b'" "b_closed b' = b_closed b" "contents b = d @ contents b'"
proof -
  consider "n = 0" | "n \<noteq> 0" "read_loop b n now = (b', Ret (Inr d))" "\<not> b_closed b"
    using r by (auto simp: Read_def split: if_splits)
  then have "buffer_inv b' \<and> b_closed b' = b_closed b \<and> contents b = d @ contents b'"
  proof cases
    case 1
    then show ?thesis using r inv by (simp add: Read_def)
  next
    case 2
    note rl = read_loop_refines [OF inv, of n now, unfolded 2(2) fst_conv snd_conv]
    then show ?thesis by (auto simp: q_read_def buf_abs_def split: if_splits)
  qed
  then show "buffer_inv b'" "b_closed b' = b_closed b" "contents b = d @ contents b'" by simp_all
qed

text \<open>The bytes accepted from the application but not yet sent are in the write buffer.\<close>

definition pending_inv :: "bytes \<Rightarrow> bytes \<Rightarrow> Conn \<Rightarrow> bool" where
  "pending_inv wrote s c =
     (if c_ctxDone c then prefix s wrote
      else buffer_inv (c_writeBuf c) \<and> \<not> b_closed (c_writeBuf c) \<and> wrote = s @ contents (c_writeBuf c))"

lemma send_inv_extend:
  assumes inv: "send_inv s c" and pkt: "seg_ok (s @ d) (c_seq c) d" and q: "set q \<subseteq> set (c_rq c) \<union> {p}"
    and p: "own_ok (s @ d) p"
  shows "send_inv (s @ d) (c\<lparr>c_seq := c_seq c + of_nat (length d), c_rq := q\<rparr>)"
  using inv q p by (auto simp: send_inv_def own_ok_append msg_ok_append)

lemma writeLoop_inv:
  assumes inv: "send_inv s c" "pending_inv wrote s c" "recv_inv x got c"
    and r: "writeLoop_step sok now buf c = Ret c'"
  shows "\<exists>d. send_inv (s @ d) c' \<and> pending_inv wrote (s @ d) c' \<and> recv_inv x got c'"
proof (cases "c_ctxDone c")
  case True
  then show ?thesis using inv r by (auto simp: writeLoop_step_def intro: exI [of _ "[]"])
next
  case False
  then obtain b where so: "serializeOutboundData sok now buf c = Ret (c', b)"
    using r by (auto simp: writeLoop_step_def split: if_splits attempt.splits)
  have wb: "buffer_inv (c_writeBuf c)" "\<not> b_closed (c_writeBuf c)" "wrote = s @ contents (c_writeBuf c)"
    using inv(2) False by (auto simp: pending_inv_def)
  obtain b' v where rd: "Read (c_writeBuf c) (unat (c_emss c)) now = (b', Ret v)"
    using so by (cases "Read (c_writeBuf c) (unat (c_emss c)) now") (auto simp: serializeOutboundData_def split: attempt.splits)
  show ?thesis
  proof (cases v)
    case (Inl e)
    then have "b' = c_writeBuf c"
      using rd wb(2) by (auto simp: Read_def read_loop_def Let_def split: if_splits)
    then have "c' = clearMemory c [buf]" using so rd Inl by (simp add: serializeOutboundData_def)
    then show ?thesis
      using inv by (intro exI [of _ "[]"]) (simp add: clearMemory_def send_inv_def pending_inv_def recv_inv_def)
  next
    case (Inr d)
    note rd' = Read_open [OF wb(1) rd [unfolded Inr]]
    define pk where "pk = emptyPacket\<lparr>p_PacketSeq := c_seq c, p_PacketAck := c_ack c,
      p_IcmpPayload := seq_ack_header (c_seq c) (c_ack c) @ d, p_Data := d, p_buffer := buf\<rparr>"
    obtain q cl where q: "Put (c_rq c) pk = (q, cl)" by fastforce
    have sub: "set q \<subseteq> set (c_rq c) \<union> {pk}" using q by (auto simp: Put_def split: if_splits)
    have sq: "c_seq c = seq_of (length s)" using inv(1) by (simp add: send_inv_def)
    have seg: "seg_ok (s @ d) (c_seq c) d" unfolding sq by (auto simp: seg_ok_def intro!: exI [of _ "length s"])
    have own: "own_ok (s @ d) pk" using seg by (simp add: own_ok_def pk_def)
    define c3 where "c3 = clearMemory ((flight_Add (c\<lparr>c_writeBuf := b', c_sentAck := c_ack c,
      c_seq := c_seq c + of_nat (length d)\<rparr>) (of_nat (length d)))\<lparr>c_rq := q\<rparr>) cl"
    have c3: "send_view c3 = send_view (c\<lparr>c_seq := c_seq c + of_nat (length d), c_rq := q\<rparr>)"
      "recv_view c3 = recv_view c" "c_writeBuf c3 = b'" "c_ctxDone c3 = c_ctxDone c"
      by (simp_all add: c3_def send_view_def recv_view_def clearMemory_def flight_Add_def)
    have s3: "send_inv (s @ d) c3"
      by (rule send_inv_view [OF c3(1) send_inv_extend [OF inv(1) seg sub own]])
    define c4 where "c4 = fst (sendEchoMessage sok c3 (seq_ack_header (c_seq c) (c_ack c) @ d))"
    have "c' = c4 \<or> c' = c4\<lparr>c_rtoSeq := Some (now, c_seq c4)\<rparr>"
    proof -
      have rq: "c_rq (flight_Add (c\<lparr>c_writeBuf := b', c_sentAck := c_ack c, c_seq := c_seq c + of_nat (length d)\<rparr>) (of_nat (length d))) = c_rq c"
        by (simp add: flight_Add_def)
      show ?thesis
        using so unfolding serializeOutboundData_def rd Inr prod.case attempt.case sum.case Let_def rq
          pk_def [symmetric] q c3_def [symmetric]
        by (auto simp: c4_def pk_def case_prod_unfold split: if_splits)
    qed
    then have same: "send_view c' = send_view c4" "recv_view c' = recv_view c4" "c_writeBuf c' = c_writeBuf c4"
      "c_ctxDone c' = c_ctxDone c4"
      by (auto simp: send_view_def recv_view_def)
    have "send_inv (s @ d) c4" unfolding c4_def by (rule send_inv_echo [OF s3 refl seg])
    then have 1: "send_inv (s @ d) c'" by (rule send_inv_view [OF same(1)])
    have "recv_view c' = recv_view c" using c3(2) same(2) by (simp add: c4_def)
    then have 2: "recv_inv x got c'" using inv(3) by (rule recv_inv_view)
    have "c_writeBuf c' = b'" "\<not> c_ctxDone c'"
      using c3(3,4) same(3,4) False by (simp_all add: c4_def sendEchoMessage_def Let_def)
    then have "pending_inv wrote (s @ d) c'" using wb rd' by (simp add: pending_inv_def)
    with 1 2 show ?thesis by blast
  qed
qed

end
