(* ===== verification/Icmp_System.thy ===== *)
theory Icmp_System
  imports Icmp_Stream
begin

text \<open>
  Two endpoints of the ICMP transport joined by an unreliable network, as a step relation, and
  the end-to-end theorem: what one application reads is a prefix of what the other wrote.
\<close>

section \<open>Two endpoints and a network\<close>

text \<open>
  The two endpoints are indexed by a truth value. \<open>sys_wrote i\<close> are the bytes the application
  of endpoint \<open>i\<close> has written, \<open>sys_got i\<close> the bytes it has read. The network holds every
  message an endpoint ever sent and delivers any of them at any time, any number of times.
\<close>

record system =
  sys_conn :: "bool \<Rightarrow> Conn"
  sys_wrote :: "bool \<Rightarrow> bytes"
  sys_got :: "bool \<Rightarrow> bytes"

text \<open>The packet the listener decodes when message \<open>m\<close> arrives behind an IPv4 header.\<close>

definition carries :: "EchoMsg \<Rightarrow> Packet \<Rightarrow> bool" where
  "carries m p =
     (\<exists>hdr ck buf. 20 \<le> length hdr \<and> length hdr = 4 * (unat (hdr ! 0) mod 16) \<and> length ck = 2 \<and>
        Unmarshal (emptyPacket\<lparr>p_buffer := buf\<rparr>)
          (hdr @ [m_Type m, m_Code m] @ ck @ put16 (m_ID m) @ put16 (ucast (m_Seq m)) @ m_Data m) = Inr p)"

inductive sys_step :: "system \<Rightarrow> system \<Rightarrow> bool" where
  app_write: "Conn_Write (sys_conn s i) b = (c', Ret (Inr n)) \<Longrightarrow>
     sys_step s (s\<lparr>sys_conn := (sys_conn s)(i := c'), sys_wrote := (sys_wrote s)(i := sys_wrote s i @ take n b)\<rparr>)"
| app_read: "Conn_Read (sys_conn s i) n now = (c', Ret (Inr d)) \<Longrightarrow>
     sys_step s (s\<lparr>sys_conn := (sys_conn s)(i := c'), sys_got := (sys_got s)(i := sys_got s i @ d)\<rparr>)"
| app_close: "sys_step s (s\<lparr>sys_conn := (sys_conn s)(i := Conn_Close sok (sys_conn s i))\<rparr>)"
| send: "writeLoop_step sok now buf (sys_conn s i) = Ret c' \<Longrightarrow>
     sys_step s (s\<lparr>sys_conn := (sys_conn s)(i := c')\<rparr>)"
| timer: "ev \<in> {RtoFired, AckFired} \<Longrightarrow> readLoop_step sok now ev (sys_conn s i) = Ret c' \<Longrightarrow>
     sys_step s (s\<lparr>sys_conn := (sys_conn s)(i := c')\<rparr>)"
| deliver: "m \<in> set (c_out (sys_conn s (\<not> i))) \<Longrightarrow> carries m p \<Longrightarrow>
     readLoop_step sok now (Incoming p) (sys_conn s i) = Ret c' \<Longrightarrow>
     sys_step s (s\<lparr>sys_conn := (sys_conn s)(i := c')\<rparr>)"
| noise: "p_IcmpType p \<noteq> c_wantType (sys_conn s i) \<or> p_IcmpEchoID p \<noteq> c_icmpID (sys_conn s i) \<Longrightarrow>
     readLoop_step sok now (Incoming p) (sys_conn s i) = Ret c' \<Longrightarrow>
     sys_step s (s\<lparr>sys_conn := (sys_conn s)(i := c')\<rparr>)"

inductive_cases sys_stepE: "sys_step s s'"

definition sys_init :: "nat \<Rightarrow> u16 \<Rightarrow> system" where
  "sys_init mss icmpID =
     \<lparr>sys_conn = (\<lambda>i. newConnection mss i icmpID), sys_wrote = (\<lambda>_. []), sys_got = (\<lambda>_. [])\<rparr>"

lemma carries_fields:
  assumes "carries m p"
  shows "p_IcmpCode p = m_Code m" "p_IcmpPayload p = m_Data m" "p_IcmpType p = m_Type m" "p_IcmpEchoID p = m_ID m"
    "m_Data m = seq_ack_header sq ak @ d \<Longrightarrow> p_PacketSeq p = sq \<and> p_PacketAck p = ak \<and> p_Data p = d"
proof -
  from assms obtain hdr ck buf where h: "20 \<le> length hdr" "length hdr = 4 * (unat (hdr ! 0) mod 16)" "length ck = 2"
    and u: "Unmarshal (emptyPacket\<lparr>p_buffer := buf\<rparr>)
          (hdr @ [m_Type m, m_Code m] @ ck @ put16 (m_ID m) @ put16 (ucast (m_Seq m)) @ m_Data m) = Inr p"
    by (auto simp: carries_def)
  define p0 where "p0 = emptyPacket\<lparr>p_buffer := buf\<rparr>"
  define p1 where "p1 = p0\<lparr>p_IPSrc := take 4 (drop 12 hdr), p_IPDst := take 4 (drop 16 hdr), p_IcmpType := m_Type m,
     p_IcmpCode := m_Code m, p_IcmpEchoID := m_ID m, p_IcmpSeq := ucast (m_Seq m), p_IcmpPayload := m_Data m\<rparr>"
  have p: "p = (if length (m_Data m) < 8 then p1 else p1\<lparr>p_PacketSeq := get32 (m_Data m) 0,
      p_PacketAck := get32 (m_Data m) 4, p_Data := drop 8 (m_Data m)\<rparr>)"
    using u unfolding p0_def [symmetric] Unmarshal_echo [OF h] p1_def [symmetric] by (simp split: if_splits)
  then show "p_IcmpCode p = m_Code m" "p_IcmpPayload p = m_Data m" "p_IcmpType p = m_Type m" "p_IcmpEchoID p = m_ID m"
    by (simp_all add: p1_def)
  show "p_PacketSeq p = sq \<and> p_PacketAck p = ak \<and> p_Data p = d" if "m_Data m = seq_ack_header sq ak @ d"
    using that p by (simp add: seq_ack_header_def get32_append get32_put32)
qed

lemma deliver_genuine: "msg_ok s m \<Longrightarrow> carries m p \<Longrightarrow> genuine s c p"
  using carries_fields [of m p] by (auto simp: genuine_def msg_ok_def)

definition sys_inv :: "(bool \<Rightarrow> bytes) \<Rightarrow> system \<Rightarrow> bool" where
  "sys_inv sent s =
     (\<forall>i. send_inv (sent i) (sys_conn s i) \<and> pending_inv (sys_wrote s i) (sent i) (sys_conn s i) \<and>
          recv_inv (sent (\<not> i)) (sys_got s i) (sys_conn s i))"

lemma recv_inv_append:
  assumes "recv_inv s got c"
  shows "recv_inv (s @ d) got c"
proof -
  have "\<exists>M' \<le> length (s @ d). x = seq_of M' \<and> y = take M' (s @ d)"
    if M: "\<exists>M \<le> length s. x = seq_of M \<and> y = take M s" for x y
  proof -
    from M obtain M where "M \<le> length s" "x = seq_of M" "y = take M s" by blast
    then show ?thesis by (intro exI [of _ M]) simp
  qed
  then show ?thesis using assms by (auto simp: recv_inv_def seg_ok_append prefix_append)
qed

lemma sys_inv_update:
  assumes inv: "sys_inv sent s"
    and new: "send_inv (sent i @ d) c'" "pending_inv (sys_wrote s i) (sent i @ d) c'" "recv_inv (sent (\<not> i)) (sys_got s i) c'"
  shows "sys_inv (sent(i := sent i @ d)) (s\<lparr>sys_conn := (sys_conn s)(i := c')\<rparr>)"
proof -
  have "recv_inv (sent i) (sys_got s (\<not> i)) (sys_conn s (\<not> i))"
    using inv [unfolded sys_inv_def, rule_format, of "\<not> i"] by simp
  from recv_inv_append [OF this] show ?thesis using inv new by (auto simp: sys_inv_def)
qed

lemma sys_inv_app:
  assumes inv: "sys_inv sent s" and new: "send_inv (sent i) c'" "pending_inv w (sent i) c'" "recv_inv (sent (\<not> i)) g c'"
  shows "sys_inv sent (s\<lparr>sys_conn := (sys_conn s)(i := c'), sys_wrote := (sys_wrote s)(i := w), sys_got := (sys_got s)(i := g)\<rparr>)"
proof -
  have "recv_inv (sent i) (sys_got s (\<not> i)) (sys_conn s (\<not> i))"
    using inv [unfolded sys_inv_def, rule_format, of "\<not> i"] by simp
  then show ?thesis using inv new by (auto simp: sys_inv_def)
qed

lemma pending_length: "pending_inv w s c \<Longrightarrow> length s \<le> length w"
  by (auto simp: pending_inv_def dest: prefix_length_le split: if_splits)

lemma pending_Close: "pending_inv w s c \<Longrightarrow> pending_inv w s (Conn_Close sok c)"
  by (auto simp: pending_inv_def Conn_Close_def Let_def sendCloseMessage_def)

definition app_view :: "Conn \<Rightarrow> buffer \<times> bool" where
  "app_view c = (c_writeBuf c, c_ctxDone c)"

lemma pending_view: "app_view c' = app_view c \<Longrightarrow> pending_inv w s c' = pending_inv w s c"
  by (simp add: pending_inv_def app_view_def)

lemma app_view_upd [simp]:
  "app_view (c\<lparr>c_cwnd := x1\<rparr>) = app_view c" "app_view (c\<lparr>c_ssthresh := x1\<rparr>) = app_view c"
  "app_view (c\<lparr>c_rq := x3\<rparr>) = app_view c" "app_view (c\<lparr>c_dupCnt := x4\<rparr>) = app_view c"
  "app_view (c\<lparr>c_recover := x5\<rparr>) = app_view c" "app_view (c\<lparr>c_retransmit := x6\<rparr>) = app_view c"
  "app_view (c\<lparr>c_rto := x7\<rparr>) = app_view c" "app_view (c\<lparr>c_rtt := x8\<rparr>) = app_view c"
  "app_view (c\<lparr>c_peerAck := x9\<rparr>) = app_view c" "app_view (c\<lparr>c_prevPeerAck := x9\<rparr>) = app_view c"
  "app_view (c\<lparr>c_ack := x9\<rparr>) = app_view c" "app_view (c\<lparr>c_recvIcmpSeq := x9\<rparr>) = app_view c"
  "app_view (c\<lparr>c_ooq := x3\<rparr>) = app_view c" "app_view (c\<lparr>c_peerSeq := x9\<rparr>) = app_view c"
  "app_view (c\<lparr>c_readBuf := x10\<rparr>) = app_view c" "app_view (c\<lparr>c_recovery := x6\<rparr>) = app_view c"
  "app_view (c\<lparr>c_sentAck := x9\<rparr>) = app_view c" "app_view (c\<lparr>c_nextIcmpSeq := x9\<rparr>) = app_view c"
  "app_view (c\<lparr>c_flight := x9\<rparr>) = app_view c" "app_view (c\<lparr>c_cleared := x11\<rparr>) = app_view c"
  "app_view (c\<lparr>c_transmitBlocked := x6\<rparr>) = app_view c" "app_view (c\<lparr>c_out := x12\<rparr>) = app_view c"
  "app_view (c\<lparr>c_ackBytesCount := x9\<rparr>) = app_view c" "app_view (c\<lparr>c_rttvar := x8\<rparr>) = app_view c"
  "app_view (c\<lparr>c_rtoSeq := x13\<rparr>) = app_view c" "app_view (c\<lparr>c_ackTimer := x7\<rparr>) = app_view c"
  by (simp_all add: app_view_def)

lemma app_view_simps [simp]:
  "app_view (flight_Sub c n) = app_view c"
  "app_view (clearMemory c bs) = app_view c" "app_view (blockTransmit c) = app_view c"
  "app_view (unblockTransmit c) = app_view c" "app_view (updateCongestionWindow c a) = app_view c"
  "app_view (UpdateRTT now c a) = app_view c" "app_view (reset_timers c) = app_view c"
  "app_view (fst (sendEchoMessage sok c d)) = app_view c" 
  by (simp_all add: flight_Sub_def clearMemory_def blockTransmit_def
      unblockTransmit_def updateCongestionWindow_def UpdateRTT_def reset_timers_def sendEchoMessage_def
      Let_def split: option.splits prod.splits)

lemma app_view_serialize [simp]:
  "app_view (serializeAck sok c ak) = app_view c"
  "app_view (serializeDuplicateAck sok c sq ak) = app_view c" "app_view (serializeData sok c d) = app_view c"
  by (simp_all add: serializeAck_def serializeDuplicateAck_def serializeData_def Let_def)

lemma app_view_reno [simp]:
  "app_view (retransmitMissingSegment sok c a) = app_view c"
  "app_view (fst (handleDuplicateAck sok c q p)) = app_view c"
  "app_view (fst (doFastRetransmit sok c a)) = app_view c"
  by (simp_all add: retransmitMissingSegment_def handleDuplicateAck_def doFastRetransmit_def Let_def split: option.splits)

lemma app_view_process_ack [simp]: "app_view (fst (process_ack sok now c p)) = app_view c"
  by (simp add: process_ack_def Let_def case_prod_unfold)

lemma app_view_recover_packet:
  "recover_packet p sq (Ret (c, n)) = (Ret (c', n'), go) \<Longrightarrow> app_view c' = app_view c"
  by (auto simp: recover_packet_def Let_def split: prod.splits attempt.splits sum.splits if_splits)

lemma range_iter_Wait: "range_iter recover_packet ps Wait = Wait"
  by (cases ps) (simp_all add: recover_packet_def)

lemma app_view_range:
  "range_iter recover_packet ps (Ret (c, n)) = Ret (c', n') \<Longrightarrow> app_view c' = app_view c"
proof (induction ps arbitrary: c n)
  case (Cons p ps)
  obtain st go where st: "recover_packet p (case ps of [] \<Rightarrow> 0 | e' # _ \<Rightarrow> p_PacketSeq e') (Ret (c, n)) = (st, go)" by fastforce
  show ?case
  proof (cases st)
    case Wait
    then show ?thesis using Cons.prems st range_iter_Wait by (auto split: if_splits)
  next
    case (Ret x)
    obtain c1 n1 where x: "x = (c1, n1)" by fastforce
    have "app_view c1 = app_view c" using app_view_recover_packet st Ret x by blast
    then show ?thesis using Cons Ret x st by (auto split: if_splits)
  qed
qed simp

lemma app_view_recoverFromLoss: "recoverFromLoss sok c q = Ret (c', b) \<Longrightarrow> app_view c' = app_view c"
  by (auto simp: recoverFromLoss_def RangeFrom_def Let_def split: attempt.splits option.splits prod.splits dest!: app_view_range)

lemma app_view_process_data: "process_data sok c p = Ret c' \<Longrightarrow> app_view c' = app_view c"
  by (auto simp: process_data_def Let_def split: if_splits attempt.splits prod.splits sum.splits dest!: app_view_recoverFromLoss)

lemma app_view_process: "processICMPPacket sok now c p = Ret (c', e) \<Longrightarrow> app_view c' = app_view c"
proof -
  assume r: "processICMPPacket sok now c p = Ret (c', e)"
  let ?c1 = "c\<lparr>c_recvIcmpSeq := ucast (p_IcmpSeq p)\<rparr>"
  define c2 where "c2 = (if isUint32SeqHigher (p_PacketSeq p) (c_peerSeq ?c1) \<and> \<not> c_recovery ?c1
                     then blockTransmit (?c1\<lparr>c_recovery := True\<rparr>) else ?c1)"
  obtain c3 dup where 3: "process_ack sok now c2 p = (c3, dup)" by fastforce
  have "app_view c2 = app_view c" by (simp add: c2_def)
  then have c3: "app_view c3 = app_view c" using app_view_process_ack [of sok now c2 p, unfolded 3] by simp
  have "c' = c \<or> c' = ?c1 \<or> c' = clearMemory ?c1 [p_buffer p] \<or> c' = c3 \<or> process_data sok c3 p = Ret c'"
    using r 3 unfolding processICMPPacket_def Let_def c2_def [symmetric]
    by (auto split: if_splits attempt.splits)
  then show ?thesis using c3 app_view_process_data by fastforce
qed

lemma readLoop_writeBuf:
  assumes "readLoop_step sok now ev c = Ret c'"
  shows "app_view c' = app_view c \<or> (\<exists>c1. c' = Conn_Close sok c1 \<and> app_view c1 = app_view c)"
proof (cases "c_ctxDone c")
  case True
  then show ?thesis using assms by (simp add: readLoop_step_def)
next
  case False
  show ?thesis
  proof (cases ev)
    case RtoFired
    then show ?thesis using assms False by (auto simp: readLoop_step_def rto_expired_def rto_backoff_def Let_def)
  next
    case AckFired
    then show ?thesis using assms False by (auto simp: readLoop_step_def)
  next
    case (Incoming p)
    obtain c1 e where 1: "processICMPPacket sok now c p = Ret (c1, e)"
      using assms False Incoming by (auto simp: readLoop_step_def split: attempt.splits)
    have "c' = Conn_Close sok c1 \<or> c' = reset_timers c1"
      using assms False Incoming 1 by (cases e) (simp_all add: readLoop_step_def)
    then show ?thesis using app_view_process [OF 1] by auto
  qed
qed

lemma read_step:
  assumes inv: "sys_inv sent s" "\<And>i. length (sys_wrote s i) < 2 ^ 31"
    and r: "readLoop_step sok now ev (sys_conn s i) = Ret c'"
    and p: "\<And>p. ev = Incoming p \<Longrightarrow> genuine (sent (\<not> i)) (sys_conn s i) p"
  shows "\<exists>sent'. sys_inv sent' (s\<lparr>sys_conn := (sys_conn s)(i := c')\<rparr>)"
proof -
  have i: "send_inv (sent i) (sys_conn s i)" "pending_inv (sys_wrote s i) (sent i) (sys_conn s i)"
    "recv_inv (sent (\<not> i)) (sys_got s i) (sys_conn s i)" "pending_inv (sys_wrote s (\<not> i)) (sent (\<not> i)) (sys_conn s (\<not> i))"
    using inv(1) by (auto simp: sys_inv_def)
  have "length (sent (\<not> i)) < 2 ^ 31" using pending_length [OF i(4)] inv(2) [of "\<not> i"] by simp
  from readLoop_inv [OF i(3,1) this p r] have "recv_inv (sent (\<not> i)) (sys_got s i) c' \<and> send_inv (sent i) c'" by blast
  moreover have "pending_inv (sys_wrote s i) (sent i) c'"
    using readLoop_writeBuf [OF r] i(2) pending_Close pending_view by metis
  ultimately show ?thesis using sys_inv_update [OF inv(1), of i "[]" c'] by auto
qed

lemma sys_step_inv:
  assumes "sys_step s s'" "sys_inv sent s" "\<And>i. length (sys_wrote s i) < 2 ^ 31"
  shows "\<exists>sent'. sys_inv sent' s'"
  using assms
proof (cases rule: sys_step.cases)
  case (app_write i b c' n)
  let ?c = "sys_conn s i"
  have inv: "send_inv (sent i) ?c" "pending_inv (sys_wrote s i) (sent i) ?c" "recv_inv (sent (\<not> i)) (sys_got s i) ?c"
    using assms(2) by (auto simp: sys_inv_def)
  have live: "\<not> c_ctxDone ?c" using app_write(2) by (auto simp: Conn_Write_def)
  then have wb: "buffer_inv (c_writeBuf ?c)" "\<not> b_closed (c_writeBuf ?c)" using inv(2) by (auto simp: pending_inv_def)
  obtain b' where w: "Write (c_writeBuf ?c) b = (b', Ret (Inr n))" and c': "c' = ?c\<lparr>c_writeBuf := b'\<rparr>"
    using app_write(2) live by (auto simp: Conn_Write_def split: prod.splits)
  have n: "n = length b" "buffer_inv b'" "\<not> b_closed b'" "contents b' = contents (c_writeBuf ?c) @ b"
    using Write_open [OF wb, of b] w by auto
  have "send_inv (sent i) c'" "pending_inv (sys_wrote s i @ b) (sent i) c'" "recv_inv (sent (\<not> i)) (sys_got s i) c'"
    using inv live n unfolding c' by (auto simp: send_inv_def pending_inv_def recv_inv_def)
  from sys_inv_app [OF assms(2) this] show ?thesis unfolding app_write(1) using n(1) by auto
next
  case (app_read i n now c' d)
  let ?c = "sys_conn s i"
  have inv: "send_inv (sent i) ?c" "pending_inv (sys_wrote s i) (sent i) ?c" "recv_inv (sent (\<not> i)) (sys_got s i) ?c"
    using assms(2) by (auto simp: sys_inv_def)
  have live: "\<not> c_ctxDone ?c" using app_read(2) by (auto simp: Conn_Read_def)
  then have rb: "buffer_inv (c_readBuf ?c)" using inv(3) by (auto simp: recv_inv_def)
  obtain b' where w: "Read (c_readBuf ?c) n now = (b', Ret (Inr d))" and c': "c' = ?c\<lparr>c_readBuf := b'\<rparr>"
    using app_read(2) live by (auto simp: Conn_Read_def split: prod.splits)
  note rd = Read_open [OF rb w]
  have "send_inv (sent i) c'" "pending_inv (sys_wrote s i) (sent i) c'" "recv_inv (sent (\<not> i)) (sys_got s i @ d) c'"
    using inv live rd unfolding c' by (auto simp: send_inv_def pending_inv_def recv_inv_def)
  from sys_inv_app [OF assms(2) this] show ?thesis unfolding app_read(1) by auto
next
  case (app_close i sok)
  let ?c = "sys_conn s i"
  have inv: "send_inv (sent i) ?c" "pending_inv (sys_wrote s i) (sent i) ?c" "recv_inv (sent (\<not> i)) (sys_got s i) ?c"
    using assms(2) by (auto simp: sys_inv_def)
  have "pending_inv (sys_wrote s i) (sent i) (Conn_Close sok ?c)" using pending_Close [OF inv(2)] .
  then show ?thesis
    using sys_inv_update [OF assms(2), of i "[]"] Conn_Close_inv [OF inv(3,1), of sok] unfolding app_close(1) by auto
next
  case (send sok now buf i c')
  have inv: "send_inv (sent i) (sys_conn s i)" "pending_inv (sys_wrote s i) (sent i) (sys_conn s i)"
    "recv_inv (sent (\<not> i)) (sys_got s i) (sys_conn s i)"
    using assms(2) by (auto simp: sys_inv_def)
  obtain d where "send_inv (sent i @ d) c'" "pending_inv (sys_wrote s i) (sent i @ d) c'"
    "recv_inv (sent (\<not> i)) (sys_got s i) c'"
    using writeLoop_inv [OF inv send(2)] by blast
  from sys_inv_update [OF assms(2) this] show ?thesis unfolding send(1) by blast
next
  case (timer ev sok now i c')
  show ?thesis unfolding timer(1) by (rule read_step [OF assms(2,3) timer(3)]) (use timer(2) in auto)
next
  case (deliver m i p sok now c')
  have "msg_ok (sent (\<not> i)) m" using assms(2) deliver(2) by (auto simp: sys_inv_def send_inv_def)
  then have "genuine (sent (\<not> i)) (sys_conn s i) p" using deliver(3) by (rule deliver_genuine)
  then show ?thesis unfolding deliver(1) by (intro read_step [OF assms(2,3) deliver(4)]) auto
next
  case (noise p i sok now c')
  then have "genuine (sent (\<not> i)) (sys_conn s i) p" by (auto simp: genuine_def)
  then show ?thesis unfolding noise(1) by (intro read_step [OF assms(2,3) noise(3)]) auto
qed

lemma sys_init_inv: "sys_inv (\<lambda>_. []) (sys_init mss eid)"
proof -
  have b: "buffer_inv (newBuffer (2 ^ 18))" "contents (newBuffer (2 ^ 18)) = []" "\<not> b_closed (newBuffer (2 ^ 18))"
    using newBuffer_inv [of 18] by (simp_all add: buf_abs_def)
  then show ?thesis
    by (simp add: sys_inv_def sys_init_def newConnection_def initNewReno_def send_inv_def pending_inv_def
        recv_inv_def NewRetransmitQueue_def)
qed

lemma sys_step_wrote: "sys_step s s' \<Longrightarrow> length (sys_wrote s i) \<le> length (sys_wrote s' i)"
  by (induction rule: sys_step.induct) auto

lemma sys_reach_inv:
  assumes "sys_step\<^sup>*\<^sup>* (sys_init mss eid) s" "\<And>i. length (sys_wrote s i) < 2 ^ 31"
  shows "\<exists>sent. sys_inv sent s"
  using assms
proof (induction rule: rtranclp_induct)
  case base
  show ?case using sys_init_inv by blast
next
  case (step s s')
  have "length (sys_wrote s i) < 2 ^ 31" for i
    using sys_step_wrote [OF step.hyps(2), of i] step.prems [of i] by linarith
  from step.IH [OF this] sys_step_inv [OF step.hyps(2) _ this] show ?case by blast
qed

section \<open>A lossless exchange\<close>

lemma Write_fits:
  assumes "buffer_inv b" "\<not> b_closed b" "length (contents b) + length d \<le> b_size b"
  shows "\<exists>b'. Write b d = (b', Ret (Inr (length d))) \<and> buffer_inv b' \<and> \<not> b_closed b' \<and>
    contents b' = contents b @ d \<and> b_readDeadline b' = b_readDeadline b"
proof -
  obtain b' r where w: "Write b d = (b', r)" by fastforce
  have "buffer_inv b'" "(buf_abs b', Wrote r) = buf_spec (BWrite d) (buf_abs b)"
    using Write_refines [OF assms(1), of d] w by simp_all
  then show ?thesis using assms w by (auto simp: buf_spec_def buf_abs_def split: if_splits)
qed

lemma Read_all:
  assumes "buffer_inv b" "\<not> b_closed b" "b_readDeadline b = None" "contents b \<noteq> []" "length (contents b) \<le> n"
  shows "\<exists>b'. Read b n now = (b', Ret (Inr (contents b)))"
proof -
  obtain b' r where w: "read_loop b n now = (b', r)" by fastforce
  have "(buf_abs b', r) = q_read (buf_abs b) n now" using read_loop_refines(2) [OF assms(1), of n now] w by simp
  then have "r = Ret (Inr (contents b))" using assms by (simp add: q_read_def buf_abs_def)
  moreover have "n \<noteq> 0" using assms by (cases n) auto
  ultimately show ?thesis using assms w by (simp add: Read_def isDeadlineExceeded_def)
qed

lemma newBuffer_fresh:
  "buffer_inv (newBuffer (2 ^ 18))" "contents (newBuffer (2 ^ 18)) = []" "\<not> b_closed (newBuffer (2 ^ 18))"
  "b_readDeadline (newBuffer (2 ^ 18)) = None" "b_size (newBuffer (2 ^ 18)) = 2 ^ 18"
  using newBuffer_inv [of 18] by (simp_all add: buf_abs_def)

text \<open>Every message can be carried by an IPv4 packet.\<close>

lemma carries_ex: "\<exists>p. carries m p"
proof -
  define hdr :: bytes where "hdr = 0x45 # replicate 19 0"
  have hdr: "20 \<le> length hdr" "length hdr = 4 * (unat (hdr ! 0) mod 16)" by (simp_all add: hdr_def)
  have ck: "length [0, 0 :: byte] = 2" by simp
  have "\<exists>p. Unmarshal (emptyPacket\<lparr>p_buffer := 0\<rparr>)
      (hdr @ [m_Type m, m_Code m] @ [0, 0] @ put16 (m_ID m) @ put16 (ucast (m_Seq m)) @ m_Data m) = Inr p"
    unfolding Unmarshal_echo [OF hdr ck] by simp
  then show ?thesis using hdr ck unfolding carries_def by blast
qed

lemma fresh_sends:
  assumes d: "d \<noteq> []" "length d \<le> unat (of_nat (mss - eHeaderSize) :: u32)" and b: "buffer_inv b" "\<not> b_closed b" "contents b = d" "b_readDeadline b = None"
  shows "\<exists>c'. writeLoop_step True now buf ((newConnection mss i eid)\<lparr>c_writeBuf := b\<rparr>) = Ret c' \<and>
    c_out c' = [\<lparr>m_Type = (if i then ICMPTypeEchoReply else ICMPTypeEcho), m_Code = 0, m_ID = eid, m_Seq = 0,
                m_Data = seq_ack_header 0 0 @ d\<rparr>]"
proof -
  obtain b' where r: "Read b (unat (of_nat (mss - eHeaderSize) :: u32)) now = (b', Ret (Inr d))"
    using Read_all [of b "unat (of_nat (mss - eHeaderSize) :: u32)" now] assms by auto
  show ?thesis
    unfolding writeLoop_step_def serializeOutboundData_def
    by (simp add: newConnection_def initNewReno_def waitTransmit_blocks_def WaitCwnd_blocks_def r Let_def
        case_prod_unfold sendEchoMessage_def clearMemory_def flight_Add_def)
qed

lemma fresh_receives:
  assumes p: "p_IcmpType p = (if i then ICMPTypeEcho else ICMPTypeEchoReply)" "p_IcmpCode p = 0" "p_IcmpEchoID p = eid"
    "8 \<le> length (p_IcmpPayload p)" "p_PacketSeq p = 0" "p_PacketAck p = 0" "p_Data p = d"
    and d: "d \<noteq> []" "length d \<le> 2 ^ 18"
  shows "\<exists>c'. readLoop_step True now (Incoming p) (newConnection mss i eid) = Ret c' \<and> \<not> c_ctxDone c' \<and>
    buffer_inv (c_readBuf c') \<and> \<not> b_closed (c_readBuf c') \<and> contents (c_readBuf c') = d \<and> b_readDeadline (c_readBuf c') = None"
proof -
  let ?c = "newConnection mss i eid"
  obtain b where w: "Write (newBuffer (2 ^ 18)) d = (b, Ret (Inr (length d)))" "buffer_inv b" "\<not> b_closed b"
    "contents b = d" "b_readDeadline b = None"
    using Write_fits [OF newBuffer_fresh(1,3), of d] d newBuffer_fresh by auto
  have fields: "c_wantType ?c = (if i then ICMPTypeEcho else ICMPTypeEchoReply)" "c_icmpID ?c = eid" "c_peerSeq ?c = 0"
    "\<not> c_ctxDone ?c"
    by (simp_all add: newConnection_def initNewReno_def)
  have hi: "\<not> isUint32SeqHigher 0 0" by (simp add: isUint32SeqHigher_def)
  obtain c3 where 3: "process_ack True now (?c\<lparr>c_recvIcmpSeq := ucast (p_IcmpSeq p)\<rparr>) p = (c3, False)"
    using d p by (auto simp: process_ack_def handleDuplicateAck_def Let_def case_prod_unfold)
  have v: "recv_view c3 = recv_view ?c"
    using recv_view_process_ack [of True now "?c\<lparr>c_recvIcmpSeq := ucast (p_IcmpSeq p)\<rparr>" p] 3 by simp
  then have c3: "c_readBuf c3 = newBuffer (2 ^ 18)" "c_peerSeq c3 = 0" "\<not> c_ctxDone c3" "\<not> c_recovery c3"
    by (simp_all add: recv_view_def newConnection_def initNewReno_def)
  define c2 where "c2 = clearMemory ((c3\<lparr>c_readBuf := b, c_peerSeq := p_PacketSeq p + of_nat (length (p_Data p))\<rparr>)
      \<lparr>c_ack := p_PacketSeq p + of_nat (length (p_Data p))\<rparr>) [p_buffer p]"
  have "process_data True c3 p = (if uint32SeqDiff (c_peerSeq c2) (c_sentAck c2) < 2 * c_emss c2 then Ret c2
      else Ret (serializeAck True c2 (c_peerSeq c2)))"
    unfolding process_data_def c3(1) p(7) w(1) using c3 d by (simp add: c2_def p(7) Let_def)
  then obtain c4 where 4: "process_data True c3 p = Ret c4" "recv_view c4 = recv_view c2"
    by (auto split: if_splits)
  have "recv_view c2 = (b, c_peerSeq c2, c_ooq c2, c_ctxDone c3, c_recovery c2)"
    by (simp add: recv_view_def c2_def clearMemory_def)
  with 4(2) have v4: "c_readBuf c4 = b" "\<not> c_ctxDone c4" using c3(3) by (simp_all add: recv_view_def)
  have "processICMPPacket True now ?c p = Ret (c4, Inr ())"
    using p hi 3 4(1) fields by (simp add: processICMPPacket_def Let_def eHeaderSize_def)
  then have "readLoop_step True now (Incoming p) ?c = Ret (reset_timers c4)"
    using fields by (simp add: readLoop_step_def)
  moreover have "recv_view (reset_timers c4) = recv_view c4" by simp
  ultimately show ?thesis using w v4 by (auto simp: recv_view_def)
qed

lemma icmp_exchange:
  assumes "d \<noteq> []" "length d \<le> mss - 8" "length d \<le> 2 ^ 18" "mss < 2 ^ 32"
  shows "\<exists>s. sys_step\<^sup>*\<^sup>* (sys_init mss eid) s \<and> sys_wrote s i = d \<and> sys_wrote s (\<not> i) = [] \<and> sys_got s (\<not> i) = d"
proof -
  let ?s0 = "sys_init mss eid" and ?c = "newConnection mss i eid"
  let ?m = "\<lparr>m_Type = (if i then ICMPTypeEchoReply else ICMPTypeEcho), m_Code = 0, m_ID = eid, m_Seq = 0,
     m_Data = seq_ack_header 0 0 @ d\<rparr>"
  have conn: "sys_conn ?s0 j = newConnection mss j eid" for j by (simp add: sys_init_def)
  obtain b where w: "Write (newBuffer (2 ^ 18)) d = (b, Ret (Inr (length d)))" "buffer_inv b" "\<not> b_closed b"
    "contents b = d" "b_readDeadline b = None"
    using Write_fits [OF newBuffer_fresh(1,3), of d] assms newBuffer_fresh by auto
  have fresh: "c_writeBuf ?c = newBuffer (2 ^ 18)" "\<not> c_ctxDone ?c"
    unfolding newConnection_def initNewReno_def by simp_all
  define s1 where "s1 = ?s0\<lparr>sys_conn := (sys_conn ?s0)(i := ?c\<lparr>c_writeBuf := b\<rparr>), sys_wrote := (sys_wrote ?s0)(i := sys_wrote ?s0 i @ take (length d) d)\<rparr>"
  have 1: "sys_step ?s0 s1" unfolding s1_def
    by (rule sys_step.app_write) (simp add: conn Conn_Write_def fresh(2), simp only: fresh w(1) prod.case)
  have "length d \<le> unat (of_nat (mss - eHeaderSize) :: u32)"
    using assms by (simp add: eHeaderSize_def unat_of_nat_eq)
  from fresh_sends [OF assms(1) this w(2-5)] obtain c2 where
    2: "writeLoop_step True 0 0 (?c\<lparr>c_writeBuf := b\<rparr>) = Ret c2" "c_out c2 = [?m]" by blast
  define s2 where "s2 = s1\<lparr>sys_conn := (sys_conn s1)(i := c2)\<rparr>"
  have 3: "sys_step s1 s2" unfolding s2_def by (rule sys_step.send [of True 0 0]) (simp add: s1_def 2(1))
  obtain p where car: "carries ?m p" using carries_ex by blast
  note f = carries_fields [OF car]
  have "p_IcmpType p = (if \<not> i then ICMPTypeEcho else ICMPTypeEchoReply)" "p_IcmpCode p = 0" "p_IcmpEchoID p = eid"
    "8 \<le> length (p_IcmpPayload p)" "p_PacketSeq p = 0" "p_PacketAck p = 0" "p_Data p = d"
    using f(1-4) f(5) [of 0 0 d] by (simp_all add: seq_ack_header_def)
  from fresh_receives [OF this assms(1,3)] obtain c3 where
    c3: "readLoop_step True 0 (Incoming p) (newConnection mss (\<not> i) eid) = Ret c3" "\<not> c_ctxDone c3"
      "buffer_inv (c_readBuf c3)" "\<not> b_closed (c_readBuf c3)" "contents (c_readBuf c3) = d" "b_readDeadline (c_readBuf c3) = None" by blast
  define s3 where "s3 = s2\<lparr>sys_conn := (sys_conn s2)(\<not> i := c3)\<rparr>"
  have 4: "sys_step s2 s3" unfolding s3_def
    by (rule sys_step.deliver [of ?m _ _ p True 0]) (use 2(2) car c3(1) in \<open>auto simp: s2_def s1_def conn\<close>)
  obtain b4 where r4: "Read (c_readBuf c3) (length d) 0 = (b4, Ret (Inr d))"
    using Read_all [of "c_readBuf c3" "length d" 0] c3 assms(1) by auto
  define s4 where "s4 = s3\<lparr>sys_conn := (sys_conn s3)(\<not> i := c3\<lparr>c_readBuf := b4\<rparr>), sys_got := (sys_got s3)(\<not> i := sys_got s3 (\<not> i) @ d)\<rparr>"
  have 5: "sys_step s3 s4" unfolding s4_def
    by (rule sys_step.app_read [of _ _ "length d" 0]) (simp add: s3_def Conn_Read_def c3(2) r4)
  have "sys_step\<^sup>*\<^sup>* ?s0 s1" using 1 by (rule r_into_rtranclp)
  then have "sys_step\<^sup>*\<^sup>* ?s0 s2" using 3 by (rule rtranclp.rtrancl_into_rtrancl)
  then have "sys_step\<^sup>*\<^sup>* ?s0 s3" using 4 by (rule rtranclp.rtrancl_into_rtrancl)
  then have "sys_step\<^sup>*\<^sup>* ?s0 s4" using 5 by (rule rtranclp.rtrancl_into_rtrancl)
  moreover have "sys_wrote s4 i = d" "sys_wrote s4 (\<not> i) = []" "sys_got s4 (\<not> i) = d" by (simp_all add: s4_def s3_def s2_def s1_def sys_init_def)
  ultimately show ?thesis by blast
qed

lemma received_prefix:
  assumes "sys_step\<^sup>*\<^sup>* (sys_init mss eid) s" "\<forall>i. length (sys_wrote s i) < 2 ^ 31"
  shows "prefix (sys_got s (\<not> i)) (sys_wrote s i)"
proof -
  from sys_reach_inv [OF assms(1)] assms(2) obtain sent where inv: "sys_inv sent s" by blast
  have r: "recv_inv (sent i) (sys_got s (\<not> i)) (sys_conn s (\<not> i))"
    using inv [unfolded sys_inv_def, rule_format, of "\<not> i"] by simp
  have p: "pending_inv (sys_wrote s i) (sent i) (sys_conn s i)" using inv by (simp add: sys_inv_def)
  have "prefix (sys_got s (\<not> i)) (sent i)"
    using r by (auto simp: recv_inv_def split: if_splits) (metis append_prefixD take_is_prefix)
  moreover have "prefix (sent i) (sys_wrote s i)" using p by (auto simp: pending_inv_def split: if_splits)
  ultimately show ?thesis by (rule prefix_order.trans)
qed

section \<open>End-to-end properties\<close>



text \<open>
  C20. The transport can deliver: from the initial state, data that fits one segment and the
  buffers, written at either endpoint, reaches the application of the other.
\<close>

theorem icmp_can_deliver:
  assumes "d \<noteq> []" "length d \<le> mss - 8" "length d \<le> 2 ^ 18" "mss < 2 ^ 32"
  shows "\<exists>s. sys_step\<^sup>*\<^sup>* (sys_init mss eid) s \<and> sys_wrote s i = d \<and> sys_got s (\<not> i) = d"
  using icmp_exchange [OF assms] by blast

theorem icmp_can_deliver_witness:
  "\<exists>s. sys_step\<^sup>*\<^sup>* (sys_init 1480 7) s \<and> sys_wrote s False = [4, 5] \<and> sys_got s (\<not> False) = [4, 5]"
  by (rule icmp_can_deliver) simp_all

end
