(* ===== verification/Icmp_Reno.thy ===== *)
theory Icmp_Reno
  imports Icmp_System
begin

text \<open>
  Invariants of the loss recovery of the ICMP transport (\<^verbatim>\<open>reno.go\<close>, \<^verbatim>\<open>rtt.go\<close>): when the
  writer is held back, and the bounds of the timeouts.
\<close>

section \<open>The transmit gate\<close>

definition gate_view :: "Conn \<Rightarrow> bool \<times> bool \<times> bool" where
  "gate_view c = (c_transmitBlocked c, c_retransmit c, c_recovery c)"

definition gate_inv :: "Conn \<Rightarrow> bool" where
  "gate_inv c = (c_transmitBlocked c = (c_retransmit c \<or> c_recovery c))"

lemma gate_inv_view: "gate_view c' = gate_view c \<Longrightarrow> gate_inv c' = gate_inv c"
  by (simp add: gate_view_def gate_inv_def)

lemma gate_view_upd [simp]:
  "gate_view (c\<lparr>c_cwnd := x1\<rparr>) = gate_view c" "gate_view (c\<lparr>c_ssthresh := x1\<rparr>) = gate_view c"
  "gate_view (c\<lparr>c_rq := x3\<rparr>) = gate_view c" "gate_view (c\<lparr>c_dupCnt := x4\<rparr>) = gate_view c"
  "gate_view (c\<lparr>c_recover := x5\<rparr>) = gate_view c" "gate_view (c\<lparr>c_writeBuf := x10\<rparr>) = gate_view c"
  "gate_view (c\<lparr>c_rto := x7\<rparr>) = gate_view c" "gate_view (c\<lparr>c_rtt := x8\<rparr>) = gate_view c"
  "gate_view (c\<lparr>c_peerAck := x9\<rparr>) = gate_view c" "gate_view (c\<lparr>c_prevPeerAck := x9\<rparr>) = gate_view c"
  "gate_view (c\<lparr>c_ack := x9\<rparr>) = gate_view c" "gate_view (c\<lparr>c_recvIcmpSeq := x9\<rparr>) = gate_view c"
  "gate_view (c\<lparr>c_ooq := x3\<rparr>) = gate_view c" "gate_view (c\<lparr>c_peerSeq := x9\<rparr>) = gate_view c"
  "gate_view (c\<lparr>c_readBuf := x10\<rparr>) = gate_view c" "gate_view (c\<lparr>c_seq := x9\<rparr>) = gate_view c"
  "gate_view (c\<lparr>c_sentAck := x9\<rparr>) = gate_view c" "gate_view (c\<lparr>c_nextIcmpSeq := x9\<rparr>) = gate_view c"
  "gate_view (c\<lparr>c_flight := x9\<rparr>) = gate_view c" "gate_view (c\<lparr>c_cleared := x11\<rparr>) = gate_view c"
  "gate_view (c\<lparr>c_ctxDone := x6\<rparr>) = gate_view c" "gate_view (c\<lparr>c_out := x12\<rparr>) = gate_view c"
  "gate_view (c\<lparr>c_ackBytesCount := x9\<rparr>) = gate_view c" "gate_view (c\<lparr>c_rttvar := x8\<rparr>) = gate_view c"
  "gate_view (c\<lparr>c_rtoSeq := x13\<rparr>) = gate_view c" "gate_view (c\<lparr>c_ackTimer := x7\<rparr>) = gate_view c"
  by (simp_all add: gate_view_def)

lemma gate_view_simps [simp]:
  "gate_view (flight_Sub c n) = gate_view c" "gate_view (flight_Add c n) = gate_view c"
  "gate_view (clearMemory c bs) = gate_view c"
  "gate_view (updateCongestionWindow c a) = gate_view c"
  "gate_view (UpdateRTT now c a) = gate_view c" "gate_view (reset_timers c) = gate_view c"
  "gate_view (fst (sendEchoMessage sok c d)) = gate_view c" "gate_view (sendCloseMessage sok c) = gate_view c"
  by (simp_all add: flight_Sub_def flight_Add_def clearMemory_def sendCloseMessage_def
      updateCongestionWindow_def UpdateRTT_def reset_timers_def sendEchoMessage_def
      Let_def split: option.splits prod.splits)

lemma gate_view_serialize [simp]:
  "gate_view (serializeAck sok c ak) = gate_view c"
  "gate_view (serializeDuplicateAck sok c sq ak) = gate_view c" "gate_view (serializeData sok c d) = gate_view c"
  "gate_view (retransmitMissingSegment sok c a) = gate_view c" "gate_view (Conn_Close sok c) = gate_view c"
  by (simp_all add: serializeAck_def serializeDuplicateAck_def serializeData_def retransmitMissingSegment_def
      Conn_Close_def Let_def split: option.splits)

lemma gate_unblock: "c_transmitBlocked c \<or> gate_inv c \<Longrightarrow> gate_inv (unblockTransmit c)"
  by (auto simp: gate_inv_def unblockTransmit_def)

lemma gate_fields:
  "gate_view c' = gate_view c \<Longrightarrow> c_transmitBlocked c' = c_transmitBlocked c \<and> c_retransmit c' = c_retransmit c \<and> c_recovery c' = c_recovery c"
  by (simp add: gate_view_def)

lemma gate_dup: "gate_inv c \<Longrightarrow> gate_inv (fst (handleDuplicateAck sok c q p))"
proof -
  assume inv: "gate_inv c"
  have r: "c_transmitBlocked (retransmitMissingSegment sok c' a) = c_transmitBlocked c'" for c' a
    using gate_fields [OF gate_view_serialize(4)] by blast
  show ?thesis
    using inv by (auto simp: handleDuplicateAck_def Let_def blockTransmit_def gate_inv_def r)
qed

lemma gate_fast: "gate_inv c \<Longrightarrow> gate_inv (fst (doFastRetransmit sok c a))"
proof -
  assume inv: "gate_inv c"
  have 1: "gate_inv (retransmitMissingSegment sok c a)" using inv gate_inv_view [OF gate_view_serialize(4)] by blast
  have 2: "gate_inv (unblockTransmit (c\<lparr>c_cwnd := x, c_rto := y, c_retransmit := False\<rparr>))" if "c_retransmit c" for x y
    using inv that by (intro gate_unblock) (simp add: gate_inv_def)
  show ?thesis using inv 1 2 by (auto simp: doFastRetransmit_def Let_def gate_inv_def)
qed

lemma gate_process_ack: "gate_inv c \<Longrightarrow> gate_inv (fst (process_ack sok now c p))"
proof -
  assume inv: "gate_inv c"
  obtain c1 dup where 1: "handleDuplicateAck sok c (c_seq c) p = (c1, dup)" by fastforce
  have c1: "gate_inv c1" using gate_dup [OF inv, of sok "c_seq c" p] 1 by simp
  let ?c2 = "UpdateRTT now (c1\<lparr>c_dupCnt := 0\<rparr>) (p_PacketAck p)"
  have c2: "gate_inv ?c2" using c1 gate_inv_view [of ?c2 c1] by simp
  obtain c3 fast where 3: "doFastRetransmit sok ?c2 (p_PacketAck p) = (c3, fast)" by fastforce
  have c3: "gate_inv c3" using gate_fast [OF c2, of sok "p_PacketAck p"] 3 by simp
  have *: "gate_inv c'" if "gate_view c' = gate_view c3" for c' using c3 gate_inv_view [OF that] by simp
  show ?thesis
    using c1 by (auto simp: process_ack_def 1 3 Let_def case_prod_unfold intro!: *)
qed

lemma gate_view_range:
  "range_iter recover_packet ps (Ret (c, n)) = Ret (c', n') \<Longrightarrow> gate_view c' = gate_view c"
proof (induction ps arbitrary: c n)
  case (Cons p ps)
  obtain st go where st: "recover_packet p (case ps of [] \<Rightarrow> 0 | e' # _ \<Rightarrow> p_PacketSeq e') (Ret (c, n)) = (st, go)" by fastforce
  show ?case
  proof (cases st)
    case Wait
    then show ?thesis using Cons.prems st range_iter_Wait by (auto split: if_splits)
  next
    case (Ret x)
    obtain c1 n1 where x: "x = (c1, n1)" by fastforce
    have "gate_view c1 = gate_view c"
      using st Ret x by (auto simp: recover_packet_def Let_def split: prod.splits attempt.splits sum.splits if_splits)
    then show ?thesis using Cons Ret x st by (auto split: if_splits)
  qed
qed simp

lemma gate_view_recoverFromLoss: "recoverFromLoss sok c q = Ret (c', b) \<Longrightarrow> gate_view c' = gate_view c"
  by (auto simp: recoverFromLoss_def RangeFrom_def Let_def split: attempt.splits option.splits prod.splits dest!: gate_view_range)

lemma gate_process_data:
  assumes inv: "gate_inv c" and r: "process_data sok c p = Ret c'"
  shows "gate_inv c'"
proof (cases "p_Data p \<noteq> [] \<and> c_recovery c \<and> c_peerSeq c = p_PacketSeq p")
  case True
  obtain rb v where w: "Write (c_readBuf c) (p_Data p) = (rb, Ret v)"
    using r True by (cases "Write (c_readBuf c) (p_Data p)") (auto simp: process_data_def split: attempt.splits)
  let ?c2 = "clearMemory (c\<lparr>c_readBuf := rb, c_peerSeq := p_PacketSeq p + of_nat (length (p_Data p))\<rparr>) [p_buffer p]"
  obtain c3 b where 3: "recoverFromLoss sok ?c2 (c_peerSeq ?c2) = Ret (c3, b)"
    and c': "c' = unblockTransmit (c3\<lparr>c_recovery := False\<rparr>)"
    using r True w by (auto simp: process_data_def Let_def split: attempt.splits)
  have "gate_view c3 = gate_view c" using gate_view_recoverFromLoss [OF 3] by simp
  then have "c_transmitBlocked (c3\<lparr>c_recovery := False\<rparr>)" using inv True by (simp add: gate_inv_def gate_view_def)
  then show ?thesis unfolding c' by (simp add: gate_unblock)
next
  case False
  then have "gate_view c' = gate_view c"
    using r by (auto simp: process_data_def Let_def split: if_splits attempt.splits prod.splits sum.splits)
  then show ?thesis using inv gate_inv_view by blast
qed

lemma gate_process:
  assumes inv: "gate_inv c" and r: "processICMPPacket sok now c p = Ret (c', e)"
  shows "gate_inv c'"
proof -
  let ?c1 = "c\<lparr>c_recvIcmpSeq := ucast (p_IcmpSeq p)\<rparr>"
  define c2 where "c2 = (if isUint32SeqHigher (p_PacketSeq p) (c_peerSeq ?c1) \<and> \<not> c_recovery ?c1
                     then blockTransmit (?c1\<lparr>c_recovery := True\<rparr>) else ?c1)"
  have c2: "gate_inv c2" using inv by (auto simp: c2_def gate_inv_def blockTransmit_def)
  obtain c3 dup where 3: "process_ack sok now c2 p = (c3, dup)" by fastforce
  have c3: "gate_inv c3" using gate_process_ack [OF c2, of sok now p] 3 by simp
  have "gate_view c' = gate_view c \<or> c' = c3 \<or> process_data sok c3 p = Ret c'"
    using r 3 unfolding processICMPPacket_def Let_def c2_def [symmetric]
    by (auto split: if_splits attempt.splits)
  then show ?thesis using inv c3 gate_process_data gate_inv_view by blast
qed

lemma gate_readLoop:
  assumes inv: "gate_inv c" and r: "readLoop_step sok now ev c = Ret c'"
  shows "gate_inv c'"
proof (cases "c_ctxDone c")
  case True
  then show ?thesis using inv r by (simp add: readLoop_step_def)
next
  case False
  show ?thesis
  proof (cases ev)
    case RtoFired
    define c4 where "c4 = retransmitMissingSegment sok (rto_backoff c) (c_peerAck (rto_backoff c))"
    have "gate_view c4 = gate_view c" by (simp add: c4_def rto_backoff_def Let_def)
    then have "c_transmitBlocked (c4\<lparr>c_recover := c_seq c4, c_retransmit := False\<rparr>) \<or>
        gate_inv (c4\<lparr>c_recover := c_seq c4, c_retransmit := False\<rparr>)" using inv by (auto simp: gate_inv_def gate_view_def)
    moreover have "c' = unblockTransmit (c4\<lparr>c_recover := c_seq c4, c_retransmit := False\<rparr>)"
      using r False RtoFired by (simp add: readLoop_step_def rto_expired_def Let_def c4_def)
    ultimately show ?thesis using gate_unblock by blast
  next
    case AckFired
    then have "gate_view c' = gate_view c" using r False by (auto simp: readLoop_step_def)
    then show ?thesis using inv gate_inv_view by blast
  next
    case (Incoming p)
    obtain c1 e where 1: "processICMPPacket sok now c p = Ret (c1, e)"
      using r False Incoming by (auto simp: readLoop_step_def split: attempt.splits)
    have "gate_view c' = gate_view c1"
      using r False Incoming 1 by (cases e) (auto simp: readLoop_step_def)
    then show ?thesis using gate_process [OF inv 1] gate_inv_view by blast
  qed
qed

lemma gate_view_writeLoop: "writeLoop_step sok now buf c = Ret c' \<Longrightarrow> gate_view c' = gate_view c"
proof -
  assume r: "writeLoop_step sok now buf c = Ret c'"
  have echo: "gate_view c2 = gate_view c1" if "sendEchoMessage sok c1 d = (c2, b)" for c1 c2 d b
    using gate_view_simps(7) [of sok c1 d] that by simp
  show ?thesis
    using r unfolding writeLoop_step_def serializeOutboundData_def
    by (auto simp: Let_def split: if_splits attempt.splits prod.splits sum.splits dest!: echo)
qed



section \<open>Timeouts\<close>



end
