(* ===== verification/Go_Std.thy ===== *)
theory Go_Std
  imports Prelude
begin

text \<open>
  The parts of Go's standard library that the STUN code calls: number formatting of
  \<^verbatim>\<open>fmt\<close>, rune decoding and encoding of \<^verbatim>\<open>unicode/utf8\<close>, \<^verbatim>\<open>unicode.IsSpace\<close>, the checksum of
  \<^verbatim>\<open>hash/crc32\<close>, the hashes \<^verbatim>\<open>crypto/sha1\<close> and \<^verbatim>\<open>crypto/sha256\<close> behind the interface
  \<^verbatim>\<open>hash.Hash\<close>, and \<^verbatim>\<open>crypto/hmac\<close>. A Go string is a byte list.
\<close>

section \<open>Formatting of numbers\<close>

text \<open>The verb \<^verbatim>\<open>%d\<close>, and \<^verbatim>\<open>%04x\<close> and \<^verbatim>\<open>%x\<close> of a 16-bit number.\<close>

definition digit :: "nat \<Rightarrow> char" where
  "digit n = (if n < 10 then char_of (48 + n) else char_of (87 + n))"

fun show_nat :: "nat \<Rightarrow> string" where
  "show_nat n = (if n < 10 then [digit n] else show_nat (n div 10) @ [digit (n mod 10)])"

declare show_nat.simps [simp del]

definition show_int :: "int \<Rightarrow> string" where
  "show_int i = (if i < 0 then ''-'' @ show_nat (nat (- i)) else show_nat (nat i))"

definition hex4 :: "u16 \<Rightarrow> string" where
  "hex4 w = map (\<lambda>i. digit (unat w div 16 ^ i mod 16)) [3, 2, 1, 0]"

definition hex :: "u16 \<Rightarrow> string" where
  "hex w = (let s = dropWhile (\<lambda>c. c = CHR ''0'') (hex4 w) in if s = [] then ''0'' else s)"

text \<open>\<open>fmt.Errorf("msg: %w", err)\<close>: an error with a prefix; a panic stays a panic.\<close>

definition wrap :: "string \<Rightarrow> 'a result \<Rightarrow> 'a result" where
  "wrap s r = (case r of Inl (Err e) \<Rightarrow> Inl (Err (s @ '': '' @ e)) | _ \<Rightarrow> r)"

lemma wrap_simps [simp, go_simps]:
  "wrap s (Inr v) = Inr v"
  "wrap s (Inl (Err e)) = Inl (Err (s @ '': '' @ e))"
  "wrap s (Inl Panic) = Inl Panic"
  by (simp_all add: wrap_def)

lemma wrap_Inr_iff [go_simps]: "wrap s r = Inr v \<longleftrightarrow> r = Inr v"
  by (auto simp: wrap_def split: sum.splits go_error.splits)

lemma wrap_Panic_iff [go_simps]: "wrap s r = Inl Panic \<longleftrightarrow> r = Inl Panic"
  by (auto simp: wrap_def split: sum.splits go_error.splits)

text \<open>The error of \<^verbatim>\<open>io.ReadFull\<close> when only \<open>rest\<close> was left to read.\<close>

definition eof :: "bytes \<Rightarrow> 'a result" where
  "eof rest = Inl (Err (if rest = [] then ''EOF'' else ''unexpected EOF''))"

section \<open>Runes\<close>

text \<open>
  \<open>DecodeRune\<close> is \<^verbatim>\<open>utf8.DecodeRuneInString\<close>: the code point and its width; an invalid or
  truncated sequence is \<^verbatim>\<open>RuneError\<close> (U+FFFD) of width one.
\<close>

definition cont :: "nat \<Rightarrow> bool" where
  "cont b \<longleftrightarrow> 0x80 \<le> b \<and> b \<le> 0xBF"

definition second_ok :: "nat \<Rightarrow> nat \<Rightarrow> bool" where
  "second_ok b0 b1 \<longleftrightarrow>
     (if b0 = 0xE0 then 0xA0 \<le> b1 \<and> b1 \<le> 0xBF
      else if b0 = 0xED then 0x80 \<le> b1 \<and> b1 \<le> 0x9F
      else if b0 = 0xF0 then 0x90 \<le> b1 \<and> b1 \<le> 0xBF
      else if b0 = 0xF4 then 0x80 \<le> b1 \<and> b1 \<le> 0x8F
      else cont b1)"

definition RuneError :: nat where
  "RuneError = 0xFFFD"

definition DecodeRune :: "bytes \<Rightarrow> nat \<times> nat" where
  "DecodeRune s =
     (case map unat s of
        [] \<Rightarrow> (RuneError, 0)
      | b0 # bs \<Rightarrow>
          if b0 < 0x80 then (b0, 1)
          else if 0xC2 \<le> b0 \<and> b0 \<le> 0xDF then
            (case bs of b1 # _ \<Rightarrow>
               if cont b1 then ((b0 - 0xC0) * 64 + (b1 - 0x80), 2) else (RuneError, 1)
             | _ \<Rightarrow> (RuneError, 1))
          else if 0xE0 \<le> b0 \<and> b0 \<le> 0xEF then
            (case bs of b1 # b2 # _ \<Rightarrow>
               if second_ok b0 b1 \<and> cont b2
               then ((b0 - 0xE0) * 4096 + (b1 - 0x80) * 64 + (b2 - 0x80), 3) else (RuneError, 1)
             | _ \<Rightarrow> (RuneError, 1))
          else if 0xF0 \<le> b0 \<and> b0 \<le> 0xF4 then
            (case bs of b1 # b2 # b3 # _ \<Rightarrow>
               if second_ok b0 b1 \<and> cont b2 \<and> cont b3
               then ((b0 - 0xF0) * 262144 + (b1 - 0x80) * 4096 + (b2 - 0x80) * 64 + (b3 - 0x80), 4)
               else (RuneError, 1)
             | _ \<Rightarrow> (RuneError, 1))
          else (RuneError, 1))"

text \<open>\<open>strings.Builder.WriteRune\<close>, for the valid code points that the decoder returns.\<close>

definition EncodeRune :: "nat \<Rightarrow> bytes" where
  "EncodeRune r = map of_nat
     (if r < 0x80 then [r]
      else if r < 0x800 then [0xC0 + r div 64, 0x80 + r mod 64]
      else if r < 0x10000 then [0xE0 + r div 4096, 0x80 + r div 64 mod 64, 0x80 + r mod 64]
      else [0xF0 + r div 262144, 0x80 + r div 4096 mod 64, 0x80 + r div 64 mod 64, 0x80 + r mod 64])"

definition IsSpace :: "nat \<Rightarrow> bool" where
  "IsSpace r \<longleftrightarrow>
     r \<in> {0x09, 0x0A, 0x0B, 0x0C, 0x0D, 0x20, 0x85, 0xA0, 0x1680, 0x2028, 0x2029, 0x202F, 0x205F, 0x3000}
     \<or> (0x2000 \<le> r \<and> r \<le> 0x200A)"

lemma DecodeRune_width: "s \<noteq> [] \<Longrightarrow> 1 \<le> snd (DecodeRune s)"
  by (cases s) (auto simp: DecodeRune_def split: list.splits)

section \<open>Checksums and hashes\<close>

text \<open>\<open>crc32.ChecksumIEEE\<close>, bit by bit.\<close>

definition crc_bit :: "u32 \<Rightarrow> u32" where
  "crc_bit c = (if bit c 0 then drop_bit 1 c XOR 0xEDB88320 else drop_bit 1 c)"

definition ChecksumIEEE :: "bytes \<Rightarrow> u32" where
  "ChecksumIEEE bs = NOT (foldl (\<lambda>c b. (crc_bit ^^ 8) (c XOR ucast b)) 0xFFFFFFFF bs)"

text \<open>The message padding and the word schedule that both hashes use.\<close>

definition md_pad :: "bytes \<Rightarrow> bytes" where
  "md_pad m = m @ [0x80] @ replicate ((119 - length m mod 64) mod 64) 0 @ put64 (of_nat (8 * length m))"

fun chunks64 :: "bytes \<Rightarrow> bytes list" where
  "chunks64 m = (if m = [] then [] else take 64 m # chunks64 (drop 64 m))"

declare chunks64.simps [simp del]

definition block_words :: "bytes \<Rightarrow> u32 list" where
  "block_words c = map (\<lambda>i. get32 c (4 * i)) [0..<16]"

fun expand :: "(u32 list \<Rightarrow> u32) \<Rightarrow> nat \<Rightarrow> u32 list \<Rightarrow> u32 list" where
  "expand f 0 ws = ws"
| "expand f (Suc k) ws = expand f k (ws @ [f ws])"

definition at_back :: "'a list \<Rightarrow> nat \<Rightarrow> 'a" where
  "at_back ws k = ws ! (length ws - k)"

type_synonym sha1_state = "u32 \<times> u32 \<times> u32 \<times> u32 \<times> u32"

definition sha1_round :: "sha1_state \<Rightarrow> nat \<times> u32 \<Rightarrow> sha1_state" where
  "sha1_round s tw =
     (let (a, b, c, d, e) = s; (t, w) = tw;
          (f, k) = (if t < 20 then ((b AND c) OR (NOT b AND d), 0x5A827999)
                    else if t < 40 then (b XOR c XOR d, 0x6ED9EBA1)
                    else if t < 60 then ((b AND c) OR (b AND d) OR (c AND d), 0x8F1BBCDC)
                    else (b XOR c XOR d, 0xCA62C1D6))
      in (word_rotl 5 a + f + e + k + w, a, word_rotl 30 b, c, d))"

definition sha1_block :: "sha1_state \<Rightarrow> bytes \<Rightarrow> sha1_state" where
  "sha1_block s blk =
     (let ws = expand (\<lambda>ws. word_rotl 1 (at_back ws 3 XOR at_back ws 8 XOR at_back ws 14 XOR at_back ws 16))
                 64 (block_words blk);
          (a, b, c, d, e) = s; (a', b', c', d', e') = foldl sha1_round s (zip [0..<80] ws)
      in (a + a', b + b', c + c', d + d', e + e'))"

definition sha1_sum :: "bytes \<Rightarrow> bytes" where
  "sha1_sum m =
     (let (a, b, c, d, e) = foldl sha1_block (0x67452301, 0xEFCDAB89, 0x98BADCFE, 0x10325476, 0xC3D2E1F0)
                              (chunks64 (md_pad m))
      in put32 a @ put32 b @ put32 c @ put32 d @ put32 e)"

text \<open>
  The constants of SHA-256 are the first 32 bits of the fractional parts of roots of the first
  primes: cube roots for the rounds, square roots for the initial state. \<open>root_bits k n i r\<close>
  finds the integer \<open>k\<close>-th root of \<open>n\<close> bit by bit.
\<close>

fun root_bits :: "nat \<Rightarrow> int \<Rightarrow> nat \<Rightarrow> int \<Rightarrow> int" where
  "root_bits k n 0 r = r"
| "root_bits k n (Suc i) r = root_bits k n i (if (r + 2 ^ i) ^ k \<le> n then r + 2 ^ i else r)"

definition root_fraction :: "nat \<Rightarrow> nat \<Rightarrow> u32" where
  "root_fraction k p = of_int (root_bits k (int p * 2 ^ (32 * k)) 40 0)"

definition primes_below :: "nat \<Rightarrow> nat list" where
  "primes_below n = filter (\<lambda>p. list_all (\<lambda>d. p mod d \<noteq> 0) [2..<p]) [2..<n]"

definition sha256_K :: "u32 list" where
  "sha256_K = map (root_fraction 3) (primes_below 312)"

type_synonym sha256_state = "u32 \<times> u32 \<times> u32 \<times> u32 \<times> u32 \<times> u32 \<times> u32 \<times> u32"

definition sha256_round :: "sha256_state \<Rightarrow> u32 \<times> u32 \<Rightarrow> sha256_state" where
  "sha256_round s kw =
     (let (a, b, c, d, e, f, g, h) = s; (k, w) = kw;
          t1 = h + (word_rotr 6 e XOR word_rotr 11 e XOR word_rotr 25 e) + ((e AND f) XOR (NOT e AND g)) + k + w;
          t2 = (word_rotr 2 a XOR word_rotr 13 a XOR word_rotr 22 a) + ((a AND b) XOR (a AND c) XOR (b AND c))
      in (t1 + t2, a, b, c, d + t1, e, f, g))"

definition sha256_block :: "sha256_state \<Rightarrow> bytes \<Rightarrow> sha256_state" where
  "sha256_block s blk =
     (let ws = expand (\<lambda>ws.
                 (let x = at_back ws 2; y = at_back ws 15
                  in (word_rotr 17 x XOR word_rotr 19 x XOR drop_bit 10 x) + at_back ws 7
                     + (word_rotr 7 y XOR word_rotr 18 y XOR drop_bit 3 y) + at_back ws 16))
                 48 (block_words blk);
          (a, b, c, d, e, f, g, h) = s;
          (a', b', c', d', e', f', g', h') = foldl sha256_round s (zip sha256_K ws)
      in (a + a', b + b', c + c', d + d', e + e', f + f', g + g', h + h'))"

definition sha256_sum :: "bytes \<Rightarrow> bytes" where
  "sha256_sum m =
     (let (a, b, c, d, e, f, g, h) =
            foldl sha256_block (root_fraction 2 2, root_fraction 2 3, root_fraction 2 5, root_fraction 2 7,
                root_fraction 2 11, root_fraction 2 13, root_fraction 2 17, root_fraction 2 19) (chunks64 (md_pad m))
      in put32 a @ put32 b @ put32 c @ put32 d @ put32 e @ put32 f @ put32 g @ put32 h)"

text \<open>A constructor of \<^verbatim>\<open>hash.Hash\<close> values, and \<^verbatim>\<open>hmac.New(newHash, key)\<close> with one write.\<close>

record Hash =
  h_Size :: nat
  h_BlockSize :: nat
  h_Sum :: "bytes \<Rightarrow> bytes"

definition sha1_New :: Hash where
  "sha1_New = \<lparr>h_Size = 20, h_BlockSize = 64, h_Sum = sha1_sum\<rparr>"

definition sha256_New :: Hash where
  "sha256_New = \<lparr>h_Size = 32, h_BlockSize = 64, h_Sum = sha256_sum\<rparr>"

definition hmac_key :: "Hash \<Rightarrow> bytes \<Rightarrow> bytes" where
  "hmac_key h key =
     (let k = (if length key > h_BlockSize h then h_Sum h key else key)
      in k @ replicate (h_BlockSize h - length k) 0)"

definition hmac :: "Hash \<Rightarrow> bytes \<Rightarrow> bytes \<Rightarrow> bytes" where
  "hmac h key m =
     (let k = hmac_key h key
      in h_Sum h (map (\<lambda>b. b XOR 0x5c) k @ h_Sum h (map (\<lambda>b. b XOR 0x36) k @ m)))"

lemma length_sha1_sum [simp]: "length (sha1_sum m) = 20"
  by (simp add: sha1_sum_def split: prod.splits)

lemma length_sha256_sum [simp]: "length (sha256_sum m) = 32"
  by (simp add: sha256_sum_def split: prod.splits)

lemma length_hmac [simp]:
  "length (hmac sha1_New key m) = 20" "length (hmac sha256_New key m) = 32"
  by (simp_all add: hmac_def Let_def sha1_New_def sha256_New_def)

lemma hash_Size [simp]: "h_Size sha1_New = 20" "h_Size sha256_New = 32"
  by (simp_all add: sha1_New_def sha256_New_def)

end
