(* ===== verification/Stun_Attr.thy ===== *)
theory Stun_Attr
  imports Go_Std "HOL-Library.Signed_Division"
begin

text \<open>
  The attributes of STUN messages (\<^verbatim>\<open>attributes.go\<close>) and the buffer they are serialized to
  (\<^verbatim>\<open>buffer.go\<close>). \<^verbatim>\<open>b[i:j]\<close> of a Go slice may reach behind its length up to its capacity;
  where the code does this without a check, the model has the memory behind the slice as an
  argument \<open>spare\<close>.
\<close>

named_theorems attr_simps \<open>definitions of the codecs of single attributes\<close>

section \<open>Constants and helpers\<close>

definition AttrMappedAddress :: u16 where "AttrMappedAddress = 0x0001"
definition AttrUsername :: u16 where "AttrUsername = 0x0006"
definition AttrMessageIntegrity :: u16 where "AttrMessageIntegrity = 0x0008"
definition AttrMessageIntegritySHA256 :: u16 where "AttrMessageIntegritySHA256 = 0x001C"
definition AttrErrorCode :: u16 where "AttrErrorCode = 0x0009"
definition AttrRealm :: u16 where "AttrRealm = 0x0014"
definition AttrNonce :: u16 where "AttrNonce = 0x0015"
definition AttrXorMappedAddress :: u16 where "AttrXorMappedAddress = 0x0020"
definition AttrFingerprint :: u16 where "AttrFingerprint = 0x8028"
definition AttrChangeRequest :: u16 where "AttrChangeRequest = 0x0003"
definition AttrOtherAddress :: u16 where "AttrOtherAddress = 0x802c"
definition AttrICEPriority :: u16 where "AttrICEPriority = 0x0024"
definition AttrICEUseCandidate :: u16 where "AttrICEUseCandidate = 0x0025"
definition AttrICEControlled :: u16 where "AttrICEControlled = 0x8029"
definition AttrICEControlling :: u16 where "AttrICEControlling = 0x802A"

lemmas attr_types =
  AttrMappedAddress_def AttrUsername_def AttrMessageIntegrity_def AttrMessageIntegritySHA256_def
  AttrErrorCode_def AttrRealm_def AttrNonce_def AttrXorMappedAddress_def AttrFingerprint_def
  AttrChangeRequest_def AttrOtherAddress_def AttrICEPriority_def AttrICEUseCandidate_def
  AttrICEControlled_def AttrICEControlling_def

definition TLVPrefixLength :: nat where "TLVPrefixLength = 4"

definition MagicCookie :: u32 where "MagicCookie = 0x2112A442"

definition calculatePadding :: "nat \<Rightarrow> nat" where
  "calculatePadding len = (if len mod 4 = 0 then 0 else 4 - len mod 4)"

definition attrSerializedSize :: "u16 \<Rightarrow> nat" where
  "attrSerializedSize valueLen = TLVPrefixLength + unat valueLen + calculatePadding (unat valueLen)"

lemma padded_mod4 [simp]: "(n + calculatePadding n) mod 4 = 0"
  unfolding calculatePadding_def by presburger

lemma calculatePadding_less: "calculatePadding n < 4"
  unfolding calculatePadding_def by presburger

section \<open>The serialization buffer\<close>

text \<open>
  \<open>sb_mem\<close> is the memory of the slice \<^verbatim>\<open>buf\<close> up to its capacity and \<open>sb_len\<close> its length. Go may
  round the capacity of a new slice up; the further bytes are zero and change only when the
  next growth happens.
\<close>

record Buffer =
  sb_mem :: bytes
  sb_len :: nat
  sb_written :: nat

definition emptyBuffer :: Buffer where
  "emptyBuffer = \<lparr>sb_mem = [], sb_len = 0, sb_written = 0\<rparr>"

definition Buffer_Len :: "Buffer \<Rightarrow> nat" where
  "Buffer_Len b = sb_written b"

text \<open>A buffer over the first \<open>n\<close> bytes of \<open>mem\<close>.\<close>

definition NewBuffer :: "bytes \<Rightarrow> nat \<Rightarrow> Buffer" where
  "NewBuffer mem n = \<lparr>sb_mem = mem, sb_len = n, sb_written = n\<rparr>"

definition growSlice :: "bytes \<Rightarrow> nat \<Rightarrow> nat \<Rightarrow> bytes" where
  "growSlice mem len n =
     (let c = max (len + n) (2 * length mem) in splice (replicate c 0) 0 (take len mem))"

definition grow :: "Buffer \<Rightarrow> nat \<Rightarrow> Buffer result" where
  "grow b n =
     (if sb_written b + n \<le> length (sb_mem b) then Inr (b\<lparr>sb_len := sb_written b + n\<rparr>)
      else let mem = growSlice (sb_mem b) (sb_len b) n
           in if sb_written b + n \<le> length mem
              then Inr (b\<lparr>sb_mem := mem, sb_len := sb_written b + n\<rparr>) else Inl Panic)"

text \<open>
  \<open>Append b n f\<close>: the code appends \<open>n\<close> bytes and then writes to the slice it gets; \<open>f\<close> is what
  the caller makes of the \<open>n\<close> old bytes there.
\<close>

definition Append :: "Buffer \<Rightarrow> nat \<Rightarrow> (bytes \<Rightarrow> bytes result) \<Rightarrow> Buffer result" where
  "Append b n f =
     rbind (grow b n) (\<lambda>b1.
       let start = sb_written b1; b2 = b1\<lparr>sb_written := start + n\<rparr>
       in rbind (f (take n (drop start (sb_mem b2)))) (\<lambda>new.
            Inr (b2\<lparr>sb_mem := splice (sb_mem b2) start new\<rparr>)))"

definition Buffer_Bytes :: "Buffer \<Rightarrow> bytes" where
  "Buffer_Bytes b = take (sb_written b) (sb_mem b)"

definition Buffer_Reset :: "Buffer \<Rightarrow> Buffer" where
  "Buffer_Reset b = b\<lparr>sb_written := 0, sb_len := 0\<rparr>"

definition Buffer_Zero :: "Buffer \<Rightarrow> Buffer" where
  "Buffer_Zero b = (let b1 = Buffer_Reset b in b1\<lparr>sb_mem := replicate (length (sb_mem b1)) 0\<rparr>)"

definition sb_inv :: "Buffer \<Rightarrow> bool" where
  "sb_inv b \<longleftrightarrow> sb_len b = sb_written b \<and> sb_written b \<le> length (sb_mem b)"

text \<open>
  What a serializer relies on: a sink of bytes that only grows, where a writer that fills its
  \<open>n\<close> bytes whatever was there before adds exactly these bytes.
\<close>

locale byte_sink =
  fixes emit :: "'b \<Rightarrow> nat \<Rightarrow> (bytes \<Rightarrow> bytes result) \<Rightarrow> 'b result"
    and content :: "'b \<Rightarrow> bytes"
    and inv :: "'b \<Rightarrow> bool"
  assumes emit_writes: "inv b \<Longrightarrow> (\<And>old. length old = n \<Longrightarrow> f old = Inr new) \<Longrightarrow> length new = n \<Longrightarrow>
    \<exists>b'. emit b n f = Inr b' \<and> inv b' \<and> content b' = content b @ new"
begin

lemma emit_list:
  assumes "inv b" "\<And>x old. x \<in> set xs \<Longrightarrow> length old = n x \<Longrightarrow> f x old = Inr (new x)"
    and "\<And>x. x \<in> set xs \<Longrightarrow> length (new x) = n x"
  shows "\<exists>b'. foldl (\<lambda>r x. rbind r (\<lambda>b. emit b (n x) (f x))) (Inr b) xs = Inr b' \<and> inv b' \<and>
              content b' = content b @ concat (map new xs)"
  using assms
proof (induction xs arbitrary: b)
  case (Cons x xs)
  from emit_writes [OF Cons.prems(1), of "n x" "f x" "new x"] Cons.prems(2,3) obtain b1 where
    1: "emit b (n x) (f x) = Inr b1" "inv b1" "content b1 = content b @ new x" by auto
  from Cons.IH [OF 1(2)] Cons.prems(2,3) obtain b2 where
    "foldl (\<lambda>r x. rbind r (\<lambda>b. emit b (n x) (f x))) (Inr b1) xs = Inr b2" "inv b2"
    "content b2 = content b1 @ concat (map new xs)" by auto
  with 1 show ?case by simp
qed simp

end

lemma buffer_inv_empty [simp]: "sb_inv emptyBuffer" "Buffer_Bytes emptyBuffer = []"
  by (simp_all add: sb_inv_def emptyBuffer_def Buffer_Bytes_def)

lemma buffer_inv_New [simp]: "n \<le> length mem \<Longrightarrow> sb_inv (NewBuffer mem n)"
  "Buffer_Bytes (NewBuffer mem n) = take n mem"
  by (simp_all add: sb_inv_def NewBuffer_def Buffer_Bytes_def)

lemma grow_ok:
  assumes "sb_inv b"
  shows "\<exists>b'. grow b n = Inr b' \<and> sb_written b' = sb_written b \<and> sb_len b' = sb_written b + n \<and>
     sb_written b + n \<le> length (sb_mem b') \<and> Buffer_Bytes b' = Buffer_Bytes b"
  using assms by (auto simp: grow_def sb_inv_def growSlice_def Let_def Buffer_Bytes_def splice_def min_def)

lemma Append_writes:
  assumes "sb_inv b" "\<And>old. length old = n \<Longrightarrow> f old = Inr new" "length new = n"
  shows "\<exists>b'. Append b n f = Inr b' \<and> sb_inv b' \<and> Buffer_Bytes b' = Buffer_Bytes b @ new"
proof -
  from grow_ok [OF assms(1), of n] obtain b1 where b1: "grow b n = Inr b1" "sb_written b1 = sb_written b"
    "sb_len b1 = sb_written b + n" "sb_written b + n \<le> length (sb_mem b1)" "Buffer_Bytes b1 = Buffer_Bytes b"
    by auto
  have "f (take n (drop (sb_written b) (sb_mem b1))) = Inr new"
    using b1(4) by (intro assms(2)) simp
  moreover have "splice (sb_mem b1) (sb_written b) new =
      Buffer_Bytes b @ new @ drop (sb_written b + n) (sb_mem b1)"
    using b1(2,4,5) assms(3) by (simp add: splice_fit Buffer_Bytes_def)
  moreover have "length (Buffer_Bytes b) = sb_written b"
    using assms(1) by (simp add: Buffer_Bytes_def sb_inv_def)
  ultimately show ?thesis
    using b1 assms(3) by (simp add: Append_def Let_def sb_inv_def Buffer_Bytes_def [of "_\<lparr>sb_mem := _\<rparr>"])
qed

interpretation sink: byte_sink Append Buffer_Bytes sb_inv
  by unfold_locales (rule Append_writes)

section \<open>Attributes\<close>

datatype Attribute =
    UsernameAttr bytes
  | RealmAttr bytes
  | NonceAttr bytes
  | MessageIntegrityAttr bytes
  | MessageIntegritySHA256Attr bytes
  | ErrorCodeAttr int bytes
  | MappedAddressAttr bytes
  | XorMappedAddressAttr bytes
  | FingerprintAttr u32
  | ICEPriorityAttr u32
  | ICEUseCandidateAttr
  | ICEControllingAttr u64
  | ICEControlledAttr u64
  | UnknownAttr u16 bytes
  | ChangeRequestAttr u32
  | OtherAddressAttr bytes

fun GetType :: "Attribute \<Rightarrow> u16" where
  "GetType (UsernameAttr v) = AttrUsername"
| "GetType (RealmAttr v) = AttrRealm"
| "GetType (NonceAttr v) = AttrNonce"
| "GetType (MessageIntegrityAttr v) = AttrMessageIntegrity"
| "GetType (MessageIntegritySHA256Attr v) = AttrMessageIntegritySHA256"
| "GetType (ErrorCodeAttr c r) = AttrErrorCode"
| "GetType (MappedAddressAttr v) = AttrMappedAddress"
| "GetType (XorMappedAddressAttr v) = AttrXorMappedAddress"
| "GetType (FingerprintAttr w) = AttrFingerprint"
| "GetType (ICEPriorityAttr w) = AttrICEPriority"
| "GetType ICEUseCandidateAttr = AttrICEUseCandidate"
| "GetType (ICEControllingAttr w) = AttrICEControlling"
| "GetType (ICEControlledAttr w) = AttrICEControlled"
| "GetType (UnknownAttr t v) = t"
| "GetType (ChangeRequestAttr w) = AttrChangeRequest"
| "GetType (OtherAddressAttr v) = AttrOtherAddress"

fun IsICE :: "Attribute \<Rightarrow> bool" where
  "IsICE (ICEPriorityAttr w) = True"
| "IsICE ICEUseCandidateAttr = True"
| "IsICE (ICEControllingAttr w) = True"
| "IsICE (ICEControlledAttr w) = True"
| "IsICE _ = False"

subsection \<open>Lengths\<close>

definition UsernameAttr_SerializeLen :: "bytes \<Rightarrow> nat" where
  "UsernameAttr_SerializeLen v = attrSerializedSize (of_nat (length v))"

definition RealmAttr_SerializeLen :: "bytes \<Rightarrow> nat" where
  "RealmAttr_SerializeLen v = attrSerializedSize (of_nat (length v))"

definition NonceAttr_SerializeLen :: "bytes \<Rightarrow> nat" where
  "NonceAttr_SerializeLen v = attrSerializedSize (of_nat (length v))"

definition MessageIntegrityAttr_SerializeLen :: nat where
  "MessageIntegrityAttr_SerializeLen = attrSerializedSize 20"

definition MessageIntegritySHA256Attr_SerializeLen :: nat where
  "MessageIntegritySHA256Attr_SerializeLen = attrSerializedSize 32"

definition ErrorCodeAttr_SerializeLen :: "bytes \<Rightarrow> nat" where
  "ErrorCodeAttr_SerializeLen r = attrSerializedSize (of_nat (4 + length r))"

definition MappedAddressAttr_SerializeLen :: "bytes \<Rightarrow> nat" where
  "MappedAddressAttr_SerializeLen v = attrSerializedSize (of_nat (length v))"

definition XorMappedAddressAttr_SerializeLen :: "bytes \<Rightarrow> nat" where
  "XorMappedAddressAttr_SerializeLen v = attrSerializedSize (of_nat (length v))"

definition FingerprintAttr_SerializeLen :: nat where
  "FingerprintAttr_SerializeLen = attrSerializedSize 4"

definition ICEPriorityAttr_SerializeLen :: nat where
  "ICEPriorityAttr_SerializeLen = attrSerializedSize 4"

definition ICEUseCandidateAttr_SerializeLen :: nat where
  "ICEUseCandidateAttr_SerializeLen = attrSerializedSize 0"

definition ICEControllingAttr_SerializeLen :: nat where
  "ICEControllingAttr_SerializeLen = attrSerializedSize 8"

definition ICEControlledAttr_SerializeLen :: nat where
  "ICEControlledAttr_SerializeLen = attrSerializedSize 8"

definition UnknownAttr_SerializeLen :: "bytes \<Rightarrow> nat" where
  "UnknownAttr_SerializeLen v = attrSerializedSize (of_nat (length v))"

definition ChangeRequestAttr_SerializeLen :: nat where
  "ChangeRequestAttr_SerializeLen = attrSerializedSize 4"

definition OtherAddressAttr_SerializeLen :: "bytes \<Rightarrow> nat" where
  "OtherAddressAttr_SerializeLen v = attrSerializedSize (of_nat (length v))"

fun SerializeLen :: "Attribute \<Rightarrow> nat" where
  "SerializeLen (UsernameAttr v) = UsernameAttr_SerializeLen v"
| "SerializeLen (RealmAttr v) = RealmAttr_SerializeLen v"
| "SerializeLen (NonceAttr v) = NonceAttr_SerializeLen v"
| "SerializeLen (MessageIntegrityAttr v) = MessageIntegrityAttr_SerializeLen"
| "SerializeLen (MessageIntegritySHA256Attr v) = MessageIntegritySHA256Attr_SerializeLen"
| "SerializeLen (ErrorCodeAttr c r) = ErrorCodeAttr_SerializeLen r"
| "SerializeLen (MappedAddressAttr v) = MappedAddressAttr_SerializeLen v"
| "SerializeLen (XorMappedAddressAttr v) = XorMappedAddressAttr_SerializeLen v"
| "SerializeLen (FingerprintAttr w) = FingerprintAttr_SerializeLen"
| "SerializeLen (ICEPriorityAttr w) = ICEPriorityAttr_SerializeLen"
| "SerializeLen ICEUseCandidateAttr = ICEUseCandidateAttr_SerializeLen"
| "SerializeLen (ICEControllingAttr w) = ICEControllingAttr_SerializeLen"
| "SerializeLen (ICEControlledAttr w) = ICEControlledAttr_SerializeLen"
| "SerializeLen (UnknownAttr t v) = UnknownAttr_SerializeLen v"
| "SerializeLen (ChangeRequestAttr w) = ChangeRequestAttr_SerializeLen"
| "SerializeLen (OtherAddressAttr v) = OtherAddressAttr_SerializeLen v"

lemmas SerializeLen_defs =
  UsernameAttr_SerializeLen_def
  RealmAttr_SerializeLen_def
  NonceAttr_SerializeLen_def
  MessageIntegrityAttr_SerializeLen_def
  MessageIntegritySHA256Attr_SerializeLen_def
  ErrorCodeAttr_SerializeLen_def
  MappedAddressAttr_SerializeLen_def
  XorMappedAddressAttr_SerializeLen_def
  FingerprintAttr_SerializeLen_def
  ICEPriorityAttr_SerializeLen_def
  ICEUseCandidateAttr_SerializeLen_def
  ICEControllingAttr_SerializeLen_def
  ICEControlledAttr_SerializeLen_def
  UnknownAttr_SerializeLen_def
  ChangeRequestAttr_SerializeLen_def
  OtherAddressAttr_SerializeLen_def

subsection \<open>Decoding\<close>

text \<open>
  The three string attributes have the same code with other messages, and so have the three
  address attributes and the attributes of a fixed length. \<^verbatim>\<open>4+attrLen\<close> is computed on 16 bits.
\<close>

definition wrong_type :: "u16 \<Rightarrow> string \<Rightarrow> 'a result" where
  "wrong_type t nm = Inl (Err (''wrong attribute type: got 0x'' @ hex4 t @ '', expected '' @ nm))"

definition decode_string :: "string \<Rightarrow> u16 \<Rightarrow> string \<Rightarrow> bytes \<Rightarrow> bytes result" where
  "decode_string what t nm b =
     (if length b < 4 then Inl (Err (what @ '' attribute too short''))
      else let attrType = get16 b 0; attrLen = get16 b 2
      in if attrType \<noteq> t then wrong_type attrType nm
      else if unat attrLen > length b - 4 then Inl (Err (what @ '' attribute length exceeds buffer''))
      else slice b 4 (unat (4 + attrLen)))"

definition decode_address :: "string \<Rightarrow> string \<Rightarrow> u16 \<Rightarrow> string \<Rightarrow> bytes \<Rightarrow> bytes result" where
  "decode_address what attr t nm b =
     (if length b < 4 then Inl (Err (what @ '' attribute too short''))
      else let attrType = get16 b 0; attrLen = get16 b 2
      in if attrType \<noteq> t then wrong_type attrType nm
      else if attrLen \<noteq> 8 \<and> attrLen \<noteq> 20
      then Inl (Err (''invalid '' @ what @ '' length: '' @ show_nat (unat attrLen)))
      else if unat attrLen > length b - 4 then Inl (Err (what @ attr @ '' length exceeds buffer''))
      else slice b 4 (unat (4 + attrLen)))"

definition decode_fixed :: "string \<Rightarrow> u16 \<Rightarrow> string \<Rightarrow> nat \<Rightarrow> bytes \<Rightarrow> bytes result" where
  "decode_fixed what t nm n b =
     (if length b < 4 + n then Inl (Err (what @ '' attribute too short''))
      else let attrType = get16 b 0; attrLen = get16 b 2
      in if attrType \<noteq> t then wrong_type attrType nm
      else if attrLen \<noteq> of_nat n
      then Inl (Err (''invalid '' @ what @ '' length: '' @ show_nat (unat attrLen)))
      else Inr (take n (drop 4 b)))"

definition UsernameAttr_DecodeFromBytes :: "bytes \<Rightarrow> Attribute result" where
  "UsernameAttr_DecodeFromBytes b = rbind (decode_string ''username'' AttrUsername ''USERNAME'' b) (\<lambda>v. Inr (UsernameAttr v))"

definition RealmAttr_DecodeFromBytes :: "bytes \<Rightarrow> Attribute result" where
  "RealmAttr_DecodeFromBytes b = rbind (decode_string ''realm'' AttrRealm ''REALM'' b) (\<lambda>v. Inr (RealmAttr v))"

definition NonceAttr_DecodeFromBytes :: "bytes \<Rightarrow> Attribute result" where
  "NonceAttr_DecodeFromBytes b = rbind (decode_string ''nonce'' AttrNonce ''NONCE'' b) (\<lambda>v. Inr (NonceAttr v))"

definition MappedAddressAttr_DecodeFromBytes :: "bytes \<Rightarrow> Attribute result" where
  "MappedAddressAttr_DecodeFromBytes b = rbind (decode_address ''mapped address'' '''' AttrMappedAddress ''MAPPED-ADDRESS'' b)
     (\<lambda>v. Inr (MappedAddressAttr v))"

definition XorMappedAddressAttr_DecodeFromBytes :: "bytes \<Rightarrow> Attribute result" where
  "XorMappedAddressAttr_DecodeFromBytes b = rbind (decode_address ''xor mapped address'' '''' AttrXorMappedAddress ''XOR-MAPPED-ADDRESS'' b)
     (\<lambda>v. Inr (XorMappedAddressAttr v))"

definition OtherAddressAttr_DecodeFromBytes :: "bytes \<Rightarrow> Attribute result" where
  "OtherAddressAttr_DecodeFromBytes b = rbind (decode_address ''other-address'' '' attribute'' AttrOtherAddress ''OTHER-ADDRESS'' b)
     (\<lambda>v. Inr (OtherAddressAttr v))"

definition MessageIntegrityAttr_DecodeFromBytes :: "bytes \<Rightarrow> Attribute result" where
  "MessageIntegrityAttr_DecodeFromBytes b = rbind (decode_fixed ''message integrity'' AttrMessageIntegrity ''MESSAGE-INTEGRITY'' 20 b)
     (\<lambda>v. Inr (MessageIntegrityAttr v))"

definition MessageIntegritySHA256Attr_DecodeFromBytes :: "bytes \<Rightarrow> Attribute result" where
  "MessageIntegritySHA256Attr_DecodeFromBytes b = rbind (decode_fixed ''message integrity sha256'' AttrMessageIntegritySHA256 ''MESSAGE-INTEGRITY-SHA256'' 32 b)
     (\<lambda>v. Inr (MessageIntegritySHA256Attr v))"

definition FingerprintAttr_DecodeFromBytes :: "bytes \<Rightarrow> Attribute result" where
  "FingerprintAttr_DecodeFromBytes b = rbind (decode_fixed ''fingerprint'' AttrFingerprint ''FINGERPRINT'' 4 b)
     (\<lambda>v. Inr (FingerprintAttr (get32 v 0)))"

definition ICEPriorityAttr_DecodeFromBytes :: "bytes \<Rightarrow> Attribute result" where
  "ICEPriorityAttr_DecodeFromBytes b = rbind (decode_fixed ''ice priority'' AttrICEPriority ''PRIORITY'' 4 b)
     (\<lambda>v. Inr (ICEPriorityAttr (get32 v 0)))"

definition ICEUseCandidateAttr_DecodeFromBytes :: "bytes \<Rightarrow> Attribute result" where
  "ICEUseCandidateAttr_DecodeFromBytes b = rbind (decode_fixed ''ice use candidate'' AttrICEUseCandidate ''USE-CANDIDATE'' 0 b)
     (\<lambda>v. Inr ICEUseCandidateAttr)"

definition ICEControllingAttr_DecodeFromBytes :: "bytes \<Rightarrow> Attribute result" where
  "ICEControllingAttr_DecodeFromBytes b = rbind (decode_fixed ''ice controlling'' AttrICEControlling ''ICE-CONTROLLING'' 8 b)
     (\<lambda>v. Inr (ICEControllingAttr (get64 v 0)))"

definition ICEControlledAttr_DecodeFromBytes :: "bytes \<Rightarrow> Attribute result" where
  "ICEControlledAttr_DecodeFromBytes b = rbind (decode_fixed ''ice controlled'' AttrICEControlled ''ICE-CONTROLLED'' 8 b)
     (\<lambda>v. Inr (ICEControlledAttr (get64 v 0)))"

definition ChangeRequestAttr_DecodeFromBytes :: "bytes \<Rightarrow> Attribute result" where
  "ChangeRequestAttr_DecodeFromBytes b =
     (if length b < 4 then Inl (Err ''change-request attribute too short'')
      else let attrType = get16 b 0; attrLen = get16 b 2
      in if attrType \<noteq> AttrChangeRequest then wrong_type attrType ''CHANGE-REQUEST''
      else if attrLen \<noteq> 4
      then Inl (Err (''invalid change-request length: '' @ show_nat (unat attrLen)))
      else if unat attrLen > length b - 4
      then Inl (Err ''change-request attribute length exceeds buffer'')
      else rbind (slice b 4 (unat (4 + attrLen))) (\<lambda>v. Inr (ChangeRequestAttr (get32 v 0))))"

definition UnknownAttr_DecodeFromBytes :: "bytes \<Rightarrow> Attribute result" where
  "UnknownAttr_DecodeFromBytes b =
     (if length b < 4 then Inl (Err ''unknown attribute too short'')
      else let attrLen = get16 b 2
      in if unat attrLen > length b - 4 then Inl (Err ''unknown attribute length exceeds buffer'')
      else rbind (slice b 4 (unat (4 + attrLen))) (\<lambda>v. Inr (UnknownAttr (get16 b 0) v)))"

text \<open>
  The error code compares its length neither with the slice nor with its capacity: the reason
  phrase is read from the memory behind the message, and the slice panics at its end.
\<close>

definition ErrorCodeAttr_DecodeFromBytes :: "bytes \<Rightarrow> bytes \<Rightarrow> Attribute result" where
  "ErrorCodeAttr_DecodeFromBytes b spare =
     (if length b < 8 then Inl (Err ''error code attribute too short'')
      else let attrType = get16 b 0; attrLen = get16 b 2
      in if attrType \<noteq> AttrErrorCode then wrong_type attrType ''ERROR-CODE''
      else if unat attrLen < 4 then Inl (Err ''error code value too short'')
      else let val = drop 4 b; cls = uint (val ! 1); number = uint (val ! 2); code = cls * 100 + number
      in if unat attrLen > 4
         then rbind (slice (val @ spare) 4 (4 + unat attrLen - 4)) (\<lambda>reason. Inr (ErrorCodeAttr code reason))
         else Inr (ErrorCodeAttr code []))"

fun DecodeFromBytes :: "Attribute \<Rightarrow> bytes \<Rightarrow> bytes \<Rightarrow> Attribute result" where
  "DecodeFromBytes (UsernameAttr v) b spare = UsernameAttr_DecodeFromBytes b"
| "DecodeFromBytes (RealmAttr v) b spare = RealmAttr_DecodeFromBytes b"
| "DecodeFromBytes (NonceAttr v) b spare = NonceAttr_DecodeFromBytes b"
| "DecodeFromBytes (MessageIntegrityAttr v) b spare = MessageIntegrityAttr_DecodeFromBytes b"
| "DecodeFromBytes (MessageIntegritySHA256Attr v) b spare = MessageIntegritySHA256Attr_DecodeFromBytes b"
| "DecodeFromBytes (ErrorCodeAttr c r) b spare = ErrorCodeAttr_DecodeFromBytes b spare"
| "DecodeFromBytes (MappedAddressAttr v) b spare = MappedAddressAttr_DecodeFromBytes b"
| "DecodeFromBytes (XorMappedAddressAttr v) b spare = XorMappedAddressAttr_DecodeFromBytes b"
| "DecodeFromBytes (FingerprintAttr w) b spare = FingerprintAttr_DecodeFromBytes b"
| "DecodeFromBytes (ICEPriorityAttr w) b spare = ICEPriorityAttr_DecodeFromBytes b"
| "DecodeFromBytes ICEUseCandidateAttr b spare = ICEUseCandidateAttr_DecodeFromBytes b"
| "DecodeFromBytes (ICEControllingAttr w) b spare = ICEControllingAttr_DecodeFromBytes b"
| "DecodeFromBytes (ICEControlledAttr w) b spare = ICEControlledAttr_DecodeFromBytes b"
| "DecodeFromBytes (UnknownAttr t v) b spare = UnknownAttr_DecodeFromBytes b"
| "DecodeFromBytes (ChangeRequestAttr w) b spare = ChangeRequestAttr_DecodeFromBytes b"
| "DecodeFromBytes (OtherAddressAttr v) b spare = OtherAddressAttr_DecodeFromBytes b"

text \<open>The registry of constructors.\<close>

definition typeRegistry :: "u16 \<Rightarrow> Attribute option" where
  "typeRegistry t =
     (if t = AttrMappedAddress then Some (MappedAddressAttr [])
      else if t = AttrUsername then Some (UsernameAttr [])
      else if t = AttrMessageIntegrity then Some (MessageIntegrityAttr (replicate 20 0))
      else if t = AttrMessageIntegritySHA256 then Some (MessageIntegritySHA256Attr (replicate 32 0))
      else if t = AttrErrorCode then Some (ErrorCodeAttr 0 [])
      else if t = AttrRealm then Some (RealmAttr [])
      else if t = AttrNonce then Some (NonceAttr [])
      else if t = AttrXorMappedAddress then Some (XorMappedAddressAttr [])
      else if t = AttrFingerprint then Some (FingerprintAttr 0)
      else if t = AttrICEPriority then Some (ICEPriorityAttr 0)
      else if t = AttrICEUseCandidate then Some ICEUseCandidateAttr
      else if t = AttrICEControlled then Some (ICEControlledAttr 0)
      else if t = AttrICEControlling then Some (ICEControllingAttr 0)
      else if t = AttrChangeRequest then Some (ChangeRequestAttr 0)
      else if t = AttrOtherAddress then Some (OtherAddressAttr [])
      else None)"

lemma SerializeLen_ge4: "4 \<le> SerializeLen a"
  by (cases a) (simp_all add: SerializeLen_defs attrSerializedSize_def TLVPrefixLength_def)

text \<open>
  The loop over the attributes; \<open>data\<close> is what is left from the offset on. An unknown attribute
  is skipped by its length alone, without its padding.
\<close>

function DecodeAttributes :: "bytes \<Rightarrow> bytes \<Rightarrow> Attribute list result" where
  "DecodeAttributes data spare =
     (if length data < 4 then Inr []
      else let attrType = get16 data 0
      in case typeRegistry attrType of
           None \<Rightarrow> DecodeAttributes (drop (unat (get16 data 2) + 4) data) spare
         | Some attr0 \<Rightarrow>
             rbind (wrap (''parse attribute 0x'' @ hex4 attrType) (DecodeFromBytes attr0 data spare)) (\<lambda>attr.
               rbind (DecodeAttributes (drop (SerializeLen attr) data) spare) (\<lambda>attrs.
                 Inr (attr # attrs))))"
  by pat_completeness auto

termination DecodeAttributes
proof (relation "measure (\<lambda>(data, _). length data)", goal_cases)
  case (3 data spare x attr0 attr)
  then show ?case using SerializeLen_ge4 [of attr] by simp
qed auto

declare DecodeAttributes.simps [simp del]

subsection \<open>Serializing\<close>

text \<open>
  \<open>put_value\<close> fills the appended slice \<open>b\<close> of the attributes that carry a string or a slice;
  \<^verbatim>\<open>clear(b[4+len:])\<close> panics when the value is longer than the slice. \<open>put_fixed\<close> fills the slice
  of an attribute whose value has a fixed length.
\<close>

definition put_value :: "u16 \<Rightarrow> bytes \<Rightarrow> bytes \<Rightarrow> bytes result" where
  "put_value t v b =
     (let b1 = splice b 0 (put16 t); b2 = splice b1 2 (put16 (of_nat (length v))); b3 = splice b2 4 v
      in if length b < 4 + length v then Inl Panic
         else Inr (splice b3 (4 + length v) (replicate (length b - (4 + length v)) 0)))"

definition put_fixed :: "u16 \<Rightarrow> u16 \<Rightarrow> bytes \<Rightarrow> bytes \<Rightarrow> bytes result" where
  "put_fixed t n v b = Inr (splice (splice (splice b 0 (put16 t)) 2 (put16 n)) 4 v)"

definition UsernameAttr_SerializeTo :: "bytes \<Rightarrow> Buffer \<Rightarrow> Buffer result" where
  "UsernameAttr_SerializeTo v sb = Append sb (UsernameAttr_SerializeLen v) (put_value AttrUsername v)"

definition RealmAttr_SerializeTo :: "bytes \<Rightarrow> Buffer \<Rightarrow> Buffer result" where
  "RealmAttr_SerializeTo v sb = Append sb (RealmAttr_SerializeLen v) (put_value AttrRealm v)"

definition NonceAttr_SerializeTo :: "bytes \<Rightarrow> Buffer \<Rightarrow> Buffer result" where
  "NonceAttr_SerializeTo v sb = Append sb (NonceAttr_SerializeLen v) (put_value AttrNonce v)"

definition MappedAddressAttr_SerializeTo :: "bytes \<Rightarrow> Buffer \<Rightarrow> Buffer result" where
  "MappedAddressAttr_SerializeTo v sb = Append sb (MappedAddressAttr_SerializeLen v) (put_value AttrMappedAddress v)"

definition XorMappedAddressAttr_SerializeTo :: "bytes \<Rightarrow> Buffer \<Rightarrow> Buffer result" where
  "XorMappedAddressAttr_SerializeTo v sb = Append sb (XorMappedAddressAttr_SerializeLen v) (put_value AttrXorMappedAddress v)"

definition OtherAddressAttr_SerializeTo :: "bytes \<Rightarrow> Buffer \<Rightarrow> Buffer result" where
  "OtherAddressAttr_SerializeTo v sb = Append sb (OtherAddressAttr_SerializeLen v) (put_value AttrOtherAddress v)"

definition UnknownAttr_SerializeTo :: "u16 \<Rightarrow> bytes \<Rightarrow> Buffer \<Rightarrow> Buffer result" where
  "UnknownAttr_SerializeTo t v sb = Append sb (UnknownAttr_SerializeLen v) (put_value t v)"

definition MessageIntegrityAttr_SerializeTo :: "bytes \<Rightarrow> Buffer \<Rightarrow> Buffer result" where
  "MessageIntegrityAttr_SerializeTo v sb = Append sb MessageIntegrityAttr_SerializeLen (put_fixed AttrMessageIntegrity 20 v)"

definition MessageIntegritySHA256Attr_SerializeTo :: "bytes \<Rightarrow> Buffer \<Rightarrow> Buffer result" where
  "MessageIntegritySHA256Attr_SerializeTo v sb = Append sb MessageIntegritySHA256Attr_SerializeLen (put_fixed AttrMessageIntegritySHA256 32 v)"

definition FingerprintAttr_SerializeTo :: "u32 \<Rightarrow> Buffer \<Rightarrow> Buffer result" where
  "FingerprintAttr_SerializeTo w sb = Append sb FingerprintAttr_SerializeLen (put_fixed AttrFingerprint 4 (put32 w))"

definition ICEPriorityAttr_SerializeTo :: "u32 \<Rightarrow> Buffer \<Rightarrow> Buffer result" where
  "ICEPriorityAttr_SerializeTo w sb = Append sb ICEPriorityAttr_SerializeLen (put_fixed AttrICEPriority 4 (put32 w))"

definition ChangeRequestAttr_SerializeTo :: "u32 \<Rightarrow> Buffer \<Rightarrow> Buffer result" where
  "ChangeRequestAttr_SerializeTo w sb = Append sb ChangeRequestAttr_SerializeLen (put_fixed AttrChangeRequest 4 (put32 w))"

definition ICEControllingAttr_SerializeTo :: "u64 \<Rightarrow> Buffer \<Rightarrow> Buffer result" where
  "ICEControllingAttr_SerializeTo w sb = Append sb ICEControllingAttr_SerializeLen (put_fixed AttrICEControlling 8 (put64 w))"

definition ICEControlledAttr_SerializeTo :: "u64 \<Rightarrow> Buffer \<Rightarrow> Buffer result" where
  "ICEControlledAttr_SerializeTo w sb = Append sb ICEControlledAttr_SerializeLen (put_fixed AttrICEControlled 8 (put64 w))"

definition ICEUseCandidateAttr_SerializeTo :: "Buffer \<Rightarrow> Buffer result" where
  "ICEUseCandidateAttr_SerializeTo sb = Append sb ICEUseCandidateAttr_SerializeLen (put_fixed AttrICEUseCandidate 0 [])"

definition put_error :: "int \<Rightarrow> bytes \<Rightarrow> bytes \<Rightarrow> bytes result" where
  "put_error c r b =
     (if length b < 8 then Inl Panic
      else let b1 = splice b 0 (put16 AttrErrorCode); b2 = splice b1 2 (put16 (of_nat (4 + length r)));
               b3 = splice b2 4 [0, of_int (c sdiv 100), of_int (c smod 100), 0]; b4 = splice b3 8 r
      in if length b < 8 + length r then Inl Panic
         else Inr (splice b4 (8 + length r) (replicate (length b - (8 + length r)) 0)))"

definition ErrorCodeAttr_SerializeTo :: "int \<Rightarrow> bytes \<Rightarrow> Buffer \<Rightarrow> Buffer result" where
  "ErrorCodeAttr_SerializeTo c r sb = Append sb (ErrorCodeAttr_SerializeLen r) (put_error c r)"

fun SerializeTo :: "Attribute \<Rightarrow> Buffer \<Rightarrow> Buffer result" where
  "SerializeTo (UsernameAttr v) sb = UsernameAttr_SerializeTo v sb"
| "SerializeTo (RealmAttr v) sb = RealmAttr_SerializeTo v sb"
| "SerializeTo (NonceAttr v) sb = NonceAttr_SerializeTo v sb"
| "SerializeTo (MessageIntegrityAttr v) sb = MessageIntegrityAttr_SerializeTo v sb"
| "SerializeTo (MessageIntegritySHA256Attr v) sb = MessageIntegritySHA256Attr_SerializeTo v sb"
| "SerializeTo (ErrorCodeAttr c r) sb = ErrorCodeAttr_SerializeTo c r sb"
| "SerializeTo (MappedAddressAttr v) sb = MappedAddressAttr_SerializeTo v sb"
| "SerializeTo (XorMappedAddressAttr v) sb = XorMappedAddressAttr_SerializeTo v sb"
| "SerializeTo (FingerprintAttr w) sb = FingerprintAttr_SerializeTo w sb"
| "SerializeTo (ICEPriorityAttr w) sb = ICEPriorityAttr_SerializeTo w sb"
| "SerializeTo ICEUseCandidateAttr sb = ICEUseCandidateAttr_SerializeTo sb"
| "SerializeTo (ICEControllingAttr w) sb = ICEControllingAttr_SerializeTo w sb"
| "SerializeTo (ICEControlledAttr w) sb = ICEControlledAttr_SerializeTo w sb"
| "SerializeTo (UnknownAttr t v) sb = UnknownAttr_SerializeTo t v sb"
| "SerializeTo (ChangeRequestAttr w) sb = ChangeRequestAttr_SerializeTo w sb"
| "SerializeTo (OtherAddressAttr v) sb = OtherAddressAttr_SerializeTo v sb"

lemmas SerializeTo_defs =
  UsernameAttr_SerializeTo_def
  RealmAttr_SerializeTo_def
  NonceAttr_SerializeTo_def
  MessageIntegrityAttr_SerializeTo_def
  MessageIntegritySHA256Attr_SerializeTo_def
  ErrorCodeAttr_SerializeTo_def
  MappedAddressAttr_SerializeTo_def
  XorMappedAddressAttr_SerializeTo_def
  FingerprintAttr_SerializeTo_def
  ICEPriorityAttr_SerializeTo_def
  ICEUseCandidateAttr_SerializeTo_def
  ICEControllingAttr_SerializeTo_def
  ICEControlledAttr_SerializeTo_def
  UnknownAttr_SerializeTo_def
  ChangeRequestAttr_SerializeTo_def
  OtherAddressAttr_SerializeTo_def

lemmas DecodeFromBytes_defs =
  UsernameAttr_DecodeFromBytes_def
  RealmAttr_DecodeFromBytes_def
  NonceAttr_DecodeFromBytes_def
  MessageIntegrityAttr_DecodeFromBytes_def
  MessageIntegritySHA256Attr_DecodeFromBytes_def
  ErrorCodeAttr_DecodeFromBytes_def
  MappedAddressAttr_DecodeFromBytes_def
  XorMappedAddressAttr_DecodeFromBytes_def
  FingerprintAttr_DecodeFromBytes_def
  ICEPriorityAttr_DecodeFromBytes_def
  ICEUseCandidateAttr_DecodeFromBytes_def
  ICEControllingAttr_DecodeFromBytes_def
  ICEControlledAttr_DecodeFromBytes_def
  UnknownAttr_DecodeFromBytes_def
  ChangeRequestAttr_DecodeFromBytes_def
  OtherAddressAttr_DecodeFromBytes_def

end
