(* ===== verification/Stun_Codec.thy ===== *)
theory Stun_Codec
  imports Stun_Attr
begin

text \<open>
  Correctness of the attribute codec: the serializers write the type-length-value format of
  STUN whatever their buffer held before, and decoding gives the attributes back.
\<close>

section \<open>The wire format\<close>

fun attr_value :: "Attribute \<Rightarrow> bytes" where
  "attr_value (UsernameAttr v) = v"
| "attr_value (RealmAttr v) = v"
| "attr_value (NonceAttr v) = v"
| "attr_value (MessageIntegrityAttr v) = v"
| "attr_value (MessageIntegritySHA256Attr v) = v"
| "attr_value (ErrorCodeAttr c r) = [0, of_int (c sdiv 100), of_int (c smod 100), 0] @ r"
| "attr_value (MappedAddressAttr v) = v"
| "attr_value (XorMappedAddressAttr v) = v"
| "attr_value (FingerprintAttr w) = put32 w"
| "attr_value (ICEPriorityAttr w) = put32 w"
| "attr_value ICEUseCandidateAttr = []"
| "attr_value (ICEControllingAttr w) = put64 w"
| "attr_value (ICEControlledAttr w) = put64 w"
| "attr_value (UnknownAttr t v) = v"
| "attr_value (ChangeRequestAttr w) = put32 w"
| "attr_value (OtherAddressAttr v) = v"

definition encode :: "Attribute \<Rightarrow> bytes" where
  "encode a = put16 (GetType a) @ put16 (of_nat (length (attr_value a))) @ attr_value a @
     replicate (calculatePadding (length (attr_value a))) 0"

text \<open>Attributes that the format can carry: the array lengths of the Go types and 16-bit lengths.\<close>

fun attr_sized :: "Attribute \<Rightarrow> bool" where
  "attr_sized (MessageIntegrityAttr v) \<longleftrightarrow> length v = 20"
| "attr_sized (MessageIntegritySHA256Attr v) \<longleftrightarrow> length v = 32"
| "attr_sized a \<longleftrightarrow> length (attr_value a) < 65536"

lemma attr_sized_length: "attr_sized a \<Longrightarrow> length (attr_value a) < 65536"
  by (cases a) simp_all

lemma unat_of_nat16: "n < 65536 \<Longrightarrow> unat (of_nat n :: u16) = n"
  using unat_of_nat_eq [where 'a = 16, of n] by simp

lemma SerializeLen_eq: "attr_sized a \<Longrightarrow>
    SerializeLen a = 4 + length (attr_value a) + calculatePadding (length (attr_value a))"
  by (cases a) (simp_all add: SerializeLen_defs attrSerializedSize_def TLVPrefixLength_def unat_of_nat16
      calculatePadding_def del: of_nat_add of_nat_Suc)

lemma length_encode: "attr_sized a \<Longrightarrow> length (encode a) = SerializeLen a"
  by (simp add: encode_def SerializeLen_eq)

section \<open>Serializing writes the wire format\<close>

lemma splice_mid: "length xs = i \<Longrightarrow> length mid = length ys \<Longrightarrow>
    splice (xs @ mid @ zs) i ys = xs @ ys @ zs"
  by (simp add: splice_def)

lemma splice_front: "length mid = length ys \<Longrightarrow> splice (mid @ zs) 0 ys = ys @ zs"
  by (simp add: splice_def)

lemma splice_end: "length xs = i \<Longrightarrow> length mid = length ys \<Longrightarrow> splice (xs @ mid) i ys = xs @ ys"
  by (simp add: splice_def)

lemma split_tlv:
  assumes "length b = 4 + n + k"
  obtains b0 b1 b2 b3 where "b = b0 @ b1 @ b2 @ b3" "length b0 = 2" "length b1 = 2" "length b2 = n" "length b3 = k"
proof
  show "b = take 2 b @ take 2 (drop 2 b) @ take n (drop 4 b) @ drop (4 + n) b"
    using assms by (intro nth_equalityI) (auto simp: nth_append simp flip: Suc_diff_le numeral_2_eq_2)
qed (use assms in auto)

lemma put_value_eq:
  assumes "length b = 4 + length v + k"
  shows "put_value t v b = Inr (put16 t @ put16 (of_nat (length v)) @ v @ replicate k 0)"
proof -
  obtain b0 b1 b2 b3 where b: "b = b0 @ b1 @ b2 @ b3" "length b0 = 2" "length b1 = 2"
    "length b2 = length v" "length b3 = k" using split_tlv [OF assms] .
  have "splice b 0 (put16 t) = put16 t @ b1 @ b2 @ b3"
    unfolding b(1) by (rule splice_front) (simp add: b(2-5))
  moreover have "splice (put16 t @ b1 @ b2 @ b3) 2 (put16 (of_nat (length v)))
      = put16 t @ put16 (of_nat (length v)) @ b2 @ b3"
    by (rule splice_mid) (simp_all add: b(2-5))
  moreover have "splice (put16 t @ put16 (of_nat (length v)) @ b2 @ b3) 4 v
      = put16 t @ put16 (of_nat (length v)) @ v @ b3"
    using splice_mid [of "put16 t @ put16 (of_nat (length v))" 4 b2 v b3] by (simp add: b(2-5))
  moreover have "splice (put16 t @ put16 (of_nat (length v)) @ v @ b3) (4 + length v) (replicate k 0)
      = put16 t @ put16 (of_nat (length v)) @ v @ replicate k 0"
    using splice_end [of "put16 t @ put16 (of_nat (length v)) @ v" "4 + length v" b3 "replicate k 0"] by (simp add: b(2-5))
  ultimately show ?thesis
    unfolding put_value_def Let_def using assms by simp
qed

lemma put_fixed_eq:
  assumes "length b = 4 + length v"
  shows "put_fixed t n v b = Inr (put16 t @ put16 n @ v)"
proof -
  obtain b0 b1 b2 b3 where b: "b = b0 @ b1 @ b2 @ b3" "length b0 = 2" "length b1 = 2"
    "length b2 = length v" "length b3 = 0" by (rule split_tlv [of b "length v" 0]) (use assms in simp)
  have "splice b 0 (put16 t) = put16 t @ b1 @ b2"
    unfolding b(1) using b(5) splice_front [of b0 "put16 t" "b1 @ b2"] by (simp add: b(2))
  moreover have "splice (put16 t @ b1 @ b2) 2 (put16 n) = put16 t @ put16 n @ b2"
    by (rule splice_mid) (simp_all add: b(2-5))
  moreover have "splice (put16 t @ put16 n @ b2) 4 v = put16 t @ put16 n @ v"
    using splice_end [of "put16 t @ put16 n" 4 b2 v] by (simp add: b(2-5))
  ultimately show ?thesis
    by (simp add: put_fixed_def)
qed

lemma put_error_eq:
  assumes "length b = 8 + length r + k"
  shows "put_error c r b = Inr (put16 AttrErrorCode @ put16 (of_nat (4 + length r)) @
    ([0, of_int (c sdiv 100), of_int (c smod 100), 0] @ r) @ replicate k 0)"
proof -
  let ?h = "[0, of_int (c sdiv 100), of_int (c smod 100), 0] :: bytes"
  obtain b0 b1 b2 b3 where b: "b = b0 @ b1 @ b2 @ b3" "length b0 = 2" "length b1 = 2"
    "length b2 = 4 + length r" "length b3 = k" by (rule split_tlv [of b "4 + length r" k]) (use assms in simp)
  have b2: "b2 = take 4 b2 @ drop 4 b2" "length (take 4 b2) = 4" "length (drop 4 b2) = length r"
    using b by simp_all
  have "splice b 0 (put16 AttrErrorCode) = put16 AttrErrorCode @ b1 @ b2 @ b3"
    unfolding b(1) by (rule splice_front) (simp add: b(2-5))
  moreover have "splice (put16 AttrErrorCode @ b1 @ b2 @ b3) 2 (put16 (of_nat (4 + length r)))
      = put16 AttrErrorCode @ put16 (of_nat (4 + length r)) @ b2 @ b3"
    by (rule splice_mid) (simp_all add: b(2-5))
  moreover have "splice (put16 AttrErrorCode @ put16 (of_nat (4 + length r)) @ b2 @ b3) 4 ?h
      = put16 AttrErrorCode @ put16 (of_nat (4 + length r)) @ ?h @ drop 4 b2 @ b3"
    using splice_mid [of "put16 AttrErrorCode @ put16 (of_nat (4 + length r))" 4 "take 4 b2" ?h "drop 4 b2 @ b3"] b2
    by simp (metis append_assoc append_take_drop_id)
  moreover have "splice (put16 AttrErrorCode @ put16 (of_nat (4 + length r)) @ ?h @ drop 4 b2 @ b3) 8 r
      = put16 AttrErrorCode @ put16 (of_nat (4 + length r)) @ ?h @ r @ b3"
    using splice_mid [of "put16 AttrErrorCode @ put16 (of_nat (4 + length r)) @ ?h" 8 "drop 4 b2" r b3] b2 by simp
  moreover have "splice (put16 AttrErrorCode @ put16 (of_nat (4 + length r)) @ ?h @ r @ b3) (8 + length r) (replicate k 0)
      = put16 AttrErrorCode @ put16 (of_nat (4 + length r)) @ ?h @ r @ replicate k 0"
    using splice_end [of "put16 AttrErrorCode @ put16 (of_nat (4 + length r)) @ ?h @ r" "8 + length r" b3 "replicate k 0"]
    by (simp add: b(2-5))
  ultimately show ?thesis
    unfolding put_error_def Let_def using assms by simp
qed

text \<open>What a serializer does to the slice it appended.\<close>

fun fill :: "Attribute \<Rightarrow> bytes \<Rightarrow> bytes result" where
  "fill (MessageIntegrityAttr v) = put_fixed AttrMessageIntegrity 20 v"
| "fill (MessageIntegritySHA256Attr v) = put_fixed AttrMessageIntegritySHA256 32 v"
| "fill (FingerprintAttr w) = put_fixed AttrFingerprint 4 (put32 w)"
| "fill (ICEPriorityAttr w) = put_fixed AttrICEPriority 4 (put32 w)"
| "fill (ChangeRequestAttr w) = put_fixed AttrChangeRequest 4 (put32 w)"
| "fill (ICEControllingAttr w) = put_fixed AttrICEControlling 8 (put64 w)"
| "fill (ICEControlledAttr w) = put_fixed AttrICEControlled 8 (put64 w)"
| "fill ICEUseCandidateAttr = put_fixed AttrICEUseCandidate 0 []"
| "fill (ErrorCodeAttr c r) = put_error c r"
| "fill a = put_value (GetType a) (attr_value a)"

lemma SerializeTo_fill: "SerializeTo a sb = Append sb (SerializeLen a) (fill a)"
  by (cases a) (simp_all add: SerializeTo_defs)

lemma calculatePadding_simps [simp]:
  "calculatePadding 20 = 0" "calculatePadding 32 = 0" "calculatePadding 4 = 0" "calculatePadding 8 = 0"
  "calculatePadding 0 = 0"
  by (simp_all add: calculatePadding_def)

lemma fill_encode: "attr_sized a \<Longrightarrow> length old = SerializeLen a \<Longrightarrow> fill a old = Inr (encode a)"
  using SerializeLen_eq [of a]
  by (cases a) (simp_all add: encode_def put_value_eq put_fixed_eq put_error_eq)

lemma SerializeTo_encode:
  assumes "attr_sized a" "sb_inv sb"
  shows "\<exists>sb'. SerializeTo a sb = Inr sb' \<and> sb_inv sb' \<and> Buffer_Bytes sb' = Buffer_Bytes sb @ encode a"
  unfolding SerializeTo_fill using assms
  by (intro sink.emit_writes) (auto simp: fill_encode length_encode)

section \<open>Decoding reads it back\<close>

text \<open>
  Attributes that survive the round trip: the ranges of the decoders. The error code is a
  class and a number of one byte each.
\<close>

fun attr_wf :: "Attribute \<Rightarrow> bool" where
  "attr_wf (MessageIntegrityAttr v) \<longleftrightarrow> length v = 20"
| "attr_wf (MessageIntegritySHA256Attr v) \<longleftrightarrow> length v = 32"
| "attr_wf (ErrorCodeAttr c r) \<longleftrightarrow> 0 \<le> c \<and> c < 25600 \<and> length r < 65528"
| "attr_wf (MappedAddressAttr v) \<longleftrightarrow> length v \<in> {8, 20}"
| "attr_wf (XorMappedAddressAttr v) \<longleftrightarrow> length v \<in> {8, 20}"
| "attr_wf (OtherAddressAttr v) \<longleftrightarrow> length v \<in> {8, 20}"
| "attr_wf (UnknownAttr t v) \<longleftrightarrow> typeRegistry t = None \<and> length v mod 4 = 0 \<and> length v < 65532"
| "attr_wf a \<longleftrightarrow> length (attr_value a) < 65532"

definition known :: "Attribute \<Rightarrow> bool" where
  "known a \<longleftrightarrow> typeRegistry (GetType a) \<noteq> None"

lemma attr_wf_sized: "attr_wf a \<Longrightarrow> attr_sized a"
  by (cases a) auto

lemma encode_header [simp]:
  "get16 (encode a @ rest) 0 = GetType a"
  "get16 (encode a @ rest) 2 = of_nat (length (attr_value a))"
  by (simp_all add: encode_def be_simps)

lemma drop4_encode: "drop 4 (encode a @ rest) =
    attr_value a @ replicate (calculatePadding (length (attr_value a))) 0 @ rest"
  by (simp add: encode_def)

lemma length_encode_ge: "length (encode a) = 4 + length (attr_value a) + calculatePadding (length (attr_value a))"
  by (simp add: encode_def)

lemma unat_add4: "n < 65532 \<Longrightarrow> unat (4 + of_nat n :: u16) = 4 + n"
  using unat_of_nat16 [of "4 + n"] by simp

lemma take_drop4_encode: "n = length (attr_value a) \<Longrightarrow> take n (drop 4 (encode a @ rest)) = attr_value a"
  unfolding drop4_encode by simp

lemma decode_string_encode:
  assumes "length (attr_value a) < 65532"
  shows "decode_string what (GetType a) nm (encode a @ rest) = Inr (attr_value a)"
  using assms by (simp add: decode_string_def length_encode_ge unat_of_nat16 unat_add4 slice_def take_drop4_encode del: drop_append)

lemma decode_address_encode:
  assumes "length (attr_value a) \<in> {8, 20}"
  shows "decode_address what attr (GetType a) nm (encode a @ rest) = Inr (attr_value a)"
  using assms by (auto simp: decode_address_def length_encode_ge slice_def take_drop4_encode simp del: drop_append)

lemma decode_fixed_encode:
  assumes "length (attr_value a) = n"
  shows "decode_fixed what (GetType a) nm n (encode a @ rest) = Inr (attr_value a)"
  using assms by (auto simp: decode_fixed_def length_encode_ge take_drop4_encode simp del: drop_append)

text \<open>The registry knows exactly the types of the other fifteen constructors.\<close>

lemma typeRegistry_GetType:
  assumes "\<And>t v. a \<noteq> UnknownAttr t v"
  shows "\<exists>a0. typeRegistry (GetType a) = Some a0"
  using assms by (cases a) (auto simp: typeRegistry_def attr_types)

lemma be_value:
  "get32 (put32 w) 0 = w" "get64 (put64 x) 0 = x"
  using get32_put32 [of w "[]"] get64_put64 [of x "[]"] by simp_all

lemma error_code_bytes:
  assumes "0 \<le> c" "c < 25600"
  shows "uint (of_int (c sdiv 100) :: byte) * 100 + uint (of_int (c smod 100) :: byte) = c"
proof -
  have d: "c sdiv 100 = c div 100" "c smod 100 = c mod 100"
    using assms by (simp_all add: signed_divide_int_def signed_modulo_int_def sgn_if)
  have "c div 100 < 256" "0 \<le> c div 100" "c mod 100 < 256" "0 \<le> c mod 100"
    using assms by (auto simp: pos_imp_zdiv_nonneg_iff)
  then have "uint (of_int (c div 100) :: byte) = c div 100" "uint (of_int (c mod 100) :: byte) = c mod 100"
    by (simp_all add: uint_word_of_int)
  then show ?thesis
    unfolding d by simp
qed

lemma decode_error_encode:
  assumes "0 \<le> c" "c < 25600" "length r < 65528"
  shows "ErrorCodeAttr_DecodeFromBytes (encode (ErrorCodeAttr c r) @ rest) spare = Inr (ErrorCodeAttr c r)"
proof -
  let ?a = "ErrorCodeAttr c r"
  have l: "unat (get16 (encode ?a @ rest) 2) = 4 + length r"
    using assms(3) unat_of_nat16 [of "4 + length r"] by simp
  have code: "uint (drop 4 (encode ?a @ rest) ! 1) * 100 + uint (drop 4 (encode ?a @ rest) ! 2) = c"
    unfolding drop4_encode using error_code_bytes [OF assms(1,2)] by simp
  have "slice (drop 4 (encode ?a @ rest) @ spare) 4 (4 + (4 + length r) - 4) = Inr r"
    unfolding drop4_encode by (simp add: slice_def)
  moreover have "8 \<le> length (encode ?a @ rest)"
    by (simp add: length_encode_ge)
  ultimately show ?thesis
    unfolding ErrorCodeAttr_DecodeFromBytes_def Let_def l code by simp
qed

lemma DecodeFromBytes_encode:
  assumes "attr_wf a" "typeRegistry (GetType a) = Some a0"
  shows "DecodeFromBytes a0 (encode a @ rest) spare = Inr a"
proof (cases a)
  case (ChangeRequestAttr w)
  then have "a0 = ChangeRequestAttr 0" using assms(2) by (simp add: typeRegistry_def attr_types)
  with ChangeRequestAttr show ?thesis
    by (simp add: ChangeRequestAttr_DecodeFromBytes_def length_encode_ge slice_def be_value take_drop4_encode del: drop_append)
next
  case (ErrorCodeAttr c r)
  then have "a0 = ErrorCodeAttr 0 []" using assms(2) by (simp add: typeRegistry_def attr_types)
  with ErrorCodeAttr assms(1) show ?thesis by (simp add: decode_error_encode)
next
  case (UnknownAttr t v)
  with assms show ?thesis by simp
qed (insert assms decode_string_encode [of a _ _ rest] decode_address_encode [of a _ _ _ rest]
      decode_fixed_encode [of a _ _ _ rest],
     auto simp: typeRegistry_def attr_types DecodeFromBytes_defs be_value)

section \<open>Lists of attributes\<close>

lemma drop_encode: "attr_sized a \<Longrightarrow> drop (SerializeLen a) (encode a @ rest) = rest"
  by (simp add: length_encode [symmetric])

text \<open>An unknown attribute is skipped together with its padding only when it has none.\<close>

lemma DecodeAttributes_unknown:
  assumes "typeRegistry t = None" "length v < 65536"
  shows "DecodeAttributes (encode (UnknownAttr t v) @ rest) spare =
    DecodeAttributes (replicate (calculatePadding (length v)) 0 @ rest) spare"
proof -
  let ?d = "encode (UnknownAttr t v) @ rest"
  have "drop (unat (get16 ?d 2) + 4) ?d = drop (length v) (drop 4 ?d)"
    using assms(2) by (simp only: encode_header attr_value.simps unat_of_nat16 drop_drop)
  also have "\<dots> = replicate (calculatePadding (length v)) 0 @ rest"
    unfolding drop4_encode by simp
  finally have "drop (unat (get16 ?d 2) + 4) ?d = replicate (calculatePadding (length v)) 0 @ rest" .
  moreover have "\<not> length ?d < 4" by (simp add: length_encode_ge)
  moreover have "typeRegistry (get16 ?d 0) = None" using assms(1) by simp
  ultimately show ?thesis
    by (subst DecodeAttributes.simps) (simp only: Let_def if_False option.case)
qed

lemma DecodeAttributes_known:
  assumes "attr_wf a" "known a"
  shows "DecodeAttributes (encode a @ rest) spare = rbind (DecodeAttributes rest spare) (\<lambda>as. Inr (a # as))"
proof -
  let ?d = "encode a @ rest"
  obtain a0 where a0: "typeRegistry (GetType a) = Some a0" using assms(2) by (auto simp: known_def)
  have "\<not> length ?d < 4" by (simp add: length_encode_ge)
  then show ?thesis
    by (subst DecodeAttributes.simps)
       (simp only: Let_def if_False option.case encode_header a0 DecodeFromBytes_encode [OF assms(1) a0]
        wrap_simps rbind_simps drop_encode [OF attr_wf_sized [OF assms(1)]])
qed

lemma DecodeAttributes_encode:
  "list_all attr_wf attrs \<Longrightarrow>
   DecodeAttributes (concat (map encode attrs)) spare = Inr (filter known attrs)"
proof (induction attrs)
  case Nil
  show ?case by (simp add: DecodeAttributes.simps)
next
  case (Cons a attrs)
  show ?case
  proof (cases "known a")
    case True
    with Cons show ?thesis by (simp add: DecodeAttributes_known)
  next
    case False
    then obtain t v where a: "a = UnknownAttr t v"
      using typeRegistry_GetType [of a] by (auto simp: known_def)
    with Cons False show ?thesis
      by (simp add: DecodeAttributes_unknown calculatePadding_def)
  qed
qed

section \<open>Panics\<close>

lemma unat16_less: "unat (w :: u16) < 65536"
proof -
  have "unat w < 2 ^ LENGTH(16)" by (rule unsigned_less)
  then show ?thesis by simp
qed

lemma unat_add4_wrap: "unat (4 + w :: u16) = (if unat w < 65532 then 4 + unat w else unat w - 65532)"
proof -
  have "unat (4 + w) = (4 + unat w) mod 65536" by (simp add: unat_word_ariths)
  then show ?thesis using unat16_less [of w] by (simp add: mod_if)
qed

lemma tlv_slice_panics:
  assumes "unat w \<le> length b - 4" "4 \<le> length b"
  shows "slice b 4 (unat (4 + w :: u16)) = Inl Panic \<longleftrightarrow> 65532 \<le> unat w"
  using assms unat16_less [of w] by (auto simp: slice_def unat_add4_wrap)

lemma rbind_Inr_Panic [simp]: "rbind m (\<lambda>v. Inr (f v)) = Inl Panic \<longleftrightarrow> m = Inl Panic"
  by (cases m) auto

lemma decode_string_panics: "decode_string what t nm b = Inl Panic \<longleftrightarrow>
    get16 b 0 = t \<and> 65532 \<le> unat (get16 b 2) \<and> 4 + unat (get16 b 2) \<le> length b"
  using tlv_slice_panics [of "get16 b 2" b]
  by (auto simp: decode_string_def Let_def wrong_type_def)

lemma decode_address_panics: "decode_address what attr t nm b \<noteq> Inl Panic"
  using tlv_slice_panics [of "get16 b 2" b]
  by (auto simp: decode_address_def Let_def wrong_type_def)

lemma decode_fixed_panics: "decode_fixed what t nm n b \<noteq> Inl Panic"
  by (simp add: decode_fixed_def Let_def wrong_type_def)

lemma ChangeRequest_panics: "ChangeRequestAttr_DecodeFromBytes b \<noteq> Inl Panic"
  using tlv_slice_panics [of "get16 b 2" b]
  by (auto simp: ChangeRequestAttr_DecodeFromBytes_def Let_def wrong_type_def)

lemma Unknown_panics: "UnknownAttr_DecodeFromBytes b = Inl Panic \<longleftrightarrow>
    65532 \<le> unat (get16 b 2) \<and> 4 + unat (get16 b 2) \<le> length b"
  using tlv_slice_panics [of "get16 b 2" b]
  by (auto simp: UnknownAttr_DecodeFromBytes_def Let_def)

lemma ErrorCode_panics: "ErrorCodeAttr_DecodeFromBytes b spare = Inl Panic \<longleftrightarrow>
    8 \<le> length b \<and> get16 b 0 = AttrErrorCode \<and> length b + length spare < 4 + unat (get16 b 2)"
  by (auto simp: ErrorCodeAttr_DecodeFromBytes_def Let_def wrong_type_def slice_def)

text \<open>C33. An attribute decoder panics in two cases only: a string or unknown attribute whose
  length overflows the 16-bit sum with the four header bytes, and an error code whose length
  passes the end of the memory behind the slice. Shorter lengths and wrong types are errors.\<close>

theorem attribute_decode_panics:
  "DecodeFromBytes a0 b spare = Inl Panic \<longleftrightarrow>
     (let t = get16 b 0; n = unat (get16 b 2); overflow = (65532 \<le> n \<and> 4 + n \<le> length b)
      in case a0 of
           UsernameAttr _ \<Rightarrow> t = AttrUsername \<and> overflow
         | RealmAttr _ \<Rightarrow> t = AttrRealm \<and> overflow
         | NonceAttr _ \<Rightarrow> t = AttrNonce \<and> overflow
         | UnknownAttr _ _ \<Rightarrow> overflow
         | ErrorCodeAttr _ _ \<Rightarrow> t = AttrErrorCode \<and> 8 \<le> length b \<and> length b + length spare < 4 + n
         | _ \<Rightarrow> False)"
  by (cases a0)
     (auto simp: Let_def DecodeFromBytes_defs(1-5,7-13,16) decode_string_panics decode_address_panics
        decode_fixed_panics ChangeRequest_panics Unknown_panics ErrorCode_panics)

end
