(* ===== verification/Stun_Message.thy ===== *)
theory Stun_Message
  imports Stun_Codec
begin

text \<open>
  STUN message types and transport addresses (\<^verbatim>\<open>stun.go\<close>), the header (\<^verbatim>\<open>header.go\<close>), messages
  (\<^verbatim>\<open>message.go\<close>) and their fingerprint (\<^verbatim>\<open>fingerprint.go\<close>). A message keeps its attributes and
  its serialized bytes side by side; the invariant \<open>msg_inv\<close> says that they agree.
\<close>

section \<open>Message types\<close>

type_synonym Method = u16
type_synonym Class = u16

definition MsgTypeBindingRequest :: u16 where "MsgTypeBindingRequest = 0x0001"
definition MsgTypeBindingResponse :: u16 where "MsgTypeBindingResponse = 0x0101"
definition MsgTypeBindingErrorResponse :: u16 where "MsgTypeBindingErrorResponse = 0x0111"
definition FingerprintXorValue :: u32 where "FingerprintXorValue = 0x5354554e"
definition MethodBinding :: Method where "MethodBinding = 0x0001"
definition ClassRequest :: Class where "ClassRequest = 0x0000"
definition ClassIndication :: Class where "ClassIndication = 0x0001"
definition ClassSuccessResponse :: Class where "ClassSuccessResponse = 0x0002"
definition ClassErrorResponse :: Class where "ClassErrorResponse = 0x0003"

lemmas stun_consts =
  MsgTypeBindingRequest_def MsgTypeBindingResponse_def MsgTypeBindingErrorResponse_def MethodBinding_def
  ClassRequest_def ClassIndication_def ClassSuccessResponse_def ClassErrorResponse_def

definition Class_String :: "Class \<Rightarrow> string" where
  "Class_String c =
     (if c = ClassRequest then ''request'' else if c = ClassIndication then ''indication''
      else if c = ClassSuccessResponse then ''success response''
      else if c = ClassErrorResponse then ''error response''
      else ''unknown class: 0x'' @ hex4 c)"

definition Method_String :: "Method \<Rightarrow> string" where
  "Method_String m = (if m = MethodBinding then ''binding'' else ''unknown method: 0x'' @ hex4 m)"

definition MessageMethod :: "u16 \<Rightarrow> Method" where
  "MessageMethod msgType =
     (drop_bit 2 (msgType AND 0x3E00) OR drop_bit 1 (msgType AND 0x00E0) OR (msgType AND 0x000F))"

definition MessageClass :: "u16 \<Rightarrow> Class" where
  "MessageClass msgType = (drop_bit 7 (msgType AND 0x0100) OR drop_bit 4 (msgType AND 0x0010))"

definition IsRequestType :: "u16 \<Rightarrow> bool" where
  "IsRequestType msgType \<longleftrightarrow> msgType AND 0x0110 = 0x0000"

definition IsIndicationType :: "u16 \<Rightarrow> bool" where
  "IsIndicationType msgType \<longleftrightarrow> msgType AND 0x0110 = 0x0010"

definition IsSuccessResponseType :: "u16 \<Rightarrow> bool" where
  "IsSuccessResponseType msgType \<longleftrightarrow> msgType AND 0x0110 = 0x0100"

definition IsErrorResponseType :: "u16 \<Rightarrow> bool" where
  "IsErrorResponseType msgType \<longleftrightarrow> msgType AND 0x0110 = 0x0110"

definition EncodeMessageType :: "Method \<Rightarrow> Class \<Rightarrow> u16" where
  "EncodeMessageType m c =
     (push_bit 2 (m AND 0x1F80) OR push_bit 1 (m AND 0x0070) OR (m AND 0x000F) OR
      push_bit 7 (c AND 0x0002) OR push_bit 4 (c AND 0x0001))"

definition ValidateMethodAndClass :: "u16 \<Rightarrow> Method \<Rightarrow> Class list \<Rightarrow> unit result" where
  "ValidateMethodAndClass msgType expectedMethod allowedClasses =
     (let meth = MessageMethod msgType
      in if meth \<noteq> expectedMethod
         then Inl (Err (''unsupported STUN method: got '' @ Method_String meth @ '' want '' @
                        Method_String expectedMethod))
         else let cls = MessageClass msgType
         in if cls \<in> set allowedClasses then Inr ()
            else Inl (Err (''unsupported STUN class '' @ Class_String cls @ '' for method '' @
                           Method_String expectedMethod)))"

section \<open>Transport addresses\<close>

text \<open>
  A \<^verbatim>\<open>net.Addr\<close>. For an address of another type the code parses its string: \<open>OtherAddr\<close> carries
  what \<^verbatim>\<open>net.ParseIP\<close> and \<^verbatim>\<open>strconv.Atoi\<close> make of the host and the port. The address printed at
  the end of an error text is left out.
\<close>

datatype NetAddr = IPAddr ip | TCPAddr ip int | UDPAddr ip int | OtherAddr ip "int result"

fun addr_ip_port :: "NetAddr \<Rightarrow> (ip \<times> int) result" where
  "addr_ip_port (IPAddr a) = Inr (a, 0)"
| "addr_ip_port (TCPAddr a p) = Inr (a, p)"
| "addr_ip_port (UDPAddr a p) = Inr (a, p)"
| "addr_ip_port (OtherAddr a p) = rbind (wrap ''failed to parse address'' p) (\<lambda>p. Inr (a, p))"

definition xor_bytes :: "bytes \<Rightarrow> bytes \<Rightarrow> bytes" where
  "xor_bytes xs ys = map2 (XOR) xs ys"

definition xorPort :: "u16 \<Rightarrow> u16" where
  "xorPort port = port XOR ucast (drop_bit 16 MagicCookie)"

definition CreateXorMappedAddress :: "NetAddr \<Rightarrow> bytes \<Rightarrow> bytes result" where
  "CreateXorMappedAddress addr txID =
     rbind (addr_ip_port addr) (\<lambda>(a, port).
       if a = [] then Inl (Err ''invalid IP address'')
       else let cookie = put32 MagicCookie; p = put16 (xorPort (of_int port))
       in case To4 a of
            Some b \<Rightarrow> Inr (put16 AttrXorMappedAddress @ put16 8 @ [0, 0x01] @ p @ xor_bytes b cookie)
          | None \<Rightarrow>
              (case To16 a of
                 None \<Rightarrow> Inl Panic
               | Some b \<Rightarrow> Inr (put16 AttrXorMappedAddress @ put16 20 @ [0, 0x02] @ p @
                   xor_bytes (take 4 b) cookie @ xor_bytes (drop 4 b) txID)))"

definition NewXorMappedAddressAttr :: "NetAddr \<Rightarrow> bytes \<Rightarrow> Attribute result" where
  "NewXorMappedAddressAttr addr txID =
     rbind (CreateXorMappedAddress addr txID) XorMappedAddressAttr_DecodeFromBytes"

definition DecodeXorMappedAddress :: "bytes \<Rightarrow> bytes \<Rightarrow> (ip \<times> nat) result" where
  "DecodeXorMappedAddress v txID =
     (if length v < 8 then Inl (Err ''xor mapped address value too short'')
      else let family = v ! 1; port = unat (xorPort (get16 v 2));
               first4 = map (\<lambda>i. v ! (4 + i) XOR ucast (drop_bit ((3 - i) * 8) MagicCookie)) [0..<4]
      in if family = 0x01 then Inr (first4, port)
         else if family = 0x02
         then (if length v < 20 then Inl (Err ''xor mapped address IPv6 value too short'')
               else Inr (first4 @ map (\<lambda>i. v ! (4 + i) XOR txID ! (i - 4)) [4..<16], port))
         else Inl (Err (''unsupported address family: '' @ show_nat (unat family))))"

definition DecodeMappedAddress :: "bytes \<Rightarrow> (ip \<times> nat) result" where
  "DecodeMappedAddress v =
     (if length v < 4 then Inl Panic
      else let family = v ! 1; port = unat (get16 v 2)
      in if family = 0x01 then rbind (slice v 4 8) (\<lambda>a. Inr (a, port))
         else if family = 0x02 then rbind (slice v 4 20) (\<lambda>a. Inr (a, port))
         else Inl (Err (''unsupported address family: '' @ show_nat (unat family))))"

definition DecodeOtherAddress :: "bytes \<Rightarrow> (ip \<times> nat) result" where
  "DecodeOtherAddress v =
     (if length v < 4 then Inl (Err ''other-address value too short'')
      else let family = v ! 1; port = unat (get16 v 2)
      in if family = 0x01
         then (if length v < 8 then Inl (Err ''other-address IPv4 value too short'')
               else Inr (take 4 (drop 4 v), port))
         else if family = 0x02
         then (if length v < 20 then Inl (Err ''other-address IPv6 value too short'')
               else Inr (take 16 (drop 4 v), port))
         else Inl (Err (''unsupported address family: '' @ show_nat (unat family))))"

section \<open>The header\<close>

record Header =
  hd_Type :: u16
  hd_Length :: u16
  hd_MagicCookie :: u32
  hd_TransactionID :: bytes

definition NewHeader :: "u16 \<Rightarrow> bytes \<Rightarrow> Header" where
  "NewHeader msgType txID =
     \<lparr>hd_Type = msgType, hd_Length = 0, hd_MagicCookie = MagicCookie, hd_TransactionID = txID\<rparr>"

definition Header_Validate :: "Header \<Rightarrow> unit result" where
  "Header_Validate h =
     (if hd_Type h AND 0xC000 \<noteq> 0 then Inl (Err ''invalid type: top two bits must be zero'')
      else if hd_MagicCookie h \<noteq> MagicCookie then Inl (Err ''invalid magic cookie'')
      else if hd_Length h mod 4 \<noteq> 0 then Inl (Err ''invalid length: must be 32-bit aligned'')
      else Inr ())"

definition Header_DecodeFromBytes :: "bytes \<Rightarrow> Header result" where
  "Header_DecodeFromBytes data =
     (if length data < 20
      then Inl (Err (''STUN message too short: '' @ show_nat (length data) @ '' bytes''))
      else Inr \<lparr>hd_Type = get16 data 0, hd_Length = get16 data 2, hd_MagicCookie = get32 data 4,
                hd_TransactionID = take 12 (drop 8 data)\<rparr>)"

definition put_header :: "Header \<Rightarrow> bytes \<Rightarrow> bytes result" where
  "put_header h b =
     Inr (splice (splice (splice (splice b 0 (put16 (hd_Type h))) 2 (put16 (hd_Length h)))
                  4 (put32 (hd_MagicCookie h))) 8 (hd_TransactionID h))"

definition Header_SerializeTo :: "Header \<Rightarrow> Buffer \<Rightarrow> Buffer result" where
  "Header_SerializeTo h sb = Append sb 20 (put_header h)"

section \<open>Messages\<close>

record Message =
  msg_Header :: Header
  msg_Attributes :: "Attribute list"
  msg_Raw :: Buffer
  msg_fingerprint :: bool

definition WithFingerprint :: "Message \<Rightarrow> Message" where
  "WithFingerprint msg = msg\<lparr>msg_fingerprint := True\<rparr>"

definition unsafeAppendAttribute :: "Message \<Rightarrow> Attribute \<Rightarrow> Message result" where
  "unsafeAppendAttribute msg attr =
     (let msg1 = msg\<lparr>msg_Attributes := msg_Attributes msg @ [attr],
                     msg_Header := (msg_Header msg)\<lparr>hd_Length := hd_Length (msg_Header msg) + of_nat (SerializeLen attr)\<rparr>\<rparr>
      in rbind (wrap ''failed to serialize attribute'' (SerializeTo attr (msg_Raw msg1))) (\<lambda>raw.
           Inr (msg1\<lparr>msg_Raw := raw\<lparr>sb_mem := splice (sb_mem raw) 2 (put16 (hd_Length (msg_Header msg1)))\<rparr>\<rparr>)))"

definition appendAttribute :: "Message \<Rightarrow> Attribute \<Rightarrow> Message result" where
  "appendAttribute msg attr =
     (if msg_Attributes msg = [] then unsafeAppendAttribute msg attr
      else let la = GetType (last (msg_Attributes msg)); t = GetType attr
      in if la = AttrFingerprint then Inl (Err ''cannot append attribute after FINGERPRINT attribute'')
         else if la = AttrMessageIntegrity \<and> t \<noteq> AttrMessageIntegritySHA256 \<and> t \<noteq> AttrFingerprint
         then Inl (Err ''cannot append attribute after MESSAGE-INTEGRITY attribute'')
         else if la = AttrMessageIntegritySHA256 \<and> t \<noteq> AttrFingerprint
         then Inl (Err ''cannot append attribute after MESSAGE-INTEGRITY-SHA256 attribute'')
         else unsafeAppendAttribute msg attr)"

fun AppendAttribute :: "Message \<Rightarrow> Attribute list \<Rightarrow> Message result" where
  "AppendAttribute msg [] = Inr msg"
| "AppendAttribute msg (attr # attrs) = rbind (appendAttribute msg attr) (\<lambda>msg1. AppendAttribute msg1 attrs)"

fun append_each :: "Message \<Rightarrow> Attribute list \<Rightarrow> Message result" where
  "append_each msg [] = Inr msg"
| "append_each msg (attr # attrs) =
     rbind (wrap ''failed to add attribute'' (AppendAttribute msg [attr])) (\<lambda>msg1. append_each msg1 attrs)"

definition NewMessageWithTransactionID :: "u16 \<Rightarrow> Attribute list \<Rightarrow> bytes \<Rightarrow> Message result" where
  "NewMessageWithTransactionID msgType attrs txID =
     (let h = NewHeader msgType txID
      in rbind (wrap ''failed to serialize message'' (Header_SerializeTo h emptyBuffer)) (\<lambda>raw.
           append_each \<lparr>msg_Header = h, msg_Attributes = [], msg_Raw = raw, msg_fingerprint = False\<rparr> attrs))"

text \<open>\<open>NewMessage\<close> draws the transaction identifier; \<open>rand\<close> is what the random source returned.\<close>

definition NewMessage :: "bytes result \<Rightarrow> u16 \<Rightarrow> Attribute list \<Rightarrow> Message result" where
  "NewMessage rand msgType attrs =
     rbind (wrap ''failed to generate transaction ID'' rand) (NewMessageWithTransactionID msgType attrs)"

definition Msg_DecodeFromBytes :: "Message \<Rightarrow> bytes \<Rightarrow> bytes \<Rightarrow> Message result" where
  "Msg_DecodeFromBytes msg data spare =
     rbind (Header_DecodeFromBytes data) (\<lambda>h.
       let n = 20 + unat (hd_Length h)
       in if length data < n
          then Inl (Err (''STUN message truncated: expected '' @ show_nat n @ '' bytes, got '' @ show_nat (length data)))
          else rbind (DecodeAttributes (take (unat (hd_Length h)) (drop 20 data)) (drop n data @ spare)) (\<lambda>attrs.
                 Inr (msg\<lparr>msg_Header := h, msg_Attributes := attrs, msg_Raw := NewBuffer (data @ spare) n\<rparr>)))"

definition emptyMessage :: Message where
  "emptyMessage = \<lparr>msg_Header = \<lparr>hd_Type = 0, hd_Length = 0, hd_MagicCookie = 0, hd_TransactionID = replicate 12 0\<rparr>,
     msg_Attributes = [], msg_Raw = emptyBuffer, msg_fingerprint = False\<rparr>"

definition DecodeMessage :: "bytes \<Rightarrow> bytes \<Rightarrow> Message result" where
  "DecodeMessage data spare = Msg_DecodeFromBytes emptyMessage data spare"

definition Msg_SerializeLen :: "Message \<Rightarrow> nat" where
  "Msg_SerializeLen msg =
     (let n = foldl (\<lambda>n attr. if GetType attr = AttrFingerprint then n else n + SerializeLen attr) 20 (msg_Attributes msg);
          hasFingerprint = list_ex (\<lambda>attr. GetType attr = AttrFingerprint) (msg_Attributes msg)
      in if msg_fingerprint msg \<and> \<not> hasFingerprint then n + 8 else n)"

fun FindAttribute :: "Attribute list \<Rightarrow> u16 \<Rightarrow> Attribute option" where
  "FindAttribute [] t = None"
| "FindAttribute (a # as) t = (if GetType a = t then Some a else FindAttribute as t)"

section \<open>The fingerprint\<close>

text \<open>
  The checksum of the message with the length field set as if the fingerprint was there; the
  field is restored afterwards, so the memory does not change. \<open>spare\<close> is the memory behind.
\<close>

definition CalculateFingerprint :: "bytes \<Rightarrow> bytes \<Rightarrow> u32 result" where
  "CalculateFingerprint message spare =
     (if length message + length spare < 4 then Inl Panic
      else let attrLen = of_int (int (length message) - 20) + 8;
               mem = splice (message @ spare) 2 (put16 attrLen)
      in Inr (ChecksumIEEE (take (length message) mem) XOR FingerprintXorValue))"

definition NewFingerprintAttr :: "Buffer \<Rightarrow> Attribute result" where
  "NewFingerprintAttr raw =
     rbind (CalculateFingerprint (Buffer_Bytes raw) (drop (sb_written raw) (sb_mem raw))) (\<lambda>v.
       Inr (FingerprintAttr v))"

definition AddFingerprint :: "Message \<Rightarrow> Message result" where
  "AddFingerprint msg =
     (let append_fp = (\<lambda>m. rbind (NewFingerprintAttr (msg_Raw m)) (appendAttribute m))
      in if msg_Attributes msg = [] then append_fp msg
         else let la = last (msg_Attributes msg)
         in if GetType la = AttrFingerprint
            then if Buffer_Len (msg_Raw msg) < SerializeLen la then Inl Panic
            else append_fp (msg\<lparr>msg_Attributes := butlast (msg_Attributes msg),
                   msg_Header := (msg_Header msg)\<lparr>hd_Length := hd_Length (msg_Header msg) - of_nat (SerializeLen la)\<rparr>,
                   msg_Raw := NewBuffer (sb_mem (msg_Raw msg)) (Buffer_Len (msg_Raw msg) - SerializeLen la)\<rparr>)
            else append_fp msg)"

definition VerifyFingerprint :: "Message \<Rightarrow> bool result" where
  "VerifyFingerprint msg =
     (case FindAttribute (msg_Attributes msg) AttrFingerprint of
        Some (FingerprintAttr v) \<Rightarrow>
          (let raw = msg_Raw msg; n = length (Buffer_Bytes raw)
           in if n < 8 then Inr False
              else rbind (CalculateFingerprint (take (n - 8) (sb_mem raw)) (drop (n - 8) (sb_mem raw))) (\<lambda>expected.
                     Inr (v = expected)))
      | _ \<Rightarrow> Inr False)"

section \<open>Writing and reading messages\<close>

fun serialize_attrs :: "Attribute list \<Rightarrow> Buffer \<Rightarrow> Buffer result" where
  "serialize_attrs [] sb = Inr sb"
| "serialize_attrs (a # as) sb = rbind (SerializeTo a sb) (serialize_attrs as)"

text \<open>Serializing to another buffer: the message with its fingerprint, and the buffer.\<close>

definition Msg_SerializeTo :: "Message \<Rightarrow> Buffer \<Rightarrow> (Message \<times> Buffer) result" where
  "Msg_SerializeTo msg sb =
     rbind (if msg_fingerprint msg then AddFingerprint msg else Inr msg) (\<lambda>msg1.
       rbind (Header_SerializeTo (msg_Header msg1) sb) (\<lambda>sb1.
         rbind (serialize_attrs (msg_Attributes msg1) sb1) (\<lambda>sb2. Inr (msg1, sb2))))"

text \<open>\<open>SerializeToRaw\<close>: the buffer is the message's own, so a fingerprint is appended to it first.\<close>

definition SerializeToRaw :: "Message \<Rightarrow> Message result" where
  "SerializeToRaw msg =
     (let msg0 = msg\<lparr>msg_Raw := Buffer_Reset (msg_Raw msg)\<rparr>
      in rbind (if msg_fingerprint msg0 then AddFingerprint msg0 else Inr msg0) (\<lambda>msg1.
           rbind (Header_SerializeTo (msg_Header msg1) (msg_Raw msg1)) (\<lambda>sb1.
             rbind (serialize_attrs (msg_Attributes msg1) sb1) (\<lambda>sb2. Inr (msg1\<lparr>msg_Raw := sb2\<rparr>)))))"

text \<open>\<open>WriteTo\<close>: the message and the bytes handed to the writer.\<close>

definition Msg_WriteTo :: "Message \<Rightarrow> (Message \<times> bytes) result" where
  "Msg_WriteTo msg =
     rbind (if msg_fingerprint msg then AddFingerprint msg else Inr msg) (\<lambda>msg1.
       Inr (msg1, Buffer_Bytes (msg_Raw msg1)))"

definition ParseError :: "Message \<Rightarrow> (int \<times> bytes) result" where
  "ParseError msg =
     (case FindAttribute (msg_Attributes msg) AttrErrorCode of
        Some (ErrorCodeAttr c r) \<Rightarrow> Inr (c, r)
      | _ \<Rightarrow> Inl (Err ''error code attribute not found''))"

definition MappedAddrPort :: "Message \<Rightarrow> (ip \<times> nat) result" where
  "MappedAddrPort msg =
     (case (case FindAttribute (msg_Attributes msg) AttrXorMappedAddress of
              Some a \<Rightarrow> Some a | None \<Rightarrow> FindAttribute (msg_Attributes msg) AttrMappedAddress) of
        Some (XorMappedAddressAttr v) \<Rightarrow> DecodeXorMappedAddress v (hd_TransactionID (msg_Header msg))
      | Some (MappedAddressAttr v) \<Rightarrow> DecodeMappedAddress v
      | _ \<Rightarrow> Inl (Err ''mapped address not found''))"

section \<open>Message types: encoding and decoding\<close>

lemma all_less_16: "(\<forall>n < 16. P n) \<longleftrightarrow> P 0 \<and> P 1 \<and> P 2 \<and> P 3 \<and> P 4 \<and> P 5 \<and> P 6 \<and> P 7 \<and>
    P 8 \<and> P 9 \<and> P 10 \<and> P 11 \<and> P 12 \<and> P 13 \<and> P 14 \<and> P (15 :: nat)"
  by (simp add: eval_nat_numeral All_less_Suc conj_ac)

lemma word16_eqI: "(\<forall>n < 16. bit x n = bit y n) \<Longrightarrow> x = (y :: u16)"
  by (rule bit_word_eqI) simp

lemma high_bits_clear: "unat w < 2 ^ k \<Longrightarrow> k \<le> n \<Longrightarrow> \<not> bit (w :: u16) n"
proof -
  assume "unat w < 2 ^ k" "k \<le> n"
  then have "take_bit k (unat w) = unat w" by (simp add: take_bit_nat_eq_self)
  then have "\<not> bit (unat w) n" using \<open>k \<le> n\<close> by (metis bit_take_bit_iff not_le)
  then show ?thesis by (auto simp: bit_simps dest: bit_imp_le_length)
qed

lemma bit_mult_2: "bit (w * 2 :: u16) n \<longleftrightarrow> 0 < n \<and> n < 16 \<and> bit w (n - 1)"
  using bit_double_iff [of w n] by (auto simp: mult.commute)

lemma bit_div_2: "bit (w div 2 :: u16) n \<longleftrightarrow> bit w (Suc n)"
  using bit_drop_bit_eq [of 1 w] by (simp add: fun_eq_iff drop_bit_Suc)

lemma method_of_type:
  assumes "m < 0x1000"
  shows "MessageMethod (EncodeMessageType m c) = m"
proof (rule word16_eqI)
  have "\<not> bit m n" if "12 \<le> n" for n using high_bits_clear [of m 12 n] assms that by (simp add: word_less_nat_alt)
  then show "\<forall>n < 16. bit (MessageMethod (EncodeMessageType m c)) n = bit m n"
    unfolding all_less_16 by (simp add: MessageMethod_def EncodeMessageType_def bit_simps bit_mult_2)
qed

lemma class_of_type:
  assumes "c < 4"
  shows "MessageClass (EncodeMessageType m c) = c"
proof (rule word16_eqI)
  have "\<not> bit c n" if "2 \<le> n" for n using high_bits_clear [of c 2 n] assms that by (simp add: word_less_nat_alt)
  then show "\<forall>n < 16. bit (MessageClass (EncodeMessageType m c)) n = bit c n"
    unfolding all_less_16 by (simp add: MessageClass_def EncodeMessageType_def bit_simps)
qed

lemma type_top_bits:
  assumes "m < 0x1000"
  shows "EncodeMessageType m c AND 0xC000 = 0"
proof (rule word16_eqI)
  have "\<not> bit m n" if "12 \<le> n" for n using high_bits_clear [of m 12 n] assms that by (simp add: word_less_nat_alt)
  then show "\<forall>n < 16. bit (EncodeMessageType m c AND 0xC000) n = bit 0 n"
    unfolding all_less_16 by (simp add: EncodeMessageType_def bit_simps bit_mult_2)
qed

lemma type_of_parts:
  assumes "t AND 0xC000 = 0"
  shows "EncodeMessageType (MessageMethod t) (MessageClass t) = t"
proof (rule word16_eqI)
  have "\<not> bit t 14" "\<not> bit t 15"
    using arg_cong [OF assms, of "\<lambda>w. bit w 14"] arg_cong [OF assms, of "\<lambda>w. bit w 15"]
    by (simp_all add: bit_simps)
  then show "\<forall>n < 16. bit (EncodeMessageType (MessageMethod t) (MessageClass t)) n = bit t n"
    unfolding all_less_16
    by (simp add: EncodeMessageType_def MessageMethod_def MessageClass_def bit_simps bit_mult_2 bit_div_2)
qed

lemma word16_eq_iff: "x = (y :: u16) \<longleftrightarrow> (\<forall>n < 16. bit x n = bit y n)"
  by (auto intro: word16_eqI)

lemma class_predicates:
  "IsRequestType t \<longleftrightarrow> MessageClass t = ClassRequest"
  "IsIndicationType t \<longleftrightarrow> MessageClass t = ClassIndication"
  "IsSuccessResponseType t \<longleftrightarrow> MessageClass t = ClassSuccessResponse"
  "IsErrorResponseType t \<longleftrightarrow> MessageClass t = ClassErrorResponse"
  unfolding IsRequestType_def IsIndicationType_def IsSuccessResponseType_def IsErrorResponseType_def
    MessageClass_def stun_consts word16_eq_iff all_less_16
  by (simp_all add: bit_simps)

text \<open>C32. A message type is its method and class: decoding an encoded 12-bit method and 2-bit class
  gives them back with the top two bits clear, encoding the decoded parts of a type with clear
  top bits gives the type back, and the four class predicates are tests of the class.\<close>

theorem message_type_roundtrip:
  "(m < 0x1000 \<and> c < 4 \<longrightarrow>
      MessageMethod (EncodeMessageType m c) = m \<and> MessageClass (EncodeMessageType m c) = c \<and>
      EncodeMessageType m c AND 0xC000 = 0) \<and>
   (t AND 0xC000 = 0 \<longrightarrow> EncodeMessageType (MessageMethod t) (MessageClass t) = t) \<and>
   (IsRequestType t \<longleftrightarrow> MessageClass t = ClassRequest) \<and>
   (IsIndicationType t \<longleftrightarrow> MessageClass t = ClassIndication) \<and>
   (IsSuccessResponseType t \<longleftrightarrow> MessageClass t = ClassSuccessResponse) \<and>
   (IsErrorResponseType t \<longleftrightarrow> MessageClass t = ClassErrorResponse)"
  using method_of_type class_of_type type_top_bits type_of_parts class_predicates by blast

theorem message_type_roundtrip_witness:
  "MessageMethod (EncodeMessageType 0x0ABC 3) = 0x0ABC \<and>
   EncodeMessageType (MessageMethod 0x0111) (MessageClass 0x0111) = 0x0111"
  using message_type_roundtrip [of "0x0ABC" 3 "0x0111"] by simp

section \<open>The invariant\<close>

definition hbytes :: "Header \<Rightarrow> bytes" where
  "hbytes h = put16 (hd_Type h) @ put16 (hd_Length h) @ put32 (hd_MagicCookie h) @ hd_TransactionID h"

definition attrs_len :: "Attribute list \<Rightarrow> nat" where
  "attrs_len as = sum_list (map SerializeLen as)"

definition msg_inv :: "Message \<Rightarrow> bool" where
  "msg_inv msg \<longleftrightarrow>
     sb_inv (msg_Raw msg) \<and> length (hd_TransactionID (msg_Header msg)) = 12 \<and>
     list_all attr_sized (msg_Attributes msg) \<and>
     hd_Length (msg_Header msg) = of_nat (attrs_len (msg_Attributes msg)) \<and>
     Buffer_Bytes (msg_Raw msg) = hbytes (msg_Header msg) @ concat (map encode (msg_Attributes msg))"

lemma length_hbytes [simp]: "length (hbytes h) = 8 + length (hd_TransactionID h)"
  by (simp add: hbytes_def)

lemma attrs_len_simps [simp]:
  "attrs_len [] = 0" "attrs_len (a # as) = SerializeLen a + attrs_len as"
  "attrs_len (as @ bs) = attrs_len as + attrs_len bs"
  by (simp_all add: attrs_len_def)

lemma length_concat_encode:
  "list_all attr_sized as \<Longrightarrow> length (concat (map encode as)) = attrs_len as"
  by (induction as) (simp_all add: length_encode)

lemma put_header_eq:
  assumes "length b = 20" "length (hd_TransactionID h) = 12"
  shows "put_header h b = Inr (hbytes h)"
proof -
  obtain b0 b1 b2 b3 where b: "b = b0 @ b1 @ b2 @ b3" "length b0 = 2" "length b1 = 2" "length b2 = 4" "length b3 = 12"
    by (rule split_tlv [of b 4 12]) (use assms in simp)
  let ?t = "put16 (hd_Type h)" let ?l = "put16 (hd_Length h)" let ?m = "put32 (hd_MagicCookie h)"
  have "splice b 0 ?t = ?t @ b1 @ b2 @ b3"
    unfolding b(1) by (rule splice_front) (simp add: b)
  moreover have "splice (?t @ b1 @ b2 @ b3) 2 ?l = ?t @ ?l @ b2 @ b3"
    by (rule splice_mid) (simp_all add: b(2-5))
  moreover have "splice (?t @ ?l @ b2 @ b3) 4 ?m = ?t @ ?l @ ?m @ b3"
    using splice_mid [of "?t @ ?l" 4 b2 ?m b3] by (simp add: b(2-5))
  moreover have "splice (?t @ ?l @ ?m @ b3) 8 (hd_TransactionID h) = ?t @ ?l @ ?m @ hd_TransactionID h"
    using splice_end [of "?t @ ?l @ ?m" 8 b3 "hd_TransactionID h"] by (simp add: b(2-5) assms(2))
  ultimately show ?thesis
    by (simp add: put_header_def hbytes_def)
qed

lemma Header_SerializeTo_ok:
  assumes "sb_inv sb" "length (hd_TransactionID h) = 12"
  shows "\<exists>sb'. Header_SerializeTo h sb = Inr sb' \<and> sb_inv sb' \<and> Buffer_Bytes sb' = Buffer_Bytes sb @ hbytes h"
  unfolding Header_SerializeTo_def using assms
  by (intro sink.emit_writes) (auto simp: put_header_eq)

text \<open>Overwriting the length field of the serialized header.\<close>

lemma Buffer_Bytes_patch:
  assumes "sb_inv b" "4 \<le> sb_written b"
  shows "Buffer_Bytes (b\<lparr>sb_mem := splice (sb_mem b) 2 (put16 w)\<rparr>) = splice (Buffer_Bytes b) 2 (put16 w)"
    and "sb_inv (b\<lparr>sb_mem := splice (sb_mem b) 2 (put16 w)\<rparr>)"
  using assms by (auto simp: Buffer_Bytes_def sb_inv_def splice_fit min_def take_Cons' drop_take)

lemma splice_length_field:
  "splice (hbytes h @ rest) 2 (put16 w) = hbytes (h\<lparr>hd_Length := w\<rparr>) @ rest"
  by (simp add: hbytes_def splice_def)

lemma sb_written_Bytes: "sb_inv b \<Longrightarrow> length (Buffer_Bytes b) = sb_written b"
  by (simp add: sb_inv_def Buffer_Bytes_def)

text \<open>
  Removing an attribute leaves a stale length field in the serialized header until the next
  attribute is appended: \<open>msg_pre\<close> is the invariant but for this field.
\<close>

definition msg_pre :: "Message \<Rightarrow> bool" where
  "msg_pre msg \<longleftrightarrow>
     sb_inv (msg_Raw msg) \<and> length (hd_TransactionID (msg_Header msg)) = 12 \<and>
     list_all attr_sized (msg_Attributes msg) \<and>
     hd_Length (msg_Header msg) = of_nat (attrs_len (msg_Attributes msg)) \<and>
     (\<exists>l. Buffer_Bytes (msg_Raw msg) =
        hbytes ((msg_Header msg)\<lparr>hd_Length := l\<rparr>) @ concat (map encode (msg_Attributes msg)))"

lemma msg_inv_pre: "msg_inv msg \<Longrightarrow> msg_pre msg"
  unfolding msg_inv_def msg_pre_def by (metis Header.surjective Header.update_convs(2))

lemma unsafeAppend_ok:
  assumes inv: "msg_pre msg" and a: "attr_sized a"
  shows "\<exists>msg'. unsafeAppendAttribute msg a = Inr msg' \<and> msg_inv msg' \<and>
    msg_Attributes msg' = msg_Attributes msg @ [a] \<and> msg_fingerprint msg' = msg_fingerprint msg \<and>
    msg_Header msg' = (msg_Header msg)\<lparr>hd_Length := hd_Length (msg_Header msg) + of_nat (SerializeLen a)\<rparr>"
proof -
  from SerializeTo_encode [OF a, of "msg_Raw msg"] inv obtain raw where
    raw: "SerializeTo a (msg_Raw msg) = Inr raw" "sb_inv raw"
      "Buffer_Bytes raw = Buffer_Bytes (msg_Raw msg) @ encode a" by (auto simp: msg_pre_def)
  have "4 \<le> sb_written raw"
    using raw(3) length_encode_ge [of a] sb_written_Bytes [OF raw(2)] by simp
  note patch = Buffer_Bytes_patch [OF raw(2) this]
  obtain l where "Buffer_Bytes raw =
      hbytes ((msg_Header msg)\<lparr>hd_Length := l\<rparr>) @ concat (map encode (msg_Attributes msg)) @ encode a"
    using inv raw(3) by (auto simp: msg_pre_def)
  with patch show ?thesis
    using inv a by (simp add: unsafeAppendAttribute_def Let_def raw(1) msg_pre_def msg_inv_def splice_length_field)
qed

text \<open>
  What may follow what: nothing after a fingerprint, only a fingerprint or the SHA-256
  integrity after an integrity attribute, only a fingerprint after the SHA-256 one.
\<close>

definition may_follow :: "u16 \<Rightarrow> u16 \<Rightarrow> bool" where
  "may_follow la t \<longleftrightarrow> la \<noteq> AttrFingerprint \<and>
     (la = AttrMessageIntegrity \<longrightarrow> t = AttrMessageIntegritySHA256 \<or> t = AttrFingerprint) \<and>
     (la = AttrMessageIntegritySHA256 \<longrightarrow> t = AttrFingerprint)"

fun ordered :: "u16 list \<Rightarrow> bool" where
  "ordered (a # b # ts) \<longleftrightarrow> may_follow a b \<and> ordered (b # ts)"
| "ordered _ = True"

lemma ordered_snoc: "ordered (ts @ [t]) \<longleftrightarrow> ordered ts \<and> (ts \<noteq> [] \<longrightarrow> may_follow (last ts) t)"
  by (induction ts rule: ordered.induct) auto

lemma appendAttribute_allowed:
  "msg_Attributes msg = [] \<or> may_follow (GetType (last (msg_Attributes msg))) (GetType a) \<Longrightarrow>
   appendAttribute msg a = unsafeAppendAttribute msg a"
  by (auto simp: appendAttribute_def may_follow_def Let_def)

lemma appendAttribute_refused:
  "msg_Attributes msg \<noteq> [] \<Longrightarrow> \<not> may_follow (GetType (last (msg_Attributes msg))) (GetType a) \<Longrightarrow>
   \<exists>e. appendAttribute msg a = Inl (Err e)"
  by (auto simp: appendAttribute_def may_follow_def Let_def)

definition same_header :: "Message \<Rightarrow> Message \<Rightarrow> bool" where
  "same_header m m' \<longleftrightarrow> hd_Type (msg_Header m') = hd_Type (msg_Header m) \<and>
     hd_MagicCookie (msg_Header m') = hd_MagicCookie (msg_Header m) \<and>
     hd_TransactionID (msg_Header m') = hd_TransactionID (msg_Header m)"

lemma same_header_trans: "same_header m m' \<Longrightarrow> same_header m' m'' \<Longrightarrow> same_header m m''"
  by (simp add: same_header_def)

lemma appendAttribute_ok:
  assumes "msg_inv msg" "attr_sized a"
    "msg_Attributes msg = [] \<or> may_follow (GetType (last (msg_Attributes msg))) (GetType a)"
  shows "\<exists>msg'. appendAttribute msg a = Inr msg' \<and> msg_inv msg' \<and> same_header msg msg' \<and>
    msg_Attributes msg' = msg_Attributes msg @ [a] \<and> msg_fingerprint msg' = msg_fingerprint msg"
  using unsafeAppend_ok [OF msg_inv_pre [OF assms(1)] assms(2)] appendAttribute_allowed [OF assms(3)]
  by (auto simp: same_header_def)

lemma ordered_append_D: "ordered (ts @ us) \<Longrightarrow> ordered ts"
  by (induction us rule: rev_induct) (auto simp: ordered_snoc simp flip: append_assoc)

lemma append_each_ok:
  assumes "msg_inv msg" "list_all attr_sized as" "ordered (map GetType (msg_Attributes msg @ as))"
  shows "\<exists>msg'. append_each msg as = Inr msg' \<and> msg_inv msg' \<and> same_header msg msg' \<and>
    msg_Attributes msg' = msg_Attributes msg @ as \<and> msg_fingerprint msg' = msg_fingerprint msg"
  using assms
proof (induction as arbitrary: msg)
  case Nil
  then show ?case by (simp add: same_header_def)
next
  case (Cons a as)
  have "ordered (map GetType (msg_Attributes msg) @ [GetType a])"
    using ordered_append_D [of "map GetType (msg_Attributes msg) @ [GetType a]" "map GetType as"] Cons.prems(3) by simp
  then have "msg_Attributes msg = [] \<or> may_follow (GetType (last (msg_Attributes msg))) (GetType a)"
    by (auto simp: ordered_snoc last_map)
  from appendAttribute_ok [OF Cons.prems(1) _ this] Cons.prems(2) obtain msg1 where
    1: "appendAttribute msg a = Inr msg1" "msg_inv msg1" "same_header msg msg1"
      "msg_Attributes msg1 = msg_Attributes msg @ [a]" "msg_fingerprint msg1 = msg_fingerprint msg" by auto
  from Cons.IH [OF 1(2)] Cons.prems(2,3) 1(4) obtain msg2 where
    "append_each msg1 as = Inr msg2" "msg_inv msg2" "same_header msg1 msg2"
    "msg_Attributes msg2 = msg_Attributes msg1 @ as" "msg_fingerprint msg2 = msg_fingerprint msg1" by auto
  with 1 show ?case using same_header_trans [of msg msg1 msg2] by simp
qed

lemma NewHeader_simps [simp]:
  "hd_Type (NewHeader t txID) = t" "hd_Length (NewHeader t txID) = 0"
  "hd_MagicCookie (NewHeader t txID) = MagicCookie" "hd_TransactionID (NewHeader t txID) = txID"
  by (simp_all add: NewHeader_def)

lemma NewMessage_ok:
  assumes "list_all attr_sized attrs" "ordered (map GetType attrs)" "length txID = 12"
  shows "\<exists>msg. NewMessageWithTransactionID t attrs txID = Inr msg \<and> msg_inv msg \<and>
    msg_Attributes msg = attrs \<and> \<not> msg_fingerprint msg \<and> hd_Type (msg_Header msg) = t \<and>
    hd_MagicCookie (msg_Header msg) = MagicCookie \<and> hd_TransactionID (msg_Header msg) = txID"
proof -
  from Header_SerializeTo_ok [of emptyBuffer "NewHeader t txID"] assms(3) obtain raw where
    raw: "Header_SerializeTo (NewHeader t txID) emptyBuffer = Inr raw" "sb_inv raw"
      "Buffer_Bytes raw = hbytes (NewHeader t txID)" by auto
  let ?m = "\<lparr>msg_Header = NewHeader t txID, msg_Attributes = [], msg_Raw = raw, msg_fingerprint = False\<rparr>"
  have "msg_inv ?m"
    using raw assms(3) by (simp add: msg_inv_def)
  from append_each_ok [OF this assms(1)] assms(2) obtain msg' where
    "append_each ?m attrs = Inr msg'" "msg_inv msg'" "same_header ?m msg'" "msg_Attributes msg' = attrs"
    "\<not> msg_fingerprint msg'" by auto
  then show ?thesis
    by (auto simp: NewMessageWithTransactionID_def Let_def raw(1) same_header_def)
qed

section \<open>Decoding a message\<close>

lemma Header_Decode_hbytes:
  "length (hd_TransactionID h) = 12 \<Longrightarrow> Header_DecodeFromBytes (hbytes h @ rest) = Inr h"
  by (simp add: Header_DecodeFromBytes_def hbytes_def be_simps)

lemma DecodeMessage_inv:
  assumes "msg_inv msg" "list_all attr_wf (msg_Attributes msg)" "attrs_len (msg_Attributes msg) < 65536"
  shows "DecodeMessage (Buffer_Bytes (msg_Raw msg)) spare = Inr
    \<lparr>msg_Header = msg_Header msg, msg_Attributes = filter known (msg_Attributes msg),
     msg_Raw = NewBuffer (Buffer_Bytes (msg_Raw msg) @ spare) (length (Buffer_Bytes (msg_Raw msg))),
     msg_fingerprint = False\<rparr>"
proof -
  let ?h = "msg_Header msg" let ?c = "concat (map encode (msg_Attributes msg))"
  have b: "Buffer_Bytes (msg_Raw msg) = hbytes ?h @ ?c" and l: "length (hd_TransactionID ?h) = 12"
    using assms(1) by (simp_all add: msg_inv_def)
  have n: "unat (hd_Length ?h) = length ?c"
    using assms(1,3) by (simp add: msg_inv_def unat_of_nat16 length_concat_encode)
  have "take (length ?c) (drop 20 (hbytes ?h @ ?c)) = ?c"
    using l by simp
  then show ?thesis
    unfolding b DecodeMessage_def Msg_DecodeFromBytes_def Header_Decode_hbytes [OF l] rbind_simps Let_def n
    using l DecodeAttributes_encode [OF assms(2)] by (simp add: emptyMessage_def)
qed



end
