(* ===== verification/Stun_Fingerprint.thy ===== *)
theory Stun_Fingerprint
  imports Stun_Message
begin

text \<open>
  Correctness of the fingerprint of STUN messages and of the transport addresses they carry.
\<close>

section \<open>The fingerprint\<close>

text \<open>The checksum does not depend on the length field that the message has at the moment.\<close>

definition fp_value :: "bytes \<Rightarrow> u32" where
  "fp_value m = ChecksumIEEE (splice m 2 (put16 (of_int (int (length m) - 20) + 8))) XOR FingerprintXorValue"

lemma splice_append: "i + length ys \<le> length xs \<Longrightarrow> splice (xs @ zs) i ys = splice xs i ys @ zs"
  by (simp add: splice_def)

lemma CalculateFingerprint_eq: "4 \<le> length m \<Longrightarrow> CalculateFingerprint m spare = Inr (fp_value m)"
  by (simp add: CalculateFingerprint_def fp_value_def splice_append)

lemma fp_value_length_field:
  "fp_value (hbytes (h\<lparr>hd_Length := l\<rparr>) @ rest) = fp_value (hbytes h @ rest)"
  by (simp add: fp_value_def splice_length_field)

lemma SerializeLen_Fingerprint [simp]: "FingerprintAttr_SerializeLen = 8"
  by (simp add: SerializeLen_defs attrSerializedSize_def TLVPrefixLength_def)

lemma FindAttribute_append: "FindAttribute (as @ bs) t =
    (case FindAttribute as t of Some a \<Rightarrow> Some a | None \<Rightarrow> FindAttribute bs t)"
  by (induction as) auto

lemma FindAttribute_None: "FindAttribute as t = None \<longleftrightarrow> t \<notin> GetType ` set as"
  by (induction as) auto

lemma FindAttribute_last:
  "GetType a \<notin> GetType ` set as \<Longrightarrow> FindAttribute (as @ [a]) (GetType a) = Some a"
  using FindAttribute_None [of as "GetType a"] by (simp add: FindAttribute_append)

lemmas FindAttribute_fp = FindAttribute_last [of "FingerprintAttr v" for v, simplified]

text \<open>The attributes before a final fingerprint.\<close>

definition strip_fp :: "Attribute list \<Rightarrow> Attribute list" where
  "strip_fp as = (if as \<noteq> [] \<and> GetType (last as) = AttrFingerprint then butlast as else as)"

lemma append_fp_ok:
  assumes pre: "msg_pre msg" and fresh: "AttrFingerprint \<notin> GetType ` set (msg_Attributes msg)"
  shows "\<exists>msg' v. rbind (NewFingerprintAttr (msg_Raw msg)) (appendAttribute msg) = Inr msg' \<and> msg_inv msg' \<and>
    same_header msg msg' \<and> msg_fingerprint msg' = msg_fingerprint msg \<and>
    msg_Attributes msg' = msg_Attributes msg @ [FingerprintAttr v] \<and>
    v = fp_value (hbytes (msg_Header msg) @ concat (map encode (msg_Attributes msg)))"
proof -
  let ?h = "msg_Header msg" let ?c = "concat (map encode (msg_Attributes msg))"
  obtain l where l: "Buffer_Bytes (msg_Raw msg) = hbytes (?h\<lparr>hd_Length := l\<rparr>) @ ?c"
    using pre by (auto simp: msg_pre_def)
  have "NewFingerprintAttr (msg_Raw msg) = Inr (FingerprintAttr (fp_value (hbytes ?h @ ?c)))"
    unfolding NewFingerprintAttr_def l
    by (subst CalculateFingerprint_eq) (simp_all add: fp_value_length_field)
  moreover have "GetType (last (msg_Attributes msg)) \<noteq> AttrFingerprint" if "msg_Attributes msg \<noteq> []"
    using fresh last_in_set [OF that] by (metis imageI)
  then have "appendAttribute msg a = unsafeAppendAttribute msg a" if "GetType a = AttrFingerprint" for a
    using that by (intro appendAttribute_allowed) (auto simp: may_follow_def)
  ultimately show ?thesis
    using unsafeAppend_ok [OF pre, of "FingerprintAttr (fp_value (hbytes ?h @ ?c))"]
    by (auto simp: same_header_def)
qed

lemma msg_pre_strip:
  assumes inv: "msg_inv msg" and la: "msg_Attributes msg \<noteq> []"
  defines "a \<equiv> last (msg_Attributes msg)"
  defines "msg0 \<equiv> msg\<lparr>msg_Attributes := butlast (msg_Attributes msg),
      msg_Header := (msg_Header msg)\<lparr>hd_Length := hd_Length (msg_Header msg) - of_nat (SerializeLen a)\<rparr>,
      msg_Raw := NewBuffer (sb_mem (msg_Raw msg)) (Buffer_Len (msg_Raw msg) - SerializeLen a)\<rparr>"
  shows "msg_pre msg0" "SerializeLen a \<le> Buffer_Len (msg_Raw msg)"
proof -
  let ?bs = "butlast (msg_Attributes msg)" let ?h = "msg_Header msg"
  have as: "msg_Attributes msg = ?bs @ [a]" unfolding a_def using la by simp
  have sized: "list_all attr_sized ?bs" "attr_sized a"
    using inv unfolding msg_inv_def by (subst (asm) as, simp)+
  have bytes: "Buffer_Bytes (msg_Raw msg) = hbytes ?h @ concat (map encode ?bs) @ encode a"
    using inv unfolding msg_inv_def by (subst (asm) (3) as) simp
  have binv: "sb_inv (msg_Raw msg)" and tx: "length (hd_TransactionID ?h) = 12"
    using inv by (simp_all add: msg_inv_def)
  have len: "Buffer_Len (msg_Raw msg) = length (hbytes ?h @ concat (map encode ?bs)) + SerializeLen a"
    using sb_written_Bytes [OF binv] unfolding bytes by (simp add: Buffer_Len_def length_encode [OF sized(2)])
  then show "SerializeLen a \<le> Buffer_Len (msg_Raw msg)" by simp
  have "take (length (hbytes ?h @ concat (map encode ?bs))) (sb_mem (msg_Raw msg)) =
      take (length (hbytes ?h @ concat (map encode ?bs))) (Buffer_Bytes (msg_Raw msg))"
    using len by (simp add: Buffer_Bytes_def Buffer_Len_def min_def)
  also have "\<dots> = hbytes ?h @ concat (map encode ?bs)"
    unfolding bytes by simp
  finally have raw: "Buffer_Bytes (msg_Raw msg0) = hbytes (msg_Header msg) @ concat (map encode ?bs)"
    unfolding msg0_def using len by simp
  have "hd_Length ?h = of_nat (attrs_len (?bs @ [a]))"
    using inv as by (simp add: msg_inv_def)
  then have "hd_Length (msg_Header msg0) = of_nat (attrs_len ?bs)"
    unfolding msg0_def by simp
  moreover have "sb_inv (msg_Raw msg0)"
    unfolding msg0_def using binv by (auto simp: sb_inv_def Buffer_Len_def NewBuffer_def)
  moreover have "\<exists>l. Buffer_Bytes (msg_Raw msg0) =
      hbytes ((msg_Header msg0)\<lparr>hd_Length := l\<rparr>) @ concat (map encode (msg_Attributes msg0))"
    using raw unfolding msg0_def by (intro exI [of _ "hd_Length ?h"]) simp
  ultimately show "msg_pre msg0"
    using sized(1) tx unfolding msg_pre_def by (simp add: msg0_def)
qed

lemma AddFingerprint_ok:
  assumes inv: "msg_inv msg" and fresh: "AttrFingerprint \<notin> GetType ` set (strip_fp (msg_Attributes msg))"
  shows "\<exists>msg' v. AddFingerprint msg = Inr msg' \<and> msg_inv msg' \<and> same_header msg msg' \<and>
    msg_fingerprint msg' = msg_fingerprint msg \<and>
    msg_Attributes msg' = strip_fp (msg_Attributes msg) @ [FingerprintAttr v] \<and>
    v = fp_value (hbytes (msg_Header msg) @ concat (map encode (strip_fp (msg_Attributes msg))))"
proof (cases "msg_Attributes msg \<noteq> [] \<and> GetType (last (msg_Attributes msg)) = AttrFingerprint")
  case True
  then have la: "msg_Attributes msg \<noteq> []" by simp
  note pre = msg_pre_strip [OF inv la]
  show ?thesis
    using True append_fp_ok [OF pre(1)] fresh pre(2)
    by (auto simp: AddFingerprint_def Let_def strip_fp_def same_header_def fp_value_length_field)
next
  case False
  then show ?thesis
    using append_fp_ok [OF msg_inv_pre [OF inv]] fresh
    by (auto simp: AddFingerprint_def Let_def strip_fp_def)
qed

lemma VerifyFingerprint_bytes:
  assumes "FindAttribute (msg_Attributes msg) AttrFingerprint = Some (FingerprintAttr v)"
    and "sb_inv (msg_Raw msg)" "Buffer_Bytes (msg_Raw msg) = m @ f" "length f = 8" "4 \<le> length m"
  shows "VerifyFingerprint msg = Inr (v = fp_value m)"
proof -
  have "length m \<le> sb_written (msg_Raw msg)"
    using sb_written_Bytes [OF assms(2)] unfolding assms(3) by simp
  then have "take (length m) (sb_mem (msg_Raw msg)) = take (length m) (Buffer_Bytes (msg_Raw msg))"
    by (simp add: Buffer_Bytes_def min_def)
  also have "\<dots> = m" using assms(3) by simp
  finally show ?thesis
    using assms by (simp add: VerifyFingerprint_def Let_def CalculateFingerprint_eq)
qed

lemma verify_fp_inv:
  assumes "msg_inv msg" "msg_Attributes msg = as @ [FingerprintAttr v]" "AttrFingerprint \<notin> GetType ` set as"
    "sb_inv raw" "Buffer_Bytes raw = Buffer_Bytes (msg_Raw msg)"
    "FindAttribute (msg_Attributes msg') AttrFingerprint = Some (FingerprintAttr v)" "msg_Raw msg' = raw"
  shows "VerifyFingerprint msg' = Inr (v = fp_value (hbytes (msg_Header msg) @ concat (map encode as)))"
proof -
  have "length (encode (FingerprintAttr v)) = 8"
    by (simp add: length_encode_ge)
  then show ?thesis
    using assms by (intro VerifyFingerprint_bytes [where f = "encode (FingerprintAttr v)"]) (auto simp: msg_inv_def)
qed

lemma known_Fingerprint [simp]: "known (FingerprintAttr v)"
  by (simp add: known_def typeRegistry_def attr_types)

lemma attr_wf_Fingerprint [simp]: "attr_wf (FingerprintAttr v)"
  by simp

text \<open>C29. A message to which a fingerprint was added verifies, with any earlier final fingerprint
  replaced, and so does the message that a receiver decodes from its bytes.\<close>

theorem fingerprint_roundtrip:
  assumes "msg_inv msg" "list_all attr_wf (strip_fp (msg_Attributes msg))"
    "AttrFingerprint \<notin> GetType ` set (strip_fp (msg_Attributes msg))"
    "attrs_len (strip_fp (msg_Attributes msg)) + 8 < 65536"
  shows "\<exists>msg' got v. AddFingerprint msg = Inr msg' \<and> VerifyFingerprint msg' = Inr True \<and>
    msg_Attributes msg' = strip_fp (msg_Attributes msg) @ [FingerprintAttr v] \<and>
    DecodeMessage (Buffer_Bytes (msg_Raw msg')) spare = Inr got \<and> VerifyFingerprint got = Inr True"
proof -
  let ?as = "strip_fp (msg_Attributes msg)"
  from AddFingerprint_ok [OF assms(1,3)] obtain msg' v where m: "AddFingerprint msg = Inr msg'" "msg_inv msg'"
    "same_header msg msg'" "msg_Attributes msg' = ?as @ [FingerprintAttr v]"
    "v = fp_value (hbytes (msg_Header msg) @ concat (map encode ?as))" by auto
  have v: "v = fp_value (hbytes (msg_Header msg') @ concat (map encode ?as))"
  proof -
    have "msg_Header msg' = (msg_Header msg)\<lparr>hd_Length := hd_Length (msg_Header msg')\<rparr>"
      using m(3) by (cases "msg_Header msg"; cases "msg_Header msg'") (simp add: same_header_def)
    then show ?thesis using m(5) fp_value_length_field by metis
  qed
  have inv: "sb_inv (msg_Raw msg')" using m(2) by (simp add: msg_inv_def)
  have ver: "VerifyFingerprint msg' = Inr True"
    using verify_fp_inv [OF m(2,4) assms(3) inv, of msg'] v FindAttribute_fp [OF assms(3)] by (simp add: m(4))
  let ?got = "\<lparr>msg_Header = msg_Header msg', msg_Attributes = filter known (msg_Attributes msg'),
     msg_Raw = NewBuffer (Buffer_Bytes (msg_Raw msg') @ spare) (length (Buffer_Bytes (msg_Raw msg'))),
     msg_fingerprint = False\<rparr>"
  have "DecodeMessage (Buffer_Bytes (msg_Raw msg')) spare = Inr ?got"
    using assms(2,4) m(4) by (intro DecodeMessage_inv [OF m(2)]) simp_all
  moreover have "AttrFingerprint \<notin> GetType ` set (filter known ?as)"
    using assms(3) by auto
  then have "VerifyFingerprint ?got = Inr True"
    using verify_fp_inv [OF m(2,4) assms(3) _ _ _ refl, of ?got] v FindAttribute_fp by (simp add: m(4))
  ultimately show ?thesis using m(1,4) ver by blast
qed

theorem fingerprint_roundtrip_witness:
  "\<exists>msg msg' got. NewMessageWithTransactionID MsgTypeBindingResponse [RealmAttr [112, 105, 103]] (replicate 12 9) = Inr msg \<and>
     AddFingerprint msg = Inr msg' \<and> VerifyFingerprint msg' = Inr True \<and>
     DecodeMessage (Buffer_Bytes (msg_Raw msg')) [] = Inr got \<and> VerifyFingerprint got = Inr True"
proof -
  let ?as = "[RealmAttr [112, 105, 103]]"
  have "list_all attr_sized ?as" "ordered (map GetType ?as)" by simp_all
  from NewMessage_ok [OF this, of "replicate 12 9"] obtain msg where
    msg: "NewMessageWithTransactionID MsgTypeBindingResponse ?as (replicate 12 9) = Inr msg" "msg_inv msg"
      "msg_Attributes msg = ?as" by auto
  have "strip_fp ?as = ?as" by (simp add: strip_fp_def attr_types)
  then show ?thesis
    using fingerprint_roundtrip [OF msg(2), of "[]"] msg(1)
    by (auto simp: msg(3) attr_types SerializeLen_defs attrSerializedSize_def calculatePadding_def TLVPrefixLength_def)
qed

section \<open>Transport addresses\<close>

lemma xorPort_xorPort [simp]: "xorPort (xorPort p) = p"
  by (simp add: xorPort_def xor.assoc)

lemma length_xor_bytes [simp]: "length (xor_bytes xs ys) = min (length xs) (length ys)"
  by (simp add: xor_bytes_def)

lemma nth_xor_bytes: "i < length xs \<Longrightarrow> i < length ys \<Longrightarrow> xor_bytes xs ys ! i = xs ! i XOR ys ! i"
  by (simp add: xor_bytes_def)

lemma cookie_byte: "i < 4 \<Longrightarrow> ucast (drop_bit ((3 - i) * 8) MagicCookie) = put32 MagicCookie ! i"
  by (auto simp: put32_def less_Suc_eq numeral_eq_Suc)

definition xor_value :: "ip \<Rightarrow> u16 \<Rightarrow> bytes \<Rightarrow> bytes" where
  "xor_value b p txID =
     (if length b = 4 then [0, 0x01] @ put16 (xorPort p) @ xor_bytes b (put32 MagicCookie)
      else [0, 0x02] @ put16 (xorPort p) @ xor_bytes (take 4 b) (put32 MagicCookie) @ xor_bytes (drop 4 b) txID)"

lemma xor_value_first4:
  assumes "length b = 4 \<or> length b = 16"
  shows "map (\<lambda>i. xor_value b p txID ! (4 + i) XOR ucast (drop_bit ((3 - i) * 8) MagicCookie)) [0..<4] = take 4 b"
proof (rule nth_equalityI)
  fix i assume "i < length (map (\<lambda>i. xor_value b p txID ! (4 + i) XOR ucast (drop_bit ((3 - i) * 8) MagicCookie)) [0..<4])"
  then have i: "i < 4" by simp
  have "xor_value b p txID ! (4 + i) = b ! i XOR put32 MagicCookie ! i"
    using assms i by (auto simp: xor_value_def nth_append nth_xor_bytes put16_def nth_Cons')
  with i assms show "map (\<lambda>i. xor_value b p txID ! (4 + i) XOR ucast (drop_bit ((3 - i) * 8) MagicCookie)) [0..<4] ! i
      = take 4 b ! i"
    by (auto simp: cookie_byte xor.assoc)
qed (use assms in auto)

lemma xor_value_rest:
  assumes "length b = 16" "length txID = 12"
  shows "map (\<lambda>i. xor_value b p txID ! (4 + i) XOR txID ! (i - 4)) [4..<16] = drop 4 b"
proof (rule nth_equalityI)
  fix i assume "i < length (map (\<lambda>i. xor_value b p txID ! (4 + i) XOR txID ! (i - 4)) [4..<16])"
  then have i: "i < 12" by simp
  have "xor_value b p txID ! (8 + i) = b ! (4 + i) XOR txID ! i"
    using assms i by (auto simp: xor_value_def nth_append nth_xor_bytes put16_def nth_Cons')
  moreover have "[4..<16] ! i = 4 + i" "i < length [4..<16]"
    using i nth_upt [of 4 i 16] by simp_all
  moreover have "4 + (4 + i) = 8 + i" by simp
  ultimately show "map (\<lambda>i. xor_value b p txID ! (4 + i) XOR txID ! (i - 4)) [4..<16] ! i = drop 4 b ! i"
    using assms i by (simp only: nth_map xor.assoc diff_add_inverse) simp
qed (use assms in auto)

lemma DecodeXor_value:
  assumes "length b = 4 \<or> length b = 16" "length txID = 12"
  shows "DecodeXorMappedAddress (xor_value b p txID) txID = Inr (b, unat p)"
proof -
  have len: "length (xor_value b p txID) = (if length b = 4 then 8 else 20)"
    using assms by (auto simp: xor_value_def)
  have fam: "xor_value b p txID ! 1 = (if length b = 4 then 0x01 else 0x02)"
    and port: "get16 (xor_value b p txID) 2 = xorPort p"
    by (simp_all add: xor_value_def get16_def put16_def be16_put)
  show ?thesis
    using assms(1)
  proof
    assume "length b = 4"
    then show ?thesis
      unfolding DecodeXorMappedAddress_def xor_value_first4 [OF assms(1)] port fam len by simp
  next
    assume b: "length b = 16"
    then show ?thesis
      unfolding DecodeXorMappedAddress_def xor_value_first4 [OF assms(1)] xor_value_rest [OF b assms(2)] port fam len
      by simp
  qed
qed

text \<open>The form in which an address comes back: four bytes for IPv4.\<close>

definition canonical :: "ip \<Rightarrow> ip" where
  "canonical a = (case To4 a of Some b \<Rightarrow> b | None \<Rightarrow> a)"

lemma canonical_length: "length a = 4 \<or> length a = 16 \<Longrightarrow> length (canonical a) = 4 \<or> length (canonical a) = 16"
  by (auto simp: canonical_def To4_def split: option.splits)

lemma NewXor_value:
  assumes "addr_ip_port addr = Inr (a, port)" "length a = 4 \<or> length a = 16" "length txID = 12"
  shows "NewXorMappedAddressAttr addr txID = Inr (XorMappedAddressAttr (xor_value (canonical a) (of_int port) txID))"
proof -
  let ?v = "xor_value (canonical a) (of_int port) txID"
  have len: "length ?v \<in> {8, 20}"
    using canonical_length [OF assms(2)] assms(3) by (auto simp: xor_value_def)
  have "CreateXorMappedAddress addr txID = Inr (encode (XorMappedAddressAttr ?v))"
  proof (cases "To4 a")
    case None
    then have "length a = 16" "canonical a = a" "To16 a = Some a"
      using assms(2) by (auto simp: canonical_def To4_def To16_def split: if_splits)
    with None assms show ?thesis
      by (auto simp: CreateXorMappedAddress_def Let_def xor_value_def encode_def)
  next
    case (Some b)
    then have "length b = 4" "canonical a = b" "a \<noteq> []"
      using assms(2) by (auto simp: canonical_def To4_length)
    with Some assms show ?thesis
      by (auto simp: CreateXorMappedAddress_def Let_def xor_value_def encode_def)
  qed
  then show ?thesis
    using decode_address_encode [of "XorMappedAddressAttr ?v" _ _ _ "[]"] len
    by (simp add: NewXorMappedAddressAttr_def XorMappedAddressAttr_DecodeFromBytes_def)
qed

lemma canonical_equal: "length a = 4 \<or> length a = 16 \<Longrightarrow> IP_Equal (canonical a) a"
  by (auto simp: canonical_def IP_Equal_def To4_def split: option.splits)

text \<open>C30. The address that a server puts into XOR-MAPPED-ADDRESS is the one that the client decodes
  with the same transaction identifier, for IPv4, IPv4-mapped and IPv6 addresses and every port.\<close>

theorem xor_mapped_roundtrip:
  assumes "addr_ip_port addr = Inr (a, port)" "length a = 4 \<or> length a = 16" "length txID = 12"
    "0 \<le> port" "port < 65536"
  shows "\<exists>v b. NewXorMappedAddressAttr addr txID = Inr (XorMappedAddressAttr v) \<and>
    DecodeXorMappedAddress v txID = Inr (b, nat port) \<and> IP_Equal b a"
proof -
  have "unat (of_int port :: u16) = nat port"
    using assms(4,5) unat_of_nat16 [of "nat port"] by simp
  then show ?thesis
    using NewXor_value [OF assms(1-3)] DecodeXor_value [OF canonical_length [OF assms(2)] assms(3)]
      canonical_equal [OF assms(2)] by auto
qed

theorem xor_mapped_roundtrip_witness:
  "\<exists>v b. NewXorMappedAddressAttr (UDPAddr [0x20, 1, 0xd, 0xb8, 0, 0, 0, 0, 0, 0, 0, 0, 0, 0, 0, 9] 3478) (replicate 12 7)
       = Inr (XorMappedAddressAttr v) \<and>
     DecodeXorMappedAddress v (replicate 12 7) = Inr (b, 3478) \<and>
     IP_Equal b [0x20, 1, 0xd, 0xb8, 0, 0, 0, 0, 0, 0, 0, 0, 0, 0, 0, 9]"
  using xor_mapped_roundtrip [of "UDPAddr [0x20, 1, 0xd, 0xb8, 0, 0, 0, 0, 0, 0, 0, 0, 0, 0, 0, 9] 3478" _ 3478 "replicate 12 7"]
  by simp

text \<open>A MAPPED-ADDRESS attribute as the decoder accepts it, with a value of 8 or 20 bytes, makes
  the extraction of the address panic exactly when 8 bytes claim to be an IPv6 address.\<close>

theorem mapped_address_panics:
  assumes "MappedAddressAttr_DecodeFromBytes b = Inr (MappedAddressAttr v)"
  shows "DecodeMappedAddress v = Inl Panic \<longleftrightarrow> length v = 8 \<and> v ! 1 = 0x02"
proof -
  have "decode_address ''mapped address'' '''' AttrMappedAddress ''MAPPED-ADDRESS'' b = Inr v"
    using assms by (auto simp: MappedAddressAttr_DecodeFromBytes_def rbind_Inr_iff)
  then have "length v = 8 \<or> length v = 20"
    by (auto simp: decode_address_def Let_def wrong_type_def slice_Inr_iff split: if_splits)
  then show ?thesis
    by (auto simp: DecodeMappedAddress_def Let_def slice_def)
qed

theorem mapped_address_panics_witness:
  "DecodeMappedAddress [0, 2, 1, 1, 10, 0, 0, 1] = Inl Panic"
proof -
  have "MappedAddressAttr_DecodeFromBytes (encode (MappedAddressAttr [0, 2, 1, 1, 10, 0, 0, 1]) @ [])
      = Inr (MappedAddressAttr [0, 2, 1, 1, 10, 0, 0, 1])"
    using decode_address_encode [of "MappedAddressAttr [0, 2, 1, 1, 10, 0, 0, 1]" _ _ _ "[]"]
    by (simp add: MappedAddressAttr_DecodeFromBytes_def)
  from mapped_address_panics [OF this] show ?thesis by simp
qed

end
