(* ===== verification/Stun_Integrity.thy ===== *)
theory Stun_Integrity
  imports Stun_Fingerprint
begin

text \<open>
  Message integrity of STUN with short-term credentials (\<^verbatim>\<open>integrity.go\<close>, \<^verbatim>\<open>util.go\<close>). The
  Unicode normalization of \<^verbatim>\<open>golang.org/x/text\<close> is the parameter \<open>nfc\<close>; no result here
  needs a property of it.
\<close>

section \<open>Opaque strings\<close>

function map_spaces :: "bytes \<Rightarrow> bytes" where
  "map_spaces s =
     (if s = [] then []
      else let (r, width) = DecodeRune s
           in (if \<not> IsSpace r then EncodeRune r else EncodeRune 0x20) @ map_spaces (drop width s))"
  by pat_completeness auto

termination map_spaces
proof (relation "measure length", goal_cases)
  case (2 s x r w)
  then have "1 \<le> w" using DecodeRune_width [of s] by (metis snd_conv)
  with 2 show ?case by (cases s) auto
qed simp

declare map_spaces.simps [simp del]

definition OpaqueString :: "(bytes \<Rightarrow> bytes) \<Rightarrow> bytes \<Rightarrow> bytes" where
  "OpaqueString nfc s = nfc (map_spaces s)"

section \<open>Message integrity\<close>

record AuthConfig =
  au_Username :: bytes
  au_Password :: bytes
  au_Realm :: bytes
  au_Nonce :: bytes

text \<open>The scan for the integrity attribute: its position, or 0.\<close>

function find_attr :: "bytes \<Rightarrow> u16 \<Rightarrow> nat \<Rightarrow> nat" where
  "find_attr message attrType i =
     (if i + 4 > length message then 0
      else let attrLen = unat (get16 message (i + 2))
           in if get16 message i = attrType then i
              else find_attr message attrType (i + (4 + attrLen) + calculatePadding attrLen))"
  by pat_completeness auto

termination find_attr
  by (relation "measure (\<lambda>(m, _, i). length m - i)") auto

declare find_attr.simps [simp del]

text \<open>A nil result is \<open>None\<close>, and so is a nil hash constructor.\<close>

definition CalculateShortTermMessageIntegrityWithHash ::
  "(bytes \<Rightarrow> bytes) \<Rightarrow> bytes \<Rightarrow> bytes \<Rightarrow> u16 \<Rightarrow> Hash option \<Rightarrow> bytes option" where
  "CalculateShortTermMessageIntegrityWithHash nfc message password attrType newHash =
     (if password = [] \<or> length message < 20 then None
      else case newHash of
        None \<Rightarrow> None
      | Some h \<Rightarrow>
          let attrSize = 4 + h_Size h;
              pos = find_attr message attrType 20;
              messageLen = (if pos = 0 then length message else pos);
              adjustedLength = of_nat (messageLen - 20 + attrSize);
              msgCopy = splice (take messageLen message) 2 (put16 adjustedLength)
          in Some (hmac h (OpaqueString nfc password) msgCopy))"

definition CalculateShortTermMessageIntegrity :: "(bytes \<Rightarrow> bytes) \<Rightarrow> bytes \<Rightarrow> bytes \<Rightarrow> bytes option" where
  "CalculateShortTermMessageIntegrity nfc message password =
     CalculateShortTermMessageIntegrityWithHash nfc message password AttrMessageIntegrity (Some sha1_New)"

definition CalculateShortTermMessageIntegritySHA256 :: "(bytes \<Rightarrow> bytes) \<Rightarrow> bytes \<Rightarrow> bytes \<Rightarrow> bytes option" where
  "CalculateShortTermMessageIntegritySHA256 nfc message password =
     CalculateShortTermMessageIntegrityWithHash nfc message password AttrMessageIntegritySHA256 (Some sha256_New)"

definition VerifyMessageIntegrityWithHash ::
  "(bytes \<Rightarrow> bytes) \<Rightarrow> Message \<Rightarrow> bytes \<Rightarrow> u16 \<Rightarrow> Hash option \<Rightarrow> bool result" where
  "VerifyMessageIntegrityWithHash nfc msg password attrType newHash =
     (if password = [] then Inl (Err ''password is required for message integrity verification'')
      else if newHash = None then Inl (Err ''hash function is required'')
      else case FindAttribute (msg_Attributes msg) attrType of
        None \<Rightarrow> Inl (Err ''message integrity attribute not found'')
      | Some (MessageIntegrityAttr v) \<Rightarrow>
          (case CalculateShortTermMessageIntegrityWithHash nfc (Buffer_Bytes (msg_Raw msg)) password attrType newHash of
             None \<Rightarrow> Inl (Err ''failed to calculate message integrity'')
           | Some expected \<Rightarrow> Inr (v = expected))
      | Some _ \<Rightarrow> Inl (Err ''message integrity attribute is not a MessageIntegrityAttr''))"

definition VerifyMessageIntegrity :: "(bytes \<Rightarrow> bytes) \<Rightarrow> Message \<Rightarrow> bytes \<Rightarrow> bool result" where
  "VerifyMessageIntegrity nfc msg password =
     VerifyMessageIntegrityWithHash nfc msg password AttrMessageIntegrity (Some sha1_New)"

definition VerifyMessageIntegritySHA256 :: "(bytes \<Rightarrow> bytes) \<Rightarrow> Message \<Rightarrow> bytes \<Rightarrow> bool result" where
  "VerifyMessageIntegritySHA256 nfc msg password =
     VerifyMessageIntegrityWithHash nfc msg password AttrMessageIntegritySHA256 (Some sha256_New)"

text \<open>
  The attribute is appended with a zero value first. Its final value is then written to the
  attribute and to the end of the serialized bytes, as many bytes as the hash has.
\<close>

definition AddMessageIntegrityWithHash ::
  "(bytes \<Rightarrow> bytes) \<Rightarrow> Message \<Rightarrow> bytes \<Rightarrow> u16 \<Rightarrow> Hash option \<Rightarrow> Message result" where
  "AddMessageIntegrityWithHash nfc msg password attrType newHash =
     (if password = [] then Inl (Err ''invalid input: message and password are required'')
      else case newHash of
        None \<Rightarrow> Inl (Err ''hash function is required'')
      | Some h \<Rightarrow>
          rbind (wrap ''failed to add message integrity attribute''
                   (AppendAttribute msg [MessageIntegrityAttr (replicate 20 0)])) (\<lambda>msg1.
            case CalculateShortTermMessageIntegrityWithHash nfc (Buffer_Bytes (msg_Raw msg1)) password attrType newHash of
              None \<Rightarrow> Inl (Err ''failed to calculate final message integrity'')
            | Some final \<Rightarrow>
                if length final \<noteq> h_Size h
                then Inl (Err (''illegal message integrity length: '' @ show_nat (length final)))
                else if sb_written (msg_Raw msg1) < h_Size h then Inl Panic
                else Inr (msg1\<lparr>msg_Attributes := butlast (msg_Attributes msg1) @
                                  [MessageIntegrityAttr (splice (replicate 20 0) 0 final)],
                               msg_Raw := (msg_Raw msg1)\<lparr>sb_mem :=
                                  splice (sb_mem (msg_Raw msg1)) (sb_written (msg_Raw msg1) - h_Size h) final\<rparr>\<rparr>)))"

definition AddMessageIntegrity :: "(bytes \<Rightarrow> bytes) \<Rightarrow> Message \<Rightarrow> bytes \<Rightarrow> Message result" where
  "AddMessageIntegrity nfc msg password =
     AddMessageIntegrityWithHash nfc msg password AttrMessageIntegrity (Some sha1_New)"

definition AddMessageIntegritySHA256 :: "(bytes \<Rightarrow> bytes) \<Rightarrow> Message \<Rightarrow> bytes \<Rightarrow> Message result" where
  "AddMessageIntegritySHA256 nfc msg password =
     AddMessageIntegrityWithHash nfc msg password AttrMessageIntegritySHA256 (Some sha256_New)"

definition GetAuthParams :: "Message \<Rightarrow> AuthConfig" where
  "GetAuthParams msg =
     (let find = FindAttribute (msg_Attributes msg)
      in \<lparr>au_Username = (case find AttrUsername of Some (UsernameAttr v) \<Rightarrow> v | _ \<Rightarrow> []),
          au_Password = [],
          au_Realm = (case find AttrRealm of Some (RealmAttr v) \<Rightarrow> v | _ \<Rightarrow> []),
          au_Nonce = (case find AttrNonce of Some (NonceAttr v) \<Rightarrow> v | _ \<Rightarrow> [])\<rparr>)"

definition ValidateShortTermIntegrity ::
  "(bytes \<Rightarrow> bytes) \<Rightarrow> Message option \<Rightarrow> AuthConfig option \<Rightarrow> unit result" where
  "ValidateShortTermIntegrity nfc request expected =
     (case expected of
        None \<Rightarrow> Inr ()
      | Some auth \<Rightarrow>
          if au_Password auth = [] then Inr ()
          else case request of
            None \<Rightarrow> Inl (Err ''binding request is required'')
          | Some req \<Rightarrow>
              let opaqueGot = OpaqueString nfc (au_Username (GetAuthParams req));
                  opaqueExpected = OpaqueString nfc (au_Username auth)
              in if opaqueGot = [] then Inl (Err ''username missing or invalid'')
                 else if opaqueGot \<noteq> opaqueExpected then Inl (Err ''username mismatch'')
                 else rbind (wrap ''message integrity verification failed''
                               (VerifyMessageIntegrity nfc req (au_Password auth))) (\<lambda>valid.
                        if \<not> valid then Inl (Err ''message integrity verification failed'') else Inr ()))"

section \<open>The scan finds the attribute\<close>

lemma get16_shift: "get16 (xs @ ys) (length xs + i) = get16 ys i"
  by (simp add: get16_append)

lemma find_attr_encode:
  assumes "list_all attr_sized as" "t \<notin> GetType ` set as" "GetType a = t"
  shows "find_attr (pre @ concat (map encode as) @ encode a @ rest) t (length pre) = length pre + attrs_len as"
  using assms(1,2)
proof (induction as arbitrary: pre)
  case Nil
  then show ?case
    using get16_shift [of pre "encode a @ rest" 0] assms(3)
    by (subst find_attr.simps) (simp add: length_encode_ge Let_def)
next
  case (Cons b as)
  let ?tail = "concat (map encode as) @ encode a @ rest"
  have "get16 (pre @ encode b @ ?tail) (length pre) = GetType b"
    using get16_shift [of pre "encode b @ ?tail" 0] by simp
  moreover have "unat (get16 (pre @ encode b @ ?tail) (length pre + 2)) = length (attr_value b)"
    using get16_shift [of pre "encode b @ ?tail" 2] Cons.prems(1) by (simp add: unat_of_nat16 attr_sized_length)
  moreover have "GetType b \<noteq> t" using Cons.prems(2) by auto
  moreover have "find_attr ((pre @ encode b) @ ?tail) t (length (pre @ encode b)) = length (pre @ encode b) + attrs_len as"
    using Cons.prems by (intro Cons.IH) auto
  ultimately show ?case
    using Cons.prems(1) length_encode_ge [of b] length_encode [of b]
    by (subst find_attr.simps) (simp add: Let_def add.assoc)
qed

definition mac_input :: "Header \<Rightarrow> Attribute list \<Rightarrow> bytes" where
  "mac_input h as = hbytes (h\<lparr>hd_Length := of_nat (attrs_len as + 24)\<rparr>) @ concat (map encode as)"

text \<open>The code authenticates what precedes the integrity attribute, whatever follows it.\<close>

lemma Calculate_eq:
  assumes "list_all attr_sized as" "AttrMessageIntegrity \<notin> GetType ` set as" "length (hd_TransactionID h) = 12"
    "password \<noteq> []"
  shows "CalculateShortTermMessageIntegrity nfc (hbytes h @ concat (map encode as) @ encode (MessageIntegrityAttr v) @ rest) password
    = Some (hmac sha1_New (OpaqueString nfc password) (mac_input h as))"
proof -
  let ?c = "concat (map encode as)"
  have pos: "find_attr (hbytes h @ ?c @ encode (MessageIntegrityAttr v) @ rest) AttrMessageIntegrity 20 = 20 + attrs_len as"
    using find_attr_encode [OF assms(1,2), of "MessageIntegrityAttr v" "hbytes h" rest] assms(3) by simp
  have "take (20 + attrs_len as) (hbytes h @ ?c @ encode (MessageIntegrityAttr v) @ rest) = hbytes h @ ?c"
    using assms(3) length_concat_encode [OF assms(1)] by simp
  then show ?thesis
    using assms(3,4) pos
    by (simp add: CalculateShortTermMessageIntegrity_def CalculateShortTermMessageIntegrityWithHash_def Let_def
        splice_length_field mac_input_def add.commute)
qed

section \<open>Adding and verifying\<close>

lemma encode_MI: "length v = 20 \<Longrightarrow> encode (MessageIntegrityAttr v) = put16 AttrMessageIntegrity @ put16 20 @ v"
  by (simp add: encode_def)

lemma Buffer_Bytes_overwrite:
  assumes "sb_inv b" "i + length new \<le> sb_written b" "i < sb_written b"
  shows "Buffer_Bytes (b\<lparr>sb_mem := splice (sb_mem b) i new\<rparr>) = splice (Buffer_Bytes b) i new"
    and "sb_inv (b\<lparr>sb_mem := splice (sb_mem b) i new\<rparr>)"
  using assms by (auto simp: Buffer_Bytes_def sb_inv_def splice_fit min_def drop_take)

lemma mac_input_same_header: "same_header m m' \<Longrightarrow> mac_input (msg_Header m') as = mac_input (msg_Header m) as"
  by (cases "msg_Header m"; cases "msg_Header m'") (simp add: same_header_def mac_input_def)

definition mac :: "(bytes \<Rightarrow> bytes) \<Rightarrow> bytes \<Rightarrow> Message \<Rightarrow> Attribute list \<Rightarrow> bytes" where
  "mac nfc password msg as = hmac sha1_New (OpaqueString nfc password) (mac_input (msg_Header msg) as)"

lemma length_mac [simp]: "length (mac nfc password msg as) = 20"
  by (simp add: mac_def)

lemma AddMessageIntegrity_ok:
  assumes inv: "msg_inv msg" and fresh: "AttrMessageIntegrity \<notin> GetType ` set (msg_Attributes msg)"
    and last: "msg_Attributes msg = [] \<or> may_follow (GetType (last (msg_Attributes msg))) AttrMessageIntegrity"
    and pw: "password \<noteq> []"
  shows "\<exists>msg'. AddMessageIntegrity nfc msg password = Inr msg' \<and> msg_inv msg' \<and> same_header msg msg' \<and>
    msg_fingerprint msg' = msg_fingerprint msg \<and>
    msg_Attributes msg' = msg_Attributes msg @ [MessageIntegrityAttr (mac nfc password msg (msg_Attributes msg))]"
proof -
  let ?as = "msg_Attributes msg" let ?z = "replicate 20 0 :: bytes"
  let ?f = "mac nfc password msg ?as"
  from appendAttribute_ok [OF inv, of "MessageIntegrityAttr ?z"] last obtain msg1 where
    1: "appendAttribute msg (MessageIntegrityAttr ?z) = Inr msg1" "msg_inv msg1" "same_header msg msg1"
      "msg_Attributes msg1 = ?as @ [MessageIntegrityAttr ?z]" "msg_fingerprint msg1 = msg_fingerprint msg" by auto
  let ?h = "msg_Header msg1" let ?p = "hbytes ?h @ concat (map encode ?as) @ put16 AttrMessageIntegrity @ put16 20"
  have b1: "Buffer_Bytes (msg_Raw msg1) = ?p @ ?z" "sb_inv (msg_Raw msg1)"
    and sized: "list_all attr_sized ?as" and tx: "length (hd_TransactionID ?h) = 12"
    using 1(2,4) by (simp_all add: msg_inv_def encode_MI)
  have calc: "CalculateShortTermMessageIntegrityWithHash nfc (Buffer_Bytes (msg_Raw msg1)) password
      AttrMessageIntegrity (Some sha1_New) = Some ?f"
    using Calculate_eq [OF sized fresh tx pw, of nfc ?z "[]"] mac_input_same_header [OF 1(3)] b1(1)
    by (simp add: encode_MI mac_def CalculateShortTermMessageIntegrity_def)
  have len: "sb_written (msg_Raw msg1) = length ?p + 20"
    using sb_written_Bytes [OF b1(2)] unfolding b1(1) by simp
  let ?raw = "(msg_Raw msg1)\<lparr>sb_mem := splice (sb_mem (msg_Raw msg1)) (sb_written (msg_Raw msg1) - 20) ?f\<rparr>"
  have "sb_written (msg_Raw msg1) - 20 + length ?f \<le> sb_written (msg_Raw msg1)"
    "sb_written (msg_Raw msg1) - 20 < sb_written (msg_Raw msg1)"
    unfolding len by simp_all
  note over = Buffer_Bytes_overwrite [OF b1(2) this]
  have "Buffer_Bytes ?raw = splice (?p @ ?z) (length ?p) ?f"
    unfolding over(1) b1(1) by (simp add: len)
  also have "\<dots> = ?p @ ?f"
    by (rule splice_end) simp_all
  finally have "Buffer_Bytes ?raw = ?p @ ?f" .
  moreover have "attrs_len (?as @ [MessageIntegrityAttr ?f]) = attrs_len (?as @ [MessageIntegrityAttr ?z])"
    by simp
  moreover have "splice ?z 0 ?f = ?f" by (simp add: splice_def)
  ultimately show ?thesis
    using 1 over(2) len pw sized tx calc
    by (simp add: AddMessageIntegrity_def AddMessageIntegrityWithHash_def msg_inv_def same_header_def encode_MI)
qed

text \<open>Whoever holds the bytes and the attribute accepts it exactly when the value is the right one.\<close>

lemma Verify_eq:
  assumes "FindAttribute (msg_Attributes msg) AttrMessageIntegrity = Some (MessageIntegrityAttr v)"
    and "Buffer_Bytes (msg_Raw msg) = hbytes h @ concat (map encode as) @ encode (MessageIntegrityAttr v') @ rest"
    and "list_all attr_sized as" "AttrMessageIntegrity \<notin> GetType ` set as" "length (hd_TransactionID h) = 12"
    "password \<noteq> []"
  shows "VerifyMessageIntegrity nfc msg password =
    Inr (v = hmac sha1_New (OpaqueString nfc password) (mac_input h as))"
  using assms(1,6) Calculate_eq [OF assms(3-6), of nfc v' rest]
  by (simp add: VerifyMessageIntegrity_def VerifyMessageIntegrityWithHash_def assms(2)
      CalculateShortTermMessageIntegrity_def)

lemma FindAttribute_mid:
  "GetType a \<notin> GetType ` set as \<Longrightarrow> FindAttribute (as @ a # bs) (GetType a) = Some a"
  using FindAttribute_None [of as "GetType a"] by (simp add: FindAttribute_append)

lemma FindAttribute_filter:
  "FindAttribute (filter known as) t = (if typeRegistry t = None then None else FindAttribute as t)"
  by (induction as) (auto simp: known_def)

text \<open>
  The two forms in which an authenticated message is checked: by its sender, and by a receiver
  that decoded its bytes; attributes after the integrity attribute do not matter.
\<close>

lemma Verify_inv:
  assumes inv: "msg_inv msg" and as: "msg_Attributes msg = as @ MessageIntegrityAttr (mac nfc password msg as) # bs"
    and fresh: "AttrMessageIntegrity \<notin> GetType ` set as" and pw: "password \<noteq> []"
    and got: "Buffer_Bytes (msg_Raw got) = Buffer_Bytes (msg_Raw msg)"
      "FindAttribute (msg_Attributes got) AttrMessageIntegrity = FindAttribute (msg_Attributes msg) AttrMessageIntegrity"
  shows "VerifyMessageIntegrity nfc got password = Inr True"
proof -
  let ?m = "MessageIntegrityAttr (mac nfc password msg as)"
  have "FindAttribute (msg_Attributes got) AttrMessageIntegrity = Some ?m"
    using FindAttribute_mid [of ?m as bs] fresh got(2) as by simp
  moreover have "Buffer_Bytes (msg_Raw got) =
      hbytes (msg_Header msg) @ concat (map encode as) @ encode ?m @ concat (map encode bs)"
    using inv as got(1) by (simp add: msg_inv_def)
  moreover have "list_all attr_sized as" "length (hd_TransactionID (msg_Header msg)) = 12"
    using inv as by (simp_all add: msg_inv_def)
  ultimately show ?thesis
    using Verify_eq [of got _ "msg_Header msg" as _ _ password nfc] fresh pw by (simp add: mac_def)
qed

text \<open>C11. A message signed with a password verifies with that password, at the sender and at a
  receiver that decodes its bytes, whatever the Unicode normalization does.\<close>

theorem integrity_roundtrip:
  assumes "msg_inv msg" "AttrMessageIntegrity \<notin> GetType ` set (msg_Attributes msg)"
    "msg_Attributes msg = [] \<or> may_follow (GetType (last (msg_Attributes msg))) AttrMessageIntegrity"
    "password \<noteq> []" "list_all attr_wf (msg_Attributes msg)" "attrs_len (msg_Attributes msg) + 24 < 65536"
  shows "\<exists>msg' got. AddMessageIntegrity nfc msg password = Inr msg' \<and>
    VerifyMessageIntegrity nfc msg' password = Inr True \<and>
    DecodeMessage (Buffer_Bytes (msg_Raw msg')) spare = Inr got \<and>
    VerifyMessageIntegrity nfc got password = Inr True"
proof -
  let ?as = "msg_Attributes msg"
  from AddMessageIntegrity_ok [OF assms(1-4)] obtain msg' where m: "AddMessageIntegrity nfc msg password = Inr msg'"
    "msg_inv msg'" "same_header msg msg'"
    "msg_Attributes msg' = ?as @ [MessageIntegrityAttr (mac nfc password msg ?as)]" by blast
  have "mac nfc password msg ?as = mac nfc password msg' ?as"
    using mac_input_same_header [OF m(3)] by (simp add: mac_def)
  then have as: "msg_Attributes msg' = ?as @ MessageIntegrityAttr (mac nfc password msg' ?as) # []"
    using m(4) by simp
  have wf: "list_all attr_wf (msg_Attributes msg')" "attrs_len (msg_Attributes msg') < 65536"
    using assms(5,6) m(4) by (simp_all add: SerializeLen_defs attrSerializedSize_def TLVPrefixLength_def)
  note dec = DecodeMessage_inv [OF m(2) wf, of spare]
  have known: "typeRegistry AttrMessageIntegrity \<noteq> None" by (simp add: typeRegistry_def attr_types)
  have "VerifyMessageIntegrity nfc msg' password = Inr True"
    by (rule Verify_inv [OF m(2) as assms(2,4)]) simp_all
  moreover have "VerifyMessageIntegrity nfc
     \<lparr>msg_Header = msg_Header msg', msg_Attributes = filter known (msg_Attributes msg'),
      msg_Raw = NewBuffer (Buffer_Bytes (msg_Raw msg') @ spare) (length (Buffer_Bytes (msg_Raw msg'))),
      msg_fingerprint = False\<rparr> password = Inr True"
    using known by (intro Verify_inv [OF m(2) as assms(2,4)]) (auto simp: FindAttribute_filter)
  ultimately show ?thesis
    using m(1) dec by blast
qed

text \<open>Verification of MESSAGE-INTEGRITY-SHA256 always ends in an error: the attribute it looks up
  never has the type it then asks for.\<close>

theorem sha256_never_verifies:
  "\<exists>e. VerifyMessageIntegritySHA256 nfc msg password = Inl (Err e)"
proof -
  have "FindAttribute as AttrMessageIntegritySHA256 = Some a \<Longrightarrow> \<nexists>v. a = MessageIntegrityAttr v" for as a
    by (induction as) (auto simp: attr_types split: if_splits)
  then show ?thesis
    by (auto simp: VerifyMessageIntegritySHA256_def VerifyMessageIntegrityWithHash_def
        split: option.splits Attribute.splits)
qed


text \<open>A signed message of a user, for the witnesses.\<close>

lemma signed_message:
  "\<exists>msg req. NewMessageWithTransactionID MsgTypeBindingRequest [UsernameAttr [97]] (replicate 12 3) = Inr msg \<and>
     msg_inv msg \<and> msg_Attributes msg = [UsernameAttr [97]] \<and>
     AddMessageIntegrity id msg [115] = Inr req \<and>
     VerifyMessageIntegrity id req [115] = Inr True \<and> au_Username (GetAuthParams req) = [97]"
proof -
  let ?as = "[UsernameAttr [97]]"
  have "list_all attr_sized ?as" "ordered (map GetType ?as)" by simp_all
  from NewMessage_ok [OF this, of "replicate 12 3"] obtain msg where
    m: "NewMessageWithTransactionID MsgTypeBindingRequest ?as (replicate 12 3) = Inr msg" "msg_inv msg"
      "msg_Attributes msg = ?as" by auto
  have fresh: "AttrMessageIntegrity \<notin> GetType ` set ?as" and fol: "may_follow AttrUsername AttrMessageIntegrity"
    by (simp_all add: attr_types may_follow_def)
  from AddMessageIntegrity_ok [OF m(2), of "[115]" id] m(3) fresh fol obtain req where
    r: "AddMessageIntegrity id msg [115] = Inr req" "msg_inv req" "same_header msg req"
      "msg_Attributes req = ?as @ [MessageIntegrityAttr (mac id [115] msg ?as)]" by auto
  have "mac id [115] msg ?as = mac id [115] req ?as"
    using mac_input_same_header [OF r(3)] by (simp add: mac_def)
  then have "VerifyMessageIntegrity id req [115] = Inr True"
    using r fresh by (intro Verify_inv [of req ?as _ _ "[]"]) simp_all
  moreover have "au_Username (GetAuthParams req) = [97]"
    using r(4) by (simp add: GetAuthParams_def)
  ultimately show ?thesis using m r(1) by blast
qed

theorem integrity_roundtrip_witness:
  "\<exists>msg msg' got. NewMessageWithTransactionID MsgTypeBindingRequest [UsernameAttr [97]] (replicate 12 3) = Inr msg \<and>
     AddMessageIntegrity id msg [115] = Inr msg' \<and>
     DecodeMessage (Buffer_Bytes (msg_Raw msg')) [] = Inr got \<and> VerifyMessageIntegrity id got [115] = Inr True"
proof -
  from signed_message obtain msg where
    m: "NewMessageWithTransactionID MsgTypeBindingRequest [UsernameAttr [97]] (replicate 12 3) = Inr msg"
      "msg_inv msg" "msg_Attributes msg = [UsernameAttr [97]]" by blast
  show ?thesis
    using integrity_roundtrip [OF m(2), of "[115]" id "[]"] m(1)
    by (auto simp: m(3) attr_types may_follow_def SerializeLen_defs attrSerializedSize_def calculatePadding_def
        TLVPrefixLength_def)
qed


section \<open>Opaque strings of ASCII text\<close>

lemma map_spaces_ascii:
  "list_all (\<lambda>b. b < 0x80) s \<Longrightarrow> map_spaces s = map (\<lambda>b. if IsSpace (unat b) then 0x20 else b) s"
proof (induction s)
  case Nil
  show ?case by (simp add: map_spaces.simps)
next
  case (Cons b s)
  then have "unat b < 128" by (simp add: word_less_nat_alt)
  then have "DecodeRune (b # s) = (unat b, 1)" "EncodeRune (unat b) = [b]" "EncodeRune 0x20 = [0x20]"
    by (simp_all add: DecodeRune_def EncodeRune_def)
  with Cons show ?case by (subst map_spaces.simps) simp
qed

text \<open>On ASCII text the mapping rule replaces every white space by a blank, tabulators and line
  breaks included, and leaves the rest alone; the length does not change.\<close>

theorem opaque_ascii:
  assumes "list_all (\<lambda>b. b < 0x80) s"
  shows "OpaqueString nfc s = nfc (map (\<lambda>b. if IsSpace (unat b) then 0x20 else b) s)"
  using map_spaces_ascii [OF assms] by (simp add: OpaqueString_def)

theorem opaque_ascii_witness: "OpaqueString id [97, 9, 98] = [97, 32, 98]"
  using opaque_ascii [of "[97, 9, 98]" id] by (simp add: IsSpace_def)

end
