(* ===== verification/Stun_Binding.thy ===== *)
theory Stun_Binding
  imports Stun_Integrity
begin

text \<open>
  STUN Binding transactions: their options (\<^verbatim>\<open>binding.go\<close>, \<^verbatim>\<open>binding_config.go\<close>), ICE credentials
  and attributes (\<^verbatim>\<open>ice.go\<close>), error messages (\<^verbatim>\<open>stun.go\<close>), and the proof that two agents with
  matching credentials complete an exchange. A pointer that may be nil is an option. Loggers
  are left out of the configurations.
\<close>

section \<open>ICE credentials and attributes\<close>

definition defaultIceTieBreaker :: u64 where "defaultIceTieBreaker = 0x12345678"

record IceConfig =
  ic_Priority :: u32
  ic_UseCandidate :: bool
  ic_IceControlling :: u64
  ic_IceControlled :: u64

record IceAuth =
  ia_LocalUfrag :: bytes
  ia_LocalPassword :: bytes
  ia_RemoteUfrag :: bytes
  ia_RemotePassword :: bytes

definition emptyIceAuth :: IceAuth where
  "emptyIceAuth = \<lparr>ia_LocalUfrag = [], ia_LocalPassword = [], ia_RemoteUfrag = [], ia_RemotePassword = []\<rparr>"

definition OutgoingUsername :: "IceAuth option \<Rightarrow> bytes" where
  "OutgoingUsername a =
     (case a of None \<Rightarrow> []
      | Some x \<Rightarrow> if ia_LocalUfrag x = [] \<or> ia_RemoteUfrag x = [] then []
                  else ia_RemoteUfrag x @ [58] @ ia_LocalUfrag x)"

definition ExpectedIncomingUsername :: "IceAuth option \<Rightarrow> bytes" where
  "ExpectedIncomingUsername a =
     (case a of None \<Rightarrow> []
      | Some x \<Rightarrow> if ia_LocalUfrag x = [] \<or> ia_RemoteUfrag x = [] then []
                  else ia_LocalUfrag x @ [58] @ ia_RemoteUfrag x)"

definition OutgoingRequestPassword :: "IceAuth option \<Rightarrow> bytes" where
  "OutgoingRequestPassword a = (case a of None \<Rightarrow> [] | Some x \<Rightarrow> ia_RemotePassword x)"

definition IncomingRequestPassword :: "IceAuth option \<Rightarrow> bytes" where
  "IncomingRequestPassword a = (case a of None \<Rightarrow> [] | Some x \<Rightarrow> ia_LocalPassword x)"

definition RequestAuth :: "IceAuth option \<Rightarrow> AuthConfig option" where
  "RequestAuth a =
     (case a of None \<Rightarrow> None
      | Some _ \<Rightarrow> Some \<lparr>au_Username = OutgoingUsername a, au_Password = OutgoingRequestPassword a,
                        au_Realm = [], au_Nonce = []\<rparr>)"

definition ExpectedAuth :: "IceAuth option \<Rightarrow> AuthConfig option" where
  "ExpectedAuth a =
     (case a of None \<Rightarrow> None
      | Some _ \<Rightarrow> Some \<lparr>au_Username = ExpectedIncomingUsername a, au_Password = IncomingRequestPassword a,
                        au_Realm = [], au_Nonce = []\<rparr>)"

definition emptyIceConfig :: IceConfig where
  "emptyIceConfig = \<lparr>ic_Priority = 0, ic_UseCandidate = False, ic_IceControlling = 0, ic_IceControlled = 0\<rparr>"

definition ParseIceAttributesFromMessage :: "Message \<Rightarrow> IceConfig" where
  "ParseIceAttributesFromMessage msg =
     (let find = FindAttribute (msg_Attributes msg)
      in \<lparr>ic_Priority = (case find AttrICEPriority of Some (ICEPriorityAttr w) \<Rightarrow> w | _ \<Rightarrow> 0),
          ic_UseCandidate = (find AttrICEUseCandidate \<noteq> None),
          ic_IceControlling = (case find AttrICEControlling of Some (ICEControllingAttr w) \<Rightarrow> w | _ \<Rightarrow> 0),
          ic_IceControlled = (case find AttrICEControlled of Some (ICEControlledAttr w) \<Rightarrow> w | _ \<Rightarrow> 0)\<rparr>)"

definition ice_attribute :: "u16 \<Rightarrow> bytes \<Rightarrow> IceConfig \<Rightarrow> IceConfig" where
  "ice_attribute attrType val ice =
     (if attrType = AttrICEPriority then (if length val = 4 then ice\<lparr>ic_Priority := get32 val 0\<rparr> else ice)
      else if attrType = AttrICEUseCandidate then ice\<lparr>ic_UseCandidate := True\<rparr>
      else if attrType = AttrICEControlling then (if length val = 8 then ice\<lparr>ic_IceControlling := get64 val 0\<rparr> else ice)
      else if attrType = AttrICEControlled then (if length val = 8 then ice\<lparr>ic_IceControlled := get64 val 0\<rparr> else ice)
      else ice)"

function parse_ice :: "bytes \<Rightarrow> IceConfig \<Rightarrow> IceConfig" where
  "parse_ice data ice =
     (if length data < 4 then ice
      else let attrType = get16 data 0; attrLen = unat (get16 data 2); rest = drop 4 data
           in if attrLen > length rest then ice
              else parse_ice (drop (attrLen + calculatePadding attrLen) rest)
                     (ice_attribute attrType (take attrLen rest) ice))"
  by pat_completeness auto

termination parse_ice
  by (relation "measure (\<lambda>(d, _). length d)") auto

declare parse_ice.simps [simp del]

definition ParseIceAttributesFromBytes :: "bytes \<Rightarrow> IceConfig result" where
  "ParseIceAttributesFromBytes data =
     (if length data < 4 then Inl (Err ''data too short for ICE attributes'')
      else Inr (parse_ice data emptyIceConfig))"

section \<open>Binding requests and responses\<close>

record BindingResult =
  br_ServerAddr :: string
  br_TransactionID :: bytes
  br_IP :: ip
  br_Port :: nat

record BindingOptions =
  bo_Auth :: "AuthConfig option"
  bo_Ice :: "IceConfig option"
  bo_RequireFingerprint :: bool

definition BuildAuthAttributes :: "BindingOptions \<Rightarrow> Attribute list" where
  "BuildAuthAttributes opts =
     (case bo_Auth opts of
        None \<Rightarrow> []
      | Some auth \<Rightarrow>
          (if au_Username auth \<noteq> [] then [UsernameAttr (au_Username auth)] else []) @
          (if au_Realm auth \<noteq> [] then [RealmAttr (au_Realm auth)] else []) @
          (if au_Nonce auth \<noteq> [] then [NonceAttr (au_Nonce auth)] else []))"

definition BuildIceAttributes :: "BindingOptions \<Rightarrow> Attribute list" where
  "BuildIceAttributes opts =
     (case bo_Ice opts of
        None \<Rightarrow> []
      | Some ice \<Rightarrow>
          (if ic_UseCandidate ice then [ICEUseCandidateAttr] else []) @
          (if ic_IceControlling ice > 0 then [ICEControllingAttr (ic_IceControlling ice)] else []) @
          (if ic_IceControlled ice > 0 then [ICEControlledAttr (ic_IceControlled ice)] else []) @
          (if ic_Priority ice > 0 then [ICEPriorityAttr (ic_Priority ice)] else []))"

definition option_attributes :: "BindingOptions option \<Rightarrow> Attribute list" where
  "option_attributes opts =
     (case opts of None \<Rightarrow> [] | Some o' \<Rightarrow> BuildAuthAttributes o' @ BuildIceAttributes o')"

text \<open>Signing and marking for a fingerprint, as both builders do it.\<close>

definition seal :: "(bytes \<Rightarrow> bytes) \<Rightarrow> BindingOptions option \<Rightarrow> Message \<Rightarrow> Message result" where
  "seal nfc opts msg =
     (case opts of
        None \<Rightarrow> Inr msg
      | Some o' \<Rightarrow>
          rbind (case bo_Auth o' of
                   Some auth \<Rightarrow>
                     if au_Password auth \<noteq> []
                     then wrap ''failed to add message integrity'' (AddMessageIntegrity nfc msg (au_Password auth))
                     else Inr msg
                 | None \<Rightarrow> Inr msg) (\<lambda>msg1.
            Inr (if bo_RequireFingerprint o' then WithFingerprint msg1 else msg1)))"

definition BuildBindingRequest :: "(bytes \<Rightarrow> bytes) \<Rightarrow> bytes result \<Rightarrow> BindingOptions option \<Rightarrow> Message result" where
  "BuildBindingRequest nfc rand opts =
     rbind (wrap ''failed to create STUN request''
              (NewMessage rand MsgTypeBindingRequest (option_attributes opts))) (seal nfc opts)"

definition Msg_Validate :: "(bytes \<Rightarrow> bytes) \<Rightarrow> Message \<Rightarrow> BindingOptions option \<Rightarrow> unit result" where
  "Msg_Validate nfc msg opts =
     rbind (Header_Validate (msg_Header msg)) (\<lambda>_.
       case opts of
         None \<Rightarrow> Inr ()
       | Some o' \<Rightarrow>
           rbind (if bo_Auth o' \<noteq> None then ValidateShortTermIntegrity nfc (Some msg) (bo_Auth o') else Inr ()) (\<lambda>_.
             if bo_RequireFingerprint o'
             then rbind (VerifyFingerprint msg) (\<lambda>ok.
                    if ok then Inr () else Inl (Err ''invalid STUN message: fingerprint verification failed''))
             else Inr ()))"

definition ProcessBindingRequest :: "(bytes \<Rightarrow> bytes) \<Rightarrow> Message option \<Rightarrow> NetAddr \<Rightarrow>
    BindingOptions option \<Rightarrow> BindingOptions option \<Rightarrow> Message result" where
  "ProcessBindingRequest nfc request remoteAddr validateOpts opts =
     (case request of
        None \<Rightarrow> Inl (Err ''binding request is required'')
      | Some req \<Rightarrow>
          rbind (wrap ''unexpected STUN message type''
                   (ValidateMethodAndClass (hd_Type (msg_Header req)) MethodBinding [ClassRequest])) (\<lambda>_.
          rbind (wrap ''invalid STUN request'' (Msg_Validate nfc req validateOpts)) (\<lambda>_.
          rbind (wrap ''failed to create XOR-MAPPED-ADDRESS''
                   (NewXorMappedAddressAttr remoteAddr (hd_TransactionID (msg_Header req)))) (\<lambda>xorAttr.
          rbind (wrap ''failed to create STUN response''
                   (NewMessageWithTransactionID MsgTypeBindingResponse (option_attributes opts @ [xorAttr])
                      (hd_TransactionID (msg_Header req)))) (seal nfc opts)))))"

definition ProcessBindingResponse :: "(bytes \<Rightarrow> bytes) \<Rightarrow> Message option \<Rightarrow> bytes \<Rightarrow>
    BindingOptions option \<Rightarrow> BindingResult result" where
  "ProcessBindingResponse nfc response expectedTxID validateOpts =
     (case response of
        None \<Rightarrow> Inl (Err ''STUN response is required'')
      | Some resp \<Rightarrow>
          rbind (wrap ''invalid STUN response'' (Msg_Validate nfc resp validateOpts)) (\<lambda>_.
          if hd_TransactionID (msg_Header resp) \<noteq> expectedTxID then Inl (Err ''transaction ID mismatch'')
          else rbind (wrap ''unexpected STUN message type''
                   (ValidateMethodAndClass (hd_Type (msg_Header resp)) MethodBinding
                      [ClassSuccessResponse, ClassErrorResponse])) (\<lambda>_.
          if IsErrorResponseType (hd_Type (msg_Header resp))
          then rbind (wrap ''failed to parse error code attribute'' (ParseError resp)) (\<lambda>(code, reason).
                 Inl (Err (''STUN error '' @ show_int code @ '': '' @ map (\<lambda>b. char_of (unat b)) reason)))
          else if \<not> IsSuccessResponseType (hd_Type (msg_Header resp))
          then Inl (Err (''unexpected STUN message type: 0x'' @ hex (hd_Type (msg_Header resp))))
          else rbind (wrap ''failed to extract mapped address'' (MappedAddrPort resp)) (\<lambda>(a, port).
                 if a = [] then Inl (Err ''no XOR-MAPPED-ADDRESS in response'')
                 else Inr \<lparr>br_ServerAddr = [], br_TransactionID = expectedTxID, br_IP = a, br_Port = port\<rparr>))))"

section \<open>Configurations of binding agents\<close>

record BindingAgentConfig =
  bc_RequestOptions :: "BindingOptions option"
  bc_HandleOptions :: "BindingOptions option"

definition fpOptions :: BindingOptions where
  "fpOptions = \<lparr>bo_Auth = None, bo_Ice = None, bo_RequireFingerprint = True\<rparr>"

definition NewBindingAgentConfig :: "AuthConfig option \<Rightarrow> BindingAgentConfig" where
  "NewBindingAgentConfig auth =
     (case auth of
        None \<Rightarrow> \<lparr>bc_RequestOptions = Some fpOptions, bc_HandleOptions = Some fpOptions\<rparr>
      | Some _ \<Rightarrow>
          \<lparr>bc_RequestOptions = Some \<lparr>bo_Auth = auth, bo_Ice = None, bo_RequireFingerprint = False\<rparr>,
           bc_HandleOptions = Some \<lparr>bo_Auth = auth, bo_Ice = None, bo_RequireFingerprint = False\<rparr>\<rparr>)"

definition NewICEBindingAgentConfig :: "IceAuth option \<Rightarrow> IceConfig option \<Rightarrow> BindingAgentConfig" where
  "NewICEBindingAgentConfig iceAuth attributes =
     (let auth = (case iceAuth of None \<Rightarrow> Some emptyIceAuth | Some a \<Rightarrow> Some a)
      in \<lparr>bc_RequestOptions = Some (fpOptions\<lparr>bo_Auth := RequestAuth auth, bo_Ice := attributes\<rparr>),
          bc_HandleOptions = Some (fpOptions\<lparr>bo_Auth := ExpectedAuth auth, bo_Ice := attributes\<rparr>)\<rparr>)"

definition NewControllingICEBindingAgentConfig :: "IceAuth option \<Rightarrow> u32 \<Rightarrow> BindingAgentConfig" where
  "NewControllingICEBindingAgentConfig auth priority =
     NewICEBindingAgentConfig auth (Some \<lparr>ic_Priority = priority, ic_UseCandidate = False,
       ic_IceControlling = defaultIceTieBreaker, ic_IceControlled = 0\<rparr>)"

definition NewControlledICEBindingAgentConfig :: "IceAuth option \<Rightarrow> u32 \<Rightarrow> BindingAgentConfig" where
  "NewControlledICEBindingAgentConfig auth priority =
     NewICEBindingAgentConfig auth (Some \<lparr>ic_Priority = priority, ic_UseCandidate = False,
       ic_IceControlling = 0, ic_IceControlled = defaultIceTieBreaker\<rparr>)"

section \<open>Error responses\<close>

definition CreateErrorMessage :: "bytes \<Rightarrow> int \<Rightarrow> bytes \<Rightarrow> Message result" where
  "CreateErrorMessage txID code reason =
     NewMessageWithTransactionID MsgTypeBindingErrorResponse [ErrorCodeAttr code reason] txID"

text \<open>The result of appending realm and nonce is not looked at.\<close>

definition append_ignoring :: "Message \<Rightarrow> Attribute \<Rightarrow> Message result" where
  "append_ignoring msg attr =
     (case AppendAttribute msg [attr] of Inl (Err e) \<Rightarrow> Inr msg | r \<Rightarrow> r)"

definition CreateAuthenticatedErrorMessage :: "bytes \<Rightarrow> int \<Rightarrow> bytes \<Rightarrow> AuthConfig option \<Rightarrow> Message result" where
  "CreateAuthenticatedErrorMessage txID code reason auth =
     rbind (wrap ''failed to create error message'' (CreateErrorMessage txID code reason)) (\<lambda>msg.
       case auth of
         None \<Rightarrow> Inl (Err ''authentication configuration is required'')
       | Some a \<Rightarrow>
           rbind (if au_Realm a \<noteq> [] then append_ignoring msg (RealmAttr (au_Realm a)) else Inr msg) (\<lambda>msg1.
           rbind (if au_Nonce a \<noteq> [] then append_ignoring msg1 (NonceAttr (au_Nonce a)) else Inr msg1) (\<lambda>msg2.
             Inr (WithFingerprint msg2))))"

text \<open>The bytes handed to the connection; \<open>write\<close> is what the connection answers.\<close>

definition SendErrorResponse :: "(bytes \<Rightarrow> unit result) option \<Rightarrow> bytes \<Rightarrow> int \<Rightarrow> bytes \<Rightarrow> AuthConfig option \<Rightarrow> unit result" where
  "SendErrorResponse conn txID code reason auth =
     (case conn of
        None \<Rightarrow> Inl (Err ''invalid input: connection is required'')
      | Some write \<Rightarrow>
          rbind (wrap ''failed to create error response''
                   (CreateAuthenticatedErrorMessage txID code reason auth)) (\<lambda>msg.
            wrap ''failed to send error response''
              (rbind (Msg_WriteTo msg) (\<lambda>(_, wire). write wire))))"

section \<open>Sealed messages\<close>

text \<open>Attributes without integrity or fingerprint, as the options produce them.\<close>

definition plain :: "Attribute list \<Rightarrow> bool" where
  "plain as \<longleftrightarrow> list_all (\<lambda>a. attr_wf a \<and> known a \<and>
     GetType a \<notin> {AttrMessageIntegrity, AttrMessageIntegritySHA256, AttrFingerprint}) as"

lemma plain_append [simp]: "plain (as @ bs) \<longleftrightarrow> plain as \<and> plain bs"
  by (simp add: plain_def)

lemma plain_ordered: "plain as \<Longrightarrow> ordered (map GetType as)"
  by (induction as rule: rev_induct) (auto simp: plain_def ordered_snoc may_follow_def last_map list_all_iff
      dest: last_in_set)

lemma plainD:
  assumes "plain as"
  shows "list_all attr_wf as" "list_all attr_sized as" "filter known as = as"
    "AttrMessageIntegrity \<notin> GetType ` set as" "AttrFingerprint \<notin> GetType ` set as"
    "as = [] \<or> may_follow (GetType (last as)) AttrMessageIntegrity"
  using assms last_in_set [of as]
  by (auto simp: plain_def list_all_iff attr_wf_sized filter_id_conv may_follow_def)

lemma SerializeLen_dvd4: "4 dvd SerializeLen a"
proof -
  have "4 dvd attrSerializedSize n" for n
  proof -
    have "4 dvd unat n + calculatePadding (unat n)" by (simp add: mod_0_imp_dvd)
    then have "4 dvd 4 + (unat n + calculatePadding (unat n))" by (rule dvd_add [OF dvd_refl])
    then show ?thesis by (simp add: attrSerializedSize_def TLVPrefixLength_def add.assoc)
  qed
  then show ?thesis by (cases a) (simp_all add: SerializeLen_defs)
qed

lemma attrs_len_dvd4: "4 dvd attrs_len as"
  by (induction as) (simp_all add: SerializeLen_dvd4 dvd_add del: SerializeLen.simps)

lemma Header_Validate_ok:
  assumes "hd_Type h AND 0xC000 = 0" "hd_MagicCookie h = MagicCookie" "hd_Length h = of_nat n" "4 dvd n" "n < 65536"
  shows "Header_Validate h = Inr ()"
proof -
  have "unat (hd_Length h mod 4) = 0"
    using assms(3-5) by (simp add: unat_mod unat_of_nat16 dvd_imp_mod_0)
  then have "hd_Length h mod 4 = 0" by (simp add: unat_eq_zero)
  then show ?thesis using assms(1,2) by (simp add: Header_Validate_def)
qed

lemma strip_fp_MI: "strip_fp (as @ [MessageIntegrityAttr v]) = as @ [MessageIntegrityAttr v]"
  by (simp add: strip_fp_def attr_types)

text \<open>
  A message of plain attributes, signed and with a fingerprint: what a receiver decodes from
  the bytes written has the header and the attributes and passes both checks.
\<close>

definition opens_as :: "(bytes \<Rightarrow> bytes) \<Rightarrow> bytes \<Rightarrow> u16 \<Rightarrow> bytes \<Rightarrow> Attribute list \<Rightarrow> Message \<Rightarrow> bool" where
  "opens_as nfc password t txID as got \<longleftrightarrow>
     hd_Type (msg_Header got) = t \<and> hd_TransactionID (msg_Header got) = txID \<and>
     hd_MagicCookie (msg_Header got) = MagicCookie \<and>
     hd_Length (msg_Header got) = of_nat (attrs_len as + 32) \<and>
     (\<exists>v w. msg_Attributes got = as @ [MessageIntegrityAttr v, FingerprintAttr w]) \<and>
     VerifyMessageIntegrity nfc got password = Inr True \<and> VerifyFingerprint got = Inr True"

lemma SerializeLen_MI [simp]: "MessageIntegrityAttr_SerializeLen = 24"
  by (simp add: SerializeLen_defs attrSerializedSize_def TLVPrefixLength_def)

lemma signed_and_fingerprinted:
  assumes as: "plain as" and tx: "length txID = 12" and pw: "password \<noteq> []"
  shows "\<exists>m0 m1 m2 v w. NewMessageWithTransactionID t as txID = Inr m0 \<and>
    AddMessageIntegrity nfc m0 password = Inr m1 \<and> AddFingerprint (WithFingerprint m1) = Inr m2 \<and> msg_inv m2 \<and>
    hd_Type (msg_Header m2) = t \<and> hd_TransactionID (msg_Header m2) = txID \<and>
    hd_MagicCookie (msg_Header m2) = MagicCookie \<and>
    msg_Attributes m2 = as @ [MessageIntegrityAttr v, FingerprintAttr w] \<and>
    v = mac nfc password m2 as \<and>
    w = fp_value (hbytes (msg_Header m2) @ concat (map encode (as @ [MessageIntegrityAttr v])))"
proof -
  note p = plainD [OF as]
  from NewMessage_ok [OF p(2) plain_ordered [OF as] tx, of t] obtain m0 where m0:
    "NewMessageWithTransactionID t as txID = Inr m0" "msg_inv m0" "msg_Attributes m0 = as"
    "hd_Type (msg_Header m0) = t" "hd_MagicCookie (msg_Header m0) = MagicCookie"
    "hd_TransactionID (msg_Header m0) = txID" by auto
  from AddMessageIntegrity_ok [OF m0(2), of password nfc] p pw m0(3) obtain m1 where m1:
    "AddMessageIntegrity nfc m0 password = Inr m1" "msg_inv m1" "same_header m0 m1"
    "msg_Attributes m1 = as @ [MessageIntegrityAttr (mac nfc password m0 as)]" by auto
  let ?v = "mac nfc password m0 as" let ?m = "WithFingerprint m1"
  have inv: "msg_inv ?m" and ms: "msg_Attributes ?m = as @ [MessageIntegrityAttr ?v]" "msg_Header ?m = msg_Header m1"
    using m1(2,4) by (simp_all add: msg_inv_def WithFingerprint_def)
  have fresh: "AttrFingerprint \<notin> GetType ` set (strip_fp (msg_Attributes ?m))"
    using p(5) unfolding ms(1) strip_fp_MI by (auto simp: attr_types)
  from AddFingerprint_ok [OF inv fresh] obtain m2 w where m2: "AddFingerprint ?m = Inr m2" "msg_inv m2"
    "same_header ?m m2" "msg_Attributes m2 = (as @ [MessageIntegrityAttr ?v]) @ [FingerprintAttr w]"
    "w = fp_value (hbytes (msg_Header ?m) @ concat (map encode (as @ [MessageIntegrityAttr ?v])))"
    unfolding ms(1) strip_fp_MI by auto
  have sh: "same_header m0 m2"
    using m1(3) m2(3) ms(2) by (simp add: same_header_def)
  have "msg_Header m2 = (msg_Header ?m)\<lparr>hd_Length := hd_Length (msg_Header m2)\<rparr>"
    using m2(3) by (cases "msg_Header m2"; cases "msg_Header ?m") (simp add: same_header_def)
  then have w: "w = fp_value (hbytes (msg_Header m2) @ concat (map encode (as @ [MessageIntegrityAttr ?v])))"
    using m2(5) fp_value_length_field by metis
  have "?v = mac nfc password m2 as"
    using mac_input_same_header [OF sh] by (simp add: mac_def)
  then show ?thesis
    using m0 m1(1) m2 sh w by (intro exI [of _ m0] exI [of _ m1] exI [of _ m2] exI [of _ ?v] exI [of _ w])
      (simp add: same_header_def)
qed

lemma sealed_opens:
  assumes as: "plain as" and tx: "length txID = 12" and pw: "password \<noteq> []" and len: "attrs_len as + 32 < 65536"
  shows "\<exists>m0 m1 m2 wire. NewMessageWithTransactionID t as txID = Inr m0 \<and>
    AddMessageIntegrity nfc m0 password = Inr m1 \<and> Msg_WriteTo (WithFingerprint m1) = Inr (m2, wire) \<and>
    (\<forall>spare. \<exists>got. DecodeMessage wire spare = Inr got \<and> opens_as nfc password t txID as got)"
proof -
  note p = plainD [OF as]
  from signed_and_fingerprinted [OF as tx pw, of t nfc] obtain m0 m1 m2 v w where m:
    "NewMessageWithTransactionID t as txID = Inr m0" "AddMessageIntegrity nfc m0 password = Inr m1"
    "AddFingerprint (WithFingerprint m1) = Inr m2" "msg_inv m2" "hd_Type (msg_Header m2) = t"
    "hd_TransactionID (msg_Header m2) = txID" "hd_MagicCookie (msg_Header m2) = MagicCookie"
    "msg_Attributes m2 = as @ [MessageIntegrityAttr v, FingerprintAttr w]" "v = mac nfc password m2 as"
    "w = fp_value (hbytes (msg_Header m2) @ concat (map encode (as @ [MessageIntegrityAttr v])))" by blast
  let ?ms = "as @ [MessageIntegrityAttr v, FingerprintAttr w]"
  have kn: "filter known ?ms = ?ms"
    using p(3) by (simp add: known_def typeRegistry_def attr_types)
  have wf: "list_all attr_wf (msg_Attributes m2)" "attrs_len (msg_Attributes m2) = attrs_len as + 32"
    using p(1) m(8,9) by simp_all
  have written: "Msg_WriteTo (WithFingerprint m1) = Inr (m2, Buffer_Bytes (msg_Raw m2))"
    using m(3) by (simp add: Msg_WriteTo_def WithFingerprint_def)
  have "\<exists>got. DecodeMessage (Buffer_Bytes (msg_Raw m2)) spare = Inr got \<and> opens_as nfc password t txID as got" for spare
  proof -
    let ?got = "\<lparr>msg_Header = msg_Header m2, msg_Attributes = ?ms,
      msg_Raw = NewBuffer (Buffer_Bytes (msg_Raw m2) @ spare) (length (Buffer_Bytes (msg_Raw m2))), msg_fingerprint = False\<rparr>"
    have dec: "DecodeMessage (Buffer_Bytes (msg_Raw m2)) spare = Inr ?got"
      using DecodeMessage_inv [OF m(4) wf(1), of spare] wf(2) len kn by (simp add: m(8))
    have "VerifyMessageIntegrity nfc ?got password = Inr True"
      by (rule Verify_inv [OF m(4), of as nfc password "[FingerprintAttr w]"]) (use m(8,9) p(4) pw in simp_all)
    moreover have "AttrFingerprint \<notin> GetType ` set (as @ [MessageIntegrityAttr v])"
      using p(5) by (auto simp: attr_types)
    then have "VerifyFingerprint ?got = Inr True"
      using verify_fp_inv [OF m(4), of "as @ [MessageIntegrityAttr v]" w "msg_Raw ?got" ?got] m(8,10)
        FindAttribute_fp [of "as @ [MessageIntegrityAttr v]" w] by simp
    moreover have "hd_Length (msg_Header m2) = of_nat (attrs_len as + 32)"
      using m(4) wf(2) by (simp add: msg_inv_def)
    ultimately show ?thesis
      using dec m(5-7) by (auto simp: opens_as_def)
  qed
  then show ?thesis using m(1,2) written by blast
qed

section \<open>A complete exchange\<close>

lemma Validate_opens:
  assumes o: "opens_as nfc pw t txID (UsernameAttr u # as) got" and t: "t AND 0xC000 = 0" and pw: "pw \<noteq> []"
    and u: "OpaqueString nfc u \<noteq> []" and len: "attrs_len (UsernameAttr u # as) + 32 < 65536"
  shows "Msg_Validate nfc got (Some \<lparr>bo_Auth = Some \<lparr>au_Username = u, au_Password = pw, au_Realm = [], au_Nonce = []\<rparr>,
    bo_Ice = ice, bo_RequireFingerprint = True\<rparr>) = Inr ()"
proof -
  have "4 dvd attrs_len (UsernameAttr u # as) + 32"
    using attrs_len_dvd4 by (rule dvd_add) simp
  then have "Header_Validate (msg_Header got) = Inr ()"
    using o t len by (intro Header_Validate_ok [of _ "attrs_len (UsernameAttr u # as) + 32"]) (auto simp: opens_as_def)
  moreover have "au_Username (GetAuthParams got) = u"
    using o by (auto simp: opens_as_def GetAuthParams_def)
  then have "ValidateShortTermIntegrity nfc (Some got)
      (Some \<lparr>au_Username = u, au_Password = pw, au_Realm = [], au_Nonce = []\<rparr>) = Inr ()"
    using o pw u by (simp add: ValidateShortTermIntegrity_def Let_def opens_as_def)
  moreover have "VerifyFingerprint got = Inr True"
    using o by (simp add: opens_as_def)
  ultimately show ?thesis
    by (simp add: Msg_Validate_def)
qed

lemma ice_attributes:
  "plain (BuildIceAttributes opts)" "attrs_len (BuildIceAttributes opts) \<le> 36"
  "FindAttribute (BuildIceAttributes opts) AttrXorMappedAddress = None"
  by (auto simp: BuildIceAttributes_def plain_def known_def typeRegistry_def attr_types SerializeLen_defs
      attrSerializedSize_def TLVPrefixLength_def calculatePadding_def split: option.splits)

lemma plain_Username: "plain [UsernameAttr u] \<longleftrightarrow> length u < 65532"
  by (simp add: plain_def known_def typeRegistry_def attr_types)

lemma SerializeLen_Username: "length u < 60000 \<Longrightarrow> UsernameAttr_SerializeLen u \<le> length u + 7"
  using calculatePadding_less [of "length u"]
  by (simp add: SerializeLen_defs attrSerializedSize_def TLVPrefixLength_def unat_of_nat16)

lemma xor_attribute:
  assumes "NewXorMappedAddressAttr addr txID = Inr (XorMappedAddressAttr v)" "length v \<in> {8, 20}"
  shows "plain [XorMappedAddressAttr v]" "attrs_len [XorMappedAddressAttr v] \<le> 24"
  using assms(2) by (auto simp: plain_def known_def typeRegistry_def attr_types SerializeLen_defs
      attrSerializedSize_def TLVPrefixLength_def calculatePadding_def)

lemma stun_type_ok:
  "MsgTypeBindingRequest AND 0xC000 = 0" "MsgTypeBindingResponse AND 0xC000 = 0"
  "ValidateMethodAndClass MsgTypeBindingRequest MethodBinding [ClassRequest] = Inr ()"
  "ValidateMethodAndClass MsgTypeBindingResponse MethodBinding [ClassSuccessResponse, ClassErrorResponse] = Inr ()"
  "\<not> IsErrorResponseType MsgTypeBindingResponse" "IsSuccessResponseType MsgTypeBindingResponse"
  by (simp_all add: ValidateMethodAndClass_def MessageMethod_def MessageClass_def stun_consts Let_def
      IsErrorResponseType_def IsSuccessResponseType_def)

text \<open>Options with a user, a password and a required fingerprint, as the ICE agents have them.\<close>

definition user_opts :: "bytes \<Rightarrow> bytes \<Rightarrow> IceConfig option \<Rightarrow> BindingOptions" where
  "user_opts u pw ice = \<lparr>bo_Auth = Some \<lparr>au_Username = u, au_Password = pw, au_Realm = [], au_Nonce = []\<rparr>,
     bo_Ice = ice, bo_RequireFingerprint = True\<rparr>"

lemma user_opts_attributes: "u \<noteq> [] \<Longrightarrow>
    option_attributes (Some (user_opts u pw ice)) = UsernameAttr u # BuildIceAttributes (user_opts u pw ice)"
  by (simp add: option_attributes_def BuildAuthAttributes_def user_opts_def)

lemma seal_user_opts: "pw \<noteq> [] \<Longrightarrow> AddMessageIntegrity nfc m0 pw = Inr m1 \<Longrightarrow>
    seal nfc (Some (user_opts u pw ice)) m0 = Inr (WithFingerprint m1)"
  by (simp add: seal_def user_opts_def)

lemma request_step:
  assumes "u \<noteq> []" "pw \<noteq> []" "length u < 60000" "length txID = 12" "OpaqueString nfc u \<noteq> []"
  shows "\<exists>request m1 wire. BuildBindingRequest nfc (Inr txID) (Some (user_opts u pw ice)) = Inr request \<and>
    Msg_WriteTo request = Inr (m1, wire) \<and>
    (\<forall>spare. \<exists>req. DecodeMessage wire spare = Inr req \<and> hd_Type (msg_Header req) = MsgTypeBindingRequest \<and>
       hd_TransactionID (msg_Header req) = txID \<and> Msg_Validate nfc req (Some (user_opts u pw ice')) = Inr ())"
proof -
  let ?o = "user_opts u pw ice" let ?as = "UsernameAttr u # BuildIceAttributes ?o"
  have p: "plain ?as" using ice_attributes(1) [of ?o] plain_Username [of u] assms(3) by (simp add: plain_def)
  have len: "attrs_len ?as + 32 < 65536"
    using ice_attributes(2) [of ?o] SerializeLen_Username [OF assms(3)] assms(3) by simp
  from sealed_opens [OF p assms(4,2) len, of MsgTypeBindingRequest nfc] obtain m0 m1 m2 wire where
    m: "NewMessageWithTransactionID MsgTypeBindingRequest ?as txID = Inr m0" "AddMessageIntegrity nfc m0 pw = Inr m1"
      "Msg_WriteTo (WithFingerprint m1) = Inr (m2, wire)"
      "\<And>spare. \<exists>got. DecodeMessage wire spare = Inr got \<and> opens_as nfc pw MsgTypeBindingRequest txID ?as got" by blast
  have "BuildBindingRequest nfc (Inr txID) (Some ?o) = Inr (WithFingerprint m1)"
    using m(1) seal_user_opts [OF assms(2) m(2)]
    by (simp add: BuildBindingRequest_def user_opts_attributes [OF assms(1)] NewMessage_def)
  moreover have "\<exists>req. DecodeMessage wire spare = Inr req \<and> hd_Type (msg_Header req) = MsgTypeBindingRequest \<and>
       hd_TransactionID (msg_Header req) = txID \<and> Msg_Validate nfc req (Some (user_opts u pw ice')) = Inr ()" for spare
    using m(4) [of spare] Validate_opens [OF _ stun_type_ok(1) assms(2,5) len, of txID _ ice']
    by (auto simp: opens_as_def user_opts_def)
  ultimately show ?thesis using m(3) by blast
qed

lemma response_step:
  assumes "u \<noteq> []" "pw \<noteq> []" "length u < 60000" "OpaqueString nfc u \<noteq> []"
    and addr: "addr_ip_port addr = Inr (a, port)" "length a = 4 \<or> length a = 16" "0 \<le> port" "port < 65536"
    and req: "hd_Type (msg_Header req) = MsgTypeBindingRequest" "hd_TransactionID (msg_Header req) = txID"
      "length txID = 12" "Msg_Validate nfc req vopts = Inr ()"
  shows "\<exists>response m1 wire. ProcessBindingRequest nfc (Some req) addr vopts (Some (user_opts u pw ice)) = Inr response \<and>
    Msg_WriteTo response = Inr (m1, wire) \<and>
    (\<forall>spare. \<exists>resp result. DecodeMessage wire spare = Inr resp \<and>
       ProcessBindingResponse nfc (Some resp) txID (Some (user_opts u pw ice')) = Inr result \<and>
       br_TransactionID result = txID \<and> IP_Equal (br_IP result) a \<and> br_Port result = nat port)"
proof -
  let ?o = "user_opts u pw ice" let ?v = "xor_value (canonical a) (of_int port) txID"
  let ?as = "UsernameAttr u # (BuildIceAttributes ?o @ [XorMappedAddressAttr ?v])"
  note can = canonical_length [OF addr(2)]
  have xor: "NewXorMappedAddressAttr addr txID = Inr (XorMappedAddressAttr ?v)"
    by (rule NewXor_value [OF addr(1,2) req(3)])
  have "length ?v \<in> {8, 20}" using can req(3) by (auto simp: xor_value_def)
  note xa = xor_attribute [OF xor this]
  have p: "plain ?as" using ice_attributes(1) [of ?o] plain_Username [of u] xa(1) assms(3) by (simp add: plain_def)
  have len: "attrs_len ?as + 32 < 65536"
    using ice_attributes(2) [of ?o] SerializeLen_Username [OF assms(3)] xa(2) assms(3) by simp
  from sealed_opens [OF p req(3) assms(2) len, of MsgTypeBindingResponse nfc] obtain m0 m1 m2 wire where
    m: "NewMessageWithTransactionID MsgTypeBindingResponse ?as txID = Inr m0" "AddMessageIntegrity nfc m0 pw = Inr m1"
      "Msg_WriteTo (WithFingerprint m1) = Inr (m2, wire)"
      "\<And>spare. \<exists>got. DecodeMessage wire spare = Inr got \<and> opens_as nfc pw MsgTypeBindingResponse txID ?as got" by blast
  have "ProcessBindingRequest nfc (Some req) addr vopts (Some ?o) = Inr (WithFingerprint m1)"
    using m(1) seal_user_opts [OF assms(2) m(2)] xor
    by (simp add: ProcessBindingRequest_def user_opts_attributes [OF assms(1)] req stun_type_ok)
  moreover have "\<exists>resp result. DecodeMessage wire spare = Inr resp \<and>
       ProcessBindingResponse nfc (Some resp) txID (Some (user_opts u pw ice')) = Inr result \<and>
       br_TransactionID result = txID \<and> IP_Equal (br_IP result) a \<and> br_Port result = nat port" for spare
  proof -
    from m(4) [of spare] obtain got where g: "DecodeMessage wire spare = Inr got"
      "opens_as nfc pw MsgTypeBindingResponse txID ?as got" by blast
    have "FindAttribute (msg_Attributes got) AttrXorMappedAddress = Some (XorMappedAddressAttr ?v)"
      using g(2) ice_attributes(3) [of ?o] by (auto simp: opens_as_def FindAttribute_append attr_types)
    then have addrport: "MappedAddrPort got = Inr (canonical a, nat port)"
      using g(2) DecodeXor_value [OF can req(3), of "of_int port"] unat_of_nat16 [of "nat port"] addr(3,4)
      by (simp add: MappedAddrPort_def opens_as_def)
    have "canonical a \<noteq> []" using can by auto
    moreover have "Msg_Validate nfc got (Some (user_opts u pw ice')) = Inr ()"
      unfolding user_opts_def by (rule Validate_opens [OF g(2) stun_type_ok(2) assms(2,4) len])
    ultimately have "ProcessBindingResponse nfc (Some got) txID (Some (user_opts u pw ice')) =
        Inr \<lparr>br_ServerAddr = [], br_TransactionID = txID, br_IP = canonical a, br_Port = nat port\<rparr>"
      using g(2) addrport by (simp add: ProcessBindingResponse_def opens_as_def stun_type_ok)
    then show ?thesis using g(1) canonical_equal [OF addr(2)] by auto
  qed
  ultimately show ?thesis using m(3) by blast
qed

text \<open>The credentials of one agent are those of the other with local and remote swapped.\<close>

definition mirrored :: "IceAuth \<Rightarrow> IceAuth \<Rightarrow> bool" where
  "mirrored a b \<longleftrightarrow> ia_LocalUfrag b = ia_RemoteUfrag a \<and> ia_RemoteUfrag b = ia_LocalUfrag a \<and>
     ia_LocalPassword b = ia_RemotePassword a \<and> ia_RemotePassword b = ia_LocalPassword a"

definition complete :: "IceAuth \<Rightarrow> bool" where
  "complete a \<longleftrightarrow> ia_LocalUfrag a \<noteq> [] \<and> ia_RemoteUfrag a \<noteq> [] \<and> ia_LocalPassword a \<noteq> [] \<and>
     ia_RemotePassword a \<noteq> [] \<and> length (ia_LocalUfrag a) + length (ia_RemoteUfrag a) < 59999"

lemma ice_config_opts:
  assumes "complete a"
  shows "bc_RequestOptions (NewICEBindingAgentConfig (Some a) ice) =
      Some (user_opts (ia_RemoteUfrag a @ [58] @ ia_LocalUfrag a) (ia_RemotePassword a) ice)"
    "bc_HandleOptions (NewICEBindingAgentConfig (Some a) ice) =
      Some (user_opts (ia_LocalUfrag a @ [58] @ ia_RemoteUfrag a) (ia_LocalPassword a) ice)"
  using assms by (simp_all add: NewICEBindingAgentConfig_def Let_def fpOptions_def user_opts_def RequestAuth_def
      ExpectedAuth_def OutgoingUsername_def ExpectedIncomingUsername_def OutgoingRequestPassword_def
      IncomingRequestPassword_def complete_def)

text \<open>C6. Two ICE agents whose credentials mirror each other complete a Binding exchange: the request
  of one, written to the wire and decoded, is accepted by the other, and the first accepts the
  response and learns the address and port from which the second saw it.\<close>

theorem binding_exchange:
  fixes a b :: IceAuth
  assumes "complete a" "mirrored a b" "length txID = 12"
    and "OpaqueString nfc (ia_RemoteUfrag a @ [58] @ ia_LocalUfrag a) \<noteq> []"
      "OpaqueString nfc (ia_LocalUfrag a @ [58] @ ia_RemoteUfrag a) \<noteq> []"
    and "addr_ip_port addr = Inr (x, port)" "length x = 4 \<or> length x = 16" "0 \<le> port" "port < 65536"
  shows "\<exists>request m1 wire1 req response m2 wire2 resp result.
    BuildBindingRequest nfc (Inr txID) (bc_RequestOptions (NewICEBindingAgentConfig (Some a) iceA)) = Inr request \<and>
    Msg_WriteTo request = Inr (m1, wire1) \<and> DecodeMessage wire1 spare1 = Inr req \<and>
    ProcessBindingRequest nfc (Some req) addr (bc_HandleOptions (NewICEBindingAgentConfig (Some b) iceB))
      (bc_RequestOptions (NewICEBindingAgentConfig (Some b) iceB)) = Inr response \<and>
    Msg_WriteTo response = Inr (m2, wire2) \<and> DecodeMessage wire2 spare2 = Inr resp \<and>
    ProcessBindingResponse nfc (Some resp) txID (bc_HandleOptions (NewICEBindingAgentConfig (Some a) iceA)) = Inr result \<and>
    br_TransactionID result = txID \<and> IP_Equal (br_IP result) x \<and> br_Port result = nat port"
proof -
  have b: "complete b" using assms(1,2) by (auto simp: complete_def mirrored_def)
  let ?u = "ia_RemoteUfrag a @ [58] @ ia_LocalUfrag a" let ?u' = "ia_LocalUfrag a @ [58] @ ia_RemoteUfrag a"
  have opts: "bc_HandleOptions (NewICEBindingAgentConfig (Some b) iceB) = Some (user_opts ?u (ia_RemotePassword a) iceB)"
    "bc_RequestOptions (NewICEBindingAgentConfig (Some b) iceB) = Some (user_opts ?u' (ia_LocalPassword a) iceB)"
    using ice_config_opts [OF b, of iceB] assms(2) by (simp_all add: mirrored_def)
  have pw: "ia_RemotePassword a \<noteq> []" "ia_LocalPassword a \<noteq> []" and len: "length ?u < 60000" "length ?u' < 60000"
    and ne: "?u \<noteq> []" "?u' \<noteq> []"
    using assms(1) by (auto simp: complete_def)
  from request_step [OF ne(1) pw(1) len(1) assms(3,4), of iceA iceB] obtain request m1 wire1 req where
    r: "BuildBindingRequest nfc (Inr txID) (Some (user_opts ?u (ia_RemotePassword a) iceA)) = Inr request"
      "Msg_WriteTo request = Inr (m1, wire1)" "DecodeMessage wire1 spare1 = Inr req"
      "hd_Type (msg_Header req) = MsgTypeBindingRequest" "hd_TransactionID (msg_Header req) = txID"
      "Msg_Validate nfc req (Some (user_opts ?u (ia_RemotePassword a) iceB)) = Inr ()" by blast
  from response_step [OF ne(2) pw(2) len(2) assms(5-9) r(4,5) assms(3) r(6), of iceB iceA]
  show ?thesis
    unfolding ice_config_opts [OF assms(1)] opts using r(1-3) by blast
qed

theorem binding_exchange_witness:
  "\<exists>request m1 wire1 req response m2 wire2 resp result.
    BuildBindingRequest id (Inr (replicate 12 1)) (bc_RequestOptions (NewICEBindingAgentConfig
      (Some \<lparr>ia_LocalUfrag = [97], ia_LocalPassword = [112], ia_RemoteUfrag = [98], ia_RemotePassword = [113]\<rparr>) None)) = Inr request \<and>
    Msg_WriteTo request = Inr (m1, wire1) \<and> DecodeMessage wire1 [] = Inr req \<and>
    ProcessBindingRequest id (Some req) (UDPAddr [10, 0, 0, 7] 4000) (bc_HandleOptions (NewICEBindingAgentConfig
      (Some \<lparr>ia_LocalUfrag = [98], ia_LocalPassword = [113], ia_RemoteUfrag = [97], ia_RemotePassword = [112]\<rparr>) None))
      (bc_RequestOptions (NewICEBindingAgentConfig
      (Some \<lparr>ia_LocalUfrag = [98], ia_LocalPassword = [113], ia_RemoteUfrag = [97], ia_RemotePassword = [112]\<rparr>) None)) = Inr response \<and>
    Msg_WriteTo response = Inr (m2, wire2) \<and> DecodeMessage wire2 [] = Inr resp \<and>
    ProcessBindingResponse id (Some resp) (replicate 12 1) (bc_HandleOptions (NewICEBindingAgentConfig
      (Some \<lparr>ia_LocalUfrag = [97], ia_LocalPassword = [112], ia_RemoteUfrag = [98], ia_RemotePassword = [113]\<rparr>) None)) = Inr result \<and>
    br_TransactionID result = replicate 12 1 \<and> IP_Equal (br_IP result) [10, 0, 0, 7] \<and> br_Port result = nat 4000"
  by (rule binding_exchange)
     (simp_all add: complete_def mirrored_def OpaqueString_def map_spaces_ascii)

end
