(* ===== verification/Stun_Agent.thy ===== *)
theory Stun_Agent
  imports Stun_Binding
begin

text \<open>
  The binding agent (\<^verbatim>\<open>binding_agent.go\<close>): one STUN endpoint of an ICE check that answers
  Binding requests and matches responses with its own requests. The calls that wait for a
  response are split where they wait; \<open>agent_step\<close> interleaves them with incoming messages and
  timeouts in any order.
\<close>

section \<open>State\<close>

text \<open>
  \<open>rc_done\<close> says that the context of a request is done. \<open>ba_conn\<close> is the remote address of the
  connection when there is one. \<open>ba_sigNominated\<close> is the channel of a waiting call when there is
  one, \<open>True\<close> when it is closed. \<open>ba_alive\<close> says that the channel \<^verbatim>\<open>alive\<close> is closed, and
  \<open>ba_sent\<close> is what was written to the connection.
\<close>

record requestContext =
  rc_done :: bool
  rc_result :: "BindingResult option"
  rc_err :: "string option"

record BindingAgent =
  ba_conn :: "NetAddr option"
  ba_config :: "BindingAgentConfig option"
  ba_started :: bool
  ba_nominated :: bool
  ba_sigNominated :: "bool option"
  ba_requests :: "bytes \<rightharpoonup> requestContext"
  ba_alive :: bool
  ba_sent :: "bytes list"

definition cloneBindingOptions :: "BindingOptions option \<Rightarrow> BindingOptions option" where
  "cloneBindingOptions options =
     (case options of None \<Rightarrow> None
      | Some o' \<Rightarrow> Some (o'\<lparr>bo_Auth := map_option (\<lambda>a. a) (bo_Auth o'), bo_Ice := map_option (\<lambda>i. i) (bo_Ice o')\<rparr>))"

definition normalizeBindingAgentConfig :: "BindingAgentConfig option \<Rightarrow> BindingAgentConfig" where
  "normalizeBindingAgentConfig config =
     (case config of
        None \<Rightarrow> \<lparr>bc_RequestOptions = Some fpOptions, bc_HandleOptions = Some fpOptions\<rparr>
      | Some c \<Rightarrow>
          \<lparr>bc_RequestOptions = cloneBindingOptions (bc_RequestOptions c),
           bc_HandleOptions = (case cloneBindingOptions (bc_HandleOptions c) of None \<Rightarrow> Some fpOptions | Some o' \<Rightarrow> Some o')\<rparr>)"

definition SetConfig :: "BindingAgent \<Rightarrow> BindingAgentConfig option \<Rightarrow> BindingAgent" where
  "SetConfig b config = b\<lparr>ba_config := Some (normalizeBindingAgentConfig config)\<rparr>"

definition NewBindingAgent :: "BindingAgentConfig option \<Rightarrow> BindingAgent" where
  "NewBindingAgent config =
     SetConfig \<lparr>ba_conn = None, ba_config = None, ba_started = False, ba_nominated = False, ba_sigNominated = None,
       ba_requests = Map.empty, ba_alive = False, ba_sent = []\<rparr> config"

definition Agent_Clone :: "BindingAgent option \<Rightarrow> BindingAgent option" where
  "Agent_Clone b =
     (case b of None \<Rightarrow> None
      | Some x \<Rightarrow> Some \<lparr>ba_conn = None, ba_config = ba_config x, ba_started = False, ba_nominated = False,
          ba_sigNominated = None, ba_requests = Map.empty, ba_alive = False, ba_sent = []\<rparr>)"

definition setAlive :: "BindingAgent \<Rightarrow> BindingAgent" where
  "setAlive b = b\<lparr>ba_alive := True\<rparr>"

definition configOrDefault :: "BindingAgent \<Rightarrow> BindingAgent \<times> BindingAgentConfig" where
  "configOrDefault b =
     (case ba_config b of
        None \<Rightarrow> (let c = normalizeBindingAgentConfig None in (b\<lparr>ba_config := Some c\<rparr>, c))
      | Some c \<Rightarrow> (b, c))"

text \<open>Starting and stopping the receiving goroutine; the flag says whether the call did it.\<close>

definition Agent_Receive :: "BindingAgent \<Rightarrow> NetAddr option \<Rightarrow> BindingAgent \<times> bool" where
  "Agent_Receive b conn =
     (if conn = None then (b, False)
      else if ba_started b then (b, False)
      else (b\<lparr>ba_started := True, ba_conn := conn\<rparr>, True))"

definition StopReceive :: "BindingAgent \<Rightarrow> BindingAgent \<times> bool" where
  "StopReceive b = (if \<not> ba_started b then (b, False) else (b\<lparr>ba_started := False\<rparr>, True))"

section \<open>Requests and responses\<close>

text \<open>\<open>wr\<close> is the answer of the connection to a write; a write without a connection panics.\<close>

definition write_message :: "unit result \<Rightarrow> BindingAgent \<Rightarrow> Message \<Rightarrow> BindingAgent \<times> unit result" where
  "write_message wr b msg =
     (case Msg_WriteTo msg of
        Inl e \<Rightarrow> (b, Inl e)
      | Inr (_, wire) \<Rightarrow>
          if ba_conn b = None then (b, Inl Panic)
          else (case wr of Inl e \<Rightarrow> (b, Inl e) | Inr _ \<Rightarrow> (b\<lparr>ba_sent := ba_sent b @ [wire]\<rparr>, Inr ())))"

definition nominate :: "BindingAgent \<Rightarrow> BindingAgent \<times> unit result" where
  "nominate b =
     (let b1 = b\<lparr>ba_nominated := True\<rparr>
      in case ba_sigNominated b1 of
           None \<Rightarrow> (b1, Inr ())
         | Some closed \<Rightarrow> if closed then (b1, Inl Panic) else (b1\<lparr>ba_sigNominated := Some True\<rparr>, Inr ()))"

definition HandleRequest :: "(bytes \<Rightarrow> bytes) \<Rightarrow> unit result \<Rightarrow> BindingAgent \<Rightarrow> Message \<Rightarrow> BindingAgent \<times> unit result" where
  "HandleRequest nfc wr b request =
     (case ba_conn b of
        None \<Rightarrow> (b, Inl (Err ''binding connection is not set''))
      | Some remote \<Rightarrow>
          let (b1, c) = configOrDefault b
          in case ProcessBindingRequest nfc (Some request) remote (bc_HandleOptions c) (bc_RequestOptions c) of
               Inl e \<Rightarrow> (b1, Inl e)
             | Inr response \<Rightarrow>
                 (case write_message wr b1 response of
                    (b2, Inl e) \<Rightarrow> (b2, wrap ''failed to send STUN response'' (Inl e))
                  | (b2, Inr _) \<Rightarrow>
                      (case bc_HandleOptions c of
                         None \<Rightarrow> (b2, Inl Panic)
                       | Some ho \<Rightarrow>
                           (case bo_Ice ho of
                              None \<Rightarrow> (b2, Inr ())
                            | Some ice \<Rightarrow>
                                if ic_IceControlled ice = 0 then (b2, Inr ())
                                else if FindAttribute (msg_Attributes request) AttrICEUseCandidate \<noteq> None
                                then nominate b2 else (b2, Inr ())))))"

definition HandleResponse :: "(bytes \<Rightarrow> bytes) \<Rightarrow> BindingAgent \<Rightarrow> Message \<Rightarrow> bytes \<Rightarrow> BindingResult result" where
  "HandleResponse nfc b response txID =
     ProcessBindingResponse nfc (Some response) txID (bc_HandleOptions (snd (configOrDefault b)))"

text \<open>One message in the loop \<^verbatim>\<open>receive\<close>; a panic in a handler ends the program.\<close>

definition receive_message :: "(bytes \<Rightarrow> bytes) \<Rightarrow> unit result \<Rightarrow> BindingAgent \<Rightarrow> Message \<Rightarrow> BindingAgent result" where
  "receive_message nfc wr b message =
     (let t = hd_Type (msg_Header message); tx = hd_TransactionID (msg_Header message)
      in if ValidateMethodAndClass t MethodBinding [ClassRequest] = Inr ()
         then (case HandleRequest nfc wr b message of
                 (b1, Inl Panic) \<Rightarrow> Inl Panic
               | (b1, _) \<Rightarrow> Inr (setAlive b1))
         else if ValidateMethodAndClass t MethodBinding [ClassSuccessResponse, ClassErrorResponse] = Inr ()
         then (case ba_requests b tx of
                 None \<Rightarrow> Inr (setAlive b)
               | Some rc \<Rightarrow>
                   if rc_done rc then Inr (setAlive b)
                   else let b1 = fst (configOrDefault b)
                        in case HandleResponse nfc b message tx of
                             Inl Panic \<Rightarrow> Inl Panic
                           | Inl (Err e) \<Rightarrow> Inr (setAlive (b1\<lparr>ba_requests := (ba_requests b1)(tx \<mapsto>
                               rc\<lparr>rc_result := None, rc_err := Some e, rc_done := True\<rparr>)\<rparr>))
                           | Inr r \<Rightarrow> Inr (setAlive (b1\<lparr>ba_requests := (ba_requests b1)(tx \<mapsto>
                               rc\<lparr>rc_result := Some r, rc_err := None, rc_done := True\<rparr>)\<rparr>)))
         else Inr (setAlive b))"

section \<open>Receiving from a connection\<close>

definition ErrParseMessage :: go_error where
  "ErrParseMessage = Err ''failed to parse STUN message''"

definition parse_received :: "bytes \<Rightarrow> bytes \<Rightarrow> Message result" where
  "parse_received data spare =
     (case DecodeMessage data spare of Inl (Err e) \<Rightarrow> Inl ErrParseMessage | r \<Rightarrow> r)"

text \<open>A datagram of a UDP connection, cut to the 1024 bytes of the buffer.\<close>

definition receive_udp :: "bytes \<Rightarrow> Message result" where
  "receive_udp datagram =
     (let n = min 1024 (length datagram) in parse_received (take n datagram) (replicate (1024 - n) 0))"

text \<open>
  A message from a byte stream; \<open>stream\<close> is what is still to be read before the end. A message
  that does not fit the buffer is read into a new one, with \<open>slack\<close> bytes behind it.
  \<^verbatim>\<open>20+msgLen\<close> is computed on 16 bits. The rest of the stream is part of the result.
\<close>

definition receive_stream :: "nat \<Rightarrow> bytes \<Rightarrow> Message result \<times> bytes" where
  "receive_stream slack stream =
     (if length stream < 20 then (eof stream, [])
      else let rawMessage = take 20 stream; rest = drop 20 stream; msgLen = get16 rawMessage 2;
               total = unat (20 + msgLen); room = (if unat msgLen > 1004 then 20 + unat msgLen else 1024)
      in if total < 20 then (Inl Panic, rest)
         else if length rest < total - 20 then (eof rest, [])
         else (parse_received (take total stream)
                 (replicate (room - total + (if unat msgLen > 1004 then slack else 0)) 0), drop total stream))"

section \<open>Calls of the application\<close>

text \<open>A call that sends a request either returns or waits for its transaction.\<close>

datatype sending = Returned "BindingResult option result" | Waiting bytes

definition send_request :: "(bytes \<Rightarrow> bytes) \<Rightarrow> bytes result \<Rightarrow> unit result \<Rightarrow> BindingAgent \<Rightarrow> BindingAgent \<times> sending" where
  "send_request nfc rand wr b =
     (let (b1, c) = configOrDefault b
      in case BuildBindingRequest nfc rand (bc_RequestOptions c) of
           Inl e \<Rightarrow> (b1, Returned (Inl e))
         | Inr request \<Rightarrow>
             let tx = hd_TransactionID (msg_Header request);
                 b2 = b1\<lparr>ba_requests := (ba_requests b1)(tx \<mapsto> \<lparr>rc_done = False, rc_result = None, rc_err = None\<rparr>)\<rparr>
             in case write_message wr b2 request of
                  (b3, Inl e) \<Rightarrow> (b3\<lparr>ba_requests := (ba_requests b3)(tx := None)\<rparr>,
                                   Returned (wrap ''failed to send request'' (Inl e)))
                | (b3, Inr _) \<Rightarrow> (b3, Waiting tx))"

definition SendRequest :: "(bytes \<Rightarrow> bytes) \<Rightarrow> bytes result \<Rightarrow> unit result \<Rightarrow> BindingAgent \<Rightarrow> bool \<Rightarrow> BindingAgent \<times> sending" where
  "SendRequest nfc rand wr b waitForResponse =
     (if \<not> ba_started b then (b, Returned (Inl (Err ''binding agent is not started'')))
      else case send_request nfc rand wr b of
             (b1, Waiting tx) \<Rightarrow>
               if \<not> waitForResponse then (b1\<lparr>ba_requests := (ba_requests b1)(tx := None)\<rparr>, Returned (Inr None))
               else (b1, Waiting tx)
           | r \<Rightarrow> r)"

definition Bind :: "(bytes \<Rightarrow> bytes) \<Rightarrow> bytes result \<Rightarrow> unit result \<Rightarrow> BindingAgent \<Rightarrow> BindingAgent \<times> sending" where
  "Bind nfc rand wr b = send_request nfc rand wr b"

text \<open>What a waiting call returns from the context of its request.\<close>

definition outcome :: "requestContext \<Rightarrow> BindingResult option result" where
  "outcome rc =
     (case rc_err rc of
        Some e \<Rightarrow> Inl (Err e)
      | None \<Rightarrow> (case rc_result rc of Some r \<Rightarrow> Inr (Some r) | None \<Rightarrow> Inl (Err ''context canceled'')))"

text \<open>The end of the waiting call, once the context is done; \<open>None\<close> while it is not.\<close>

definition await_request :: "BindingAgent \<Rightarrow> bytes \<Rightarrow> (BindingAgent \<times> BindingResult option result) option" where
  "await_request b tx =
     (case ba_requests b tx of
        None \<Rightarrow> None
      | Some rc \<Rightarrow> if rc_done rc then Some (b\<lparr>ba_requests := (ba_requests b)(tx := None)\<rparr>, outcome rc) else None)"

text \<open>
  \<open>Bind\<close> also waits for any sign of life: then it returns what it has got, or sends again.
\<close>

definition Bind_alive :: "(bytes \<Rightarrow> bytes) \<Rightarrow> bytes result \<Rightarrow> unit result \<Rightarrow> BindingAgent \<Rightarrow> bytes \<Rightarrow> (BindingAgent \<times> sending) option" where
  "Bind_alive nfc rand wr b tx =
     (if \<not> ba_alive b then None
      else case ba_requests b tx of
        None \<Rightarrow> None
      | Some rc \<Rightarrow>
          let b1 = b\<lparr>ba_requests := (ba_requests b)(tx := None)\<rparr>
          in if rc_result rc \<noteq> None \<or> rc_err rc \<noteq> None then Some (b1, Returned (outcome rc))
             else Some (SendRequest nfc rand wr b1 True))"

definition ICENominated :: "BindingAgent \<Rightarrow> bool" where
  "ICENominated b = ba_nominated b"

text \<open>
  Waiting for the nomination: the registration, then the end of the wait. When both channels
  are ready, Go picks one of them.
\<close>

definition ICEWaitNominated :: "BindingAgent \<Rightarrow> BindingAgent \<times> (bool result) option" where
  "ICEWaitNominated b =
     (case ba_config b of
        None \<Rightarrow> (b, Some (Inl Panic))
      | Some c \<Rightarrow>
          (case bc_HandleOptions c of
             None \<Rightarrow> (b, Some (Inl Panic))
           | Some ho \<Rightarrow>
               if (case bo_Ice ho of None \<Rightarrow> True | Some ice \<Rightarrow> ic_IceControlled ice = 0)
               then (b, Some (Inl (Err ''not the controlled agent'')))
               else if ba_sigNominated b \<noteq> None then (b, Some (Inl (Err ''nominated channel already set'')))
               else if ba_nominated b then (b, Some (Inr True))
               else (b\<lparr>ba_sigNominated := Some False\<rparr>, None)))"

definition await_nominated :: "BindingAgent \<Rightarrow> bool \<Rightarrow> bool \<Rightarrow> (BindingAgent \<times> bool result) option" where
  "await_nominated b ctxDone pick =
     (case ba_sigNominated b of
        None \<Rightarrow> None
      | Some closed \<Rightarrow>
          let b1 = b\<lparr>ba_sigNominated := None\<rparr>
          in if closed \<and> (ctxDone \<longrightarrow> pick) then Some (b1, Inr True)
             else if ctxDone then Some (b1, Inl (Err ''context canceled'')) else None)"

definition ICENominateCandidate :: "(bytes \<Rightarrow> bytes) \<Rightarrow> bytes result \<Rightarrow> unit result \<Rightarrow> BindingAgent \<Rightarrow> BindingAgent \<times> sending" where
  "ICENominateCandidate nfc rand wr b =
     (case ba_config b of
        None \<Rightarrow> (b, Returned (Inl Panic))
      | Some c \<Rightarrow>
          (case bc_RequestOptions c of
             None \<Rightarrow> (b, Returned (Inl Panic))
           | Some ro \<Rightarrow>
               (case bo_Ice ro of
                  None \<Rightarrow> (b, Returned (Inl (Err ''not the controlling agent'')))
                | Some ice \<Rightarrow>
                    if ic_IceControlling ice = 0 then (b, Returned (Inl (Err ''not the controlling agent'')))
                    else SendRequest nfc rand wr (b\<lparr>ba_config := Some (c\<lparr>bc_RequestOptions :=
                           Some (ro\<lparr>bo_Ice := Some (ice\<lparr>ic_UseCandidate := True\<rparr>)\<rparr>)\<rparr>)\<rparr>) True)))"

definition ICEPriority :: "BindingAgent \<Rightarrow> u32" where
  "ICEPriority b =
     (case bc_RequestOptions (snd (configOrDefault b)) of
        None \<Rightarrow> 0
      | Some ro \<Rightarrow> (case bo_Ice ro of None \<Rightarrow> 0 | Some ice \<Rightarrow> ic_Priority ice))"

section \<open>Framing on a byte stream\<close>

lemma unat_add20: "unat (20 + w :: u16) = (if unat w < 65516 then 20 + unat w else unat w - 65516)"
proof -
  have "unat (20 + w) = (20 + unat w) mod 65536" by (simp add: unat_word_ariths)
  then show ?thesis using unat16_less [of w] by (simp add: mod_if)
qed

text \<open>A header with a length field of at least 65516 makes the receiver of a byte stream panic
  before it reads anything more, because the end offset of the message wraps around on 16 bits.\<close>

theorem stream_length_overflow:
  assumes "20 \<le> length stream" "65516 \<le> unat (get16 stream 2)"
  shows "receive_stream slack stream = (Inl Panic, drop 20 stream)"
proof -
  have "get16 (take 20 stream) 2 = get16 stream 2"
    using assms by (simp add: get16_def)
  then show ?thesis
    using assms unat16_less [of "get16 stream 2"] by (auto simp: receive_stream_def Let_def unat_add20)
qed

theorem stream_length_overflow_witness:
  "receive_stream 0 ([0, 1, 0xFF, 0xF0] @ replicate 16 0) = (Inl Panic, [])"
  using stream_length_overflow [of "[0, 1, 0xFF, 0xF0] @ replicate 16 0" 0] by (simp add: get16_def be16_def)

text \<open>The bytes of a message that keeps the invariant frame it on a stream.\<close>

lemma receive_stream_message:
  assumes inv: "msg_inv msg" and wf: "list_all attr_wf (msg_Attributes msg)" "attrs_len (msg_Attributes msg) < 65516"
  shows "\<exists>got. receive_stream slack (Buffer_Bytes (msg_Raw msg) @ later) = (Inr got, later) \<and>
    msg_Header got = msg_Header msg \<and> msg_Attributes got = filter known (msg_Attributes msg)"
proof -
  let ?b = "Buffer_Bytes (msg_Raw msg)" let ?h = "msg_Header msg"
  have b: "?b = hbytes ?h @ concat (map encode (msg_Attributes msg))" and tx: "length (hd_TransactionID ?h) = 12"
    and sized: "list_all attr_sized (msg_Attributes msg)"
    using inv by (simp_all add: msg_inv_def)
  have len: "length ?b = 20 + attrs_len (msg_Attributes msg)"
    unfolding b using tx length_concat_encode [OF sized] by simp
  have "take 20 (?b @ later) = hbytes ?h" unfolding b using tx by simp
  then have l: "get16 (take 20 (?b @ later)) 2 = hd_Length ?h"
    by (simp add: hbytes_def be_simps)
  have n: "unat (hd_Length ?h) = attrs_len (msg_Attributes msg)"
    using inv wf(2) by (simp add: msg_inv_def unat_of_nat16)
  have total: "unat (20 + hd_Length ?h) = length ?b"
    using n wf(2) len by (simp add: unat_add20)
  from DecodeMessage_inv [OF inv wf(1)] wf(2) show ?thesis
    unfolding receive_stream_def Let_def l total using len
    by (auto simp: parse_received_def)
qed

fun receive_all :: "nat \<Rightarrow> nat \<Rightarrow> bytes \<Rightarrow> Message list" where
  "receive_all 0 slack stream = []"
| "receive_all (Suc k) slack stream =
     (case receive_stream slack stream of (Inr got, rest) \<Rightarrow> got # receive_all k slack rest | _ \<Rightarrow> [])"



section \<open>Nomination\<close>

lemma configOrDefault_fields:
  "configOrDefault b = (b1, c) \<Longrightarrow> ba_config b1 = Some c \<and> ba_conn b1 = ba_conn b \<and>
     ba_sigNominated b1 = ba_sigNominated b \<and> ba_requests b1 = ba_requests b"
  by (auto simp: configOrDefault_def Let_def split: option.splits)

lemma write_message_fields:
  "write_message wr b msg = (b1, r) \<Longrightarrow> ba_config b1 = ba_config b \<and> ba_conn b1 = ba_conn b \<and>
     ba_sigNominated b1 = ba_sigNominated b \<and> ba_requests b1 = ba_requests b"
  by (auto simp: write_message_def split: sum.splits prod.splits if_splits)

lemma write_message_again:
  "write_message (Inr ()) b msg = (b1, Inr ()) \<Longrightarrow> ba_conn b' = ba_conn b \<Longrightarrow>
   \<exists>b2. write_message (Inr ()) b' msg = (b2, Inr ())"
  by (auto simp: write_message_def split: sum.splits prod.splits if_splits)

text \<open>The path through a request that nominates.\<close>

lemma HandleRequest_nominates:
  assumes h: "HandleRequest nfc (Inr ()) b request = (b1, Inr ())" and sig: "ba_sigNominated b1 \<noteq> ba_sigNominated b"
  obtains remote b0 c response b2 ho ice where
    "ba_conn b = Some remote" "configOrDefault b = (b0, c)"
    "ProcessBindingRequest nfc (Some request) remote (bc_HandleOptions c) (bc_RequestOptions c) = Inr response"
    "write_message (Inr ()) b0 response = (b2, Inr ())" "bc_HandleOptions c = Some ho" "bo_Ice ho = Some ice"
    "ic_IceControlled ice \<noteq> 0" "FindAttribute (msg_Attributes request) AttrICEUseCandidate \<noteq> None"
    "nominate b2 = (b1, Inr ())"
proof -
  obtain remote where r: "ba_conn b = Some remote"
    using h by (cases "ba_conn b") (auto simp: HandleRequest_def)
  obtain b0 c where c: "configOrDefault b = (b0, c)" by fastforce
  obtain response where p: "ProcessBindingRequest nfc (Some request) remote (bc_HandleOptions c) (bc_RequestOptions c) = Inr response"
    using h r c by (auto simp: HandleRequest_def split: sum.splits)
  obtain b2 w where w: "write_message (Inr ()) b0 response = (b2, w)" by fastforce
  have "w = Inr ()"
    using h r c p w by (cases w) (auto simp: HandleRequest_def wrap_Inr_iff)
  moreover have same: "ba_sigNominated b2 = ba_sigNominated b"
    using configOrDefault_fields [OF c] write_message_fields [OF w] by simp
  ultimately show ?thesis
    using that [OF r c p] h r c p w sig
    by (auto simp: HandleRequest_def split: option.splits if_splits)
qed

lemma request_is_not_response:
  "ValidateMethodAndClass t MethodBinding [ClassRequest] = Inr () \<Longrightarrow> HandleRequest nfc wr b message = (b1, Inl Panic) \<Longrightarrow>
   hd_Type (msg_Header message) = t \<Longrightarrow> receive_message nfc wr b message = Inl Panic"
  by (simp add: receive_message_def Let_def)

lemma ProcessBindingRequest_type:
  "ProcessBindingRequest nfc (Some request) remote v opts = Inr response \<Longrightarrow>
   ValidateMethodAndClass (hd_Type (msg_Header request)) MethodBinding [ClassRequest] = Inr ()"
  by (auto simp: ProcessBindingRequest_def rbind_Inr_iff wrap_Inr_iff)

text \<open>A controlled agent that was just nominated while a call waits for the nomination panics when
  the same request arrives again before that call has returned: the channel is closed twice.\<close>

theorem duplicate_nomination_panics:
  assumes "HandleRequest nfc (Inr ()) b request = (b1, Inr ())"
    and "ba_sigNominated b = Some False" "ba_sigNominated b1 = Some True"
  shows "receive_message nfc (Inr ()) b1 request = Inl Panic"
proof -
  have "ba_sigNominated b1 \<noteq> ba_sigNominated b" using assms(2,3) by simp
  then obtain remote b0 c response b2 ho ice where r: "ba_conn b = Some remote" "configOrDefault b = (b0, c)"
    "ProcessBindingRequest nfc (Some request) remote (bc_HandleOptions c) (bc_RequestOptions c) = Inr response"
    "write_message (Inr ()) b0 response = (b2, Inr ())" "bc_HandleOptions c = Some ho" "bo_Ice ho = Some ice"
    "ic_IceControlled ice \<noteq> 0" "FindAttribute (msg_Attributes request) AttrICEUseCandidate \<noteq> None"
    "nominate b2 = (b1, Inr ())"
    by (rule HandleRequest_nominates [OF assms(1)])
  have f: "ba_config b1 = Some c" "ba_conn b1 = Some remote" "ba_conn b0 = Some remote"
    using configOrDefault_fields [OF r(2)] write_message_fields [OF r(4)] r(1,9)
    by (auto simp: nominate_def Let_def split: option.splits if_splits)
  then have c1: "configOrDefault b1 = (b1, c)" by (simp add: configOrDefault_def)
  obtain b3 where b3: "write_message (Inr ()) b1 response = (b3, Inr ())"
    using write_message_again [OF r(4), of b1] f by auto
  have "ba_sigNominated b3 = Some True"
    using write_message_fields [OF b3] assms(3) by simp
  then have "\<exists>b4. nominate b3 = (b4, Inl Panic)"
    by (simp add: nominate_def)
  then have "\<exists>b4. HandleRequest nfc (Inr ()) b1 request = (b4, Inl Panic)"
    using r f c1 b3 by (auto simp: HandleRequest_def)
  then show ?thesis
    using request_is_not_response [OF ProcessBindingRequest_type [OF r(3)]] by auto
qed

text \<open>An agent on the controlled side and a request that nominates, for the witness.\<close>

lemma nomination_example:
  defines "u \<equiv> [98, 58, 97] :: bytes" and "pw \<equiv> [113] :: bytes"
  defines "ice \<equiv> \<lparr>ic_Priority = 1, ic_UseCandidate = False, ic_IceControlling = 0, ic_IceControlled = 5\<rparr>"
  defines "b \<equiv> (NewBindingAgent (Some \<lparr>bc_RequestOptions = Some (user_opts [97, 58, 98] [112] (Some ice)),
      bc_HandleOptions = Some (user_opts u pw (Some ice))\<rparr>))\<lparr>ba_conn := Some (UDPAddr [10, 0, 0, 7] 4000),
      ba_started := True, ba_sigNominated := Some False\<rparr>"
  shows "\<exists>request b1. HandleRequest id (Inr ()) b request = (b1, Inr ()) \<and> ba_sigNominated b = Some False \<and>
    ba_sigNominated b1 = Some True"
proof -
  let ?ctl = "\<lparr>ic_Priority = 1, ic_UseCandidate = True, ic_IceControlling = 5, ic_IceControlled = 0\<rparr>"
  have op: "OpaqueString id u \<noteq> []" "OpaqueString id [97, 58, 98] \<noteq> []"
    by (simp_all add: OpaqueString_def map_spaces_ascii u_def)
  let ?as = "UsernameAttr u # BuildIceAttributes (user_opts u pw (Some ?ctl))"
  have p: "plain ?as" and len: "attrs_len ?as + 32 < 65536"
    using ice_attributes(1,2) [of "user_opts u pw (Some ?ctl)"] plain_Username [of u] SerializeLen_Username [of u]
    by (simp_all add: plain_def u_def)
  from sealed_opens [OF p _ _ len, of "replicate 12 1" pw MsgTypeBindingRequest id] obtain wire where
    "\<And>spare. \<exists>got. DecodeMessage wire spare = Inr got \<and> opens_as id pw MsgTypeBindingRequest (replicate 12 1) ?as got"
    unfolding pw_def by fastforce
  then obtain request where o: "opens_as id pw MsgTypeBindingRequest (replicate 12 1) ?as request" by blast
  have val: "Msg_Validate id request (Some (user_opts u pw (Some ice))) = Inr ()"
    unfolding user_opts_def by (rule Validate_opens [OF o stun_type_ok(1) _ op(1) len]) (simp add: pw_def)
  have t: "hd_Type (msg_Header request) = MsgTypeBindingRequest" "hd_TransactionID (msg_Header request) = replicate 12 1"
    using o by (simp_all add: opens_as_def)
  from response_step [of "[97, 58, 98]" "[112]" id "UDPAddr [10, 0, 0, 7] 4000" "[10, 0, 0, 7]" 4000 request
      "replicate 12 1" "Some (user_opts u pw (Some ice))" "Some ice" None] op(2) t val
  obtain response m1 wire1 where
    resp: "ProcessBindingRequest id (Some request) (UDPAddr [10, 0, 0, 7] 4000) (Some (user_opts u pw (Some ice)))
        (Some (user_opts [97, 58, 98] [112] (Some ice))) = Inr response" "Msg_WriteTo response = Inr (m1, wire1)"
    by auto
  have find: "FindAttribute (msg_Attributes request) AttrICEUseCandidate \<noteq> None"
    using o by (auto simp: opens_as_def BuildIceAttributes_def user_opts_def attr_types)
  have conf: "configOrDefault b = (b, \<lparr>bc_RequestOptions = Some (user_opts [97, 58, 98] [112] (Some ice)),
      bc_HandleOptions = Some (user_opts u pw (Some ice))\<rparr>)"
    by (simp add: b_def configOrDefault_def NewBindingAgent_def SetConfig_def normalizeBindingAgentConfig_def
        cloneBindingOptions_def user_opts_def)
  show ?thesis
    using resp find conf
    by (intro exI [of _ request])
       (simp add: HandleRequest_def write_message_def nominate_def b_def NewBindingAgent_def SetConfig_def
          user_opts_def ice_def)
qed

theorem duplicate_nomination_panics_witness:
  "\<exists>b request b1. HandleRequest id (Inr ()) b request = (b1, Inr ()) \<and> receive_message id (Inr ()) b1 request = Inl Panic"
  using nomination_example duplicate_nomination_panics by blast

section \<open>Every interleaving of calls, messages and timeouts\<close>

record agent_sys =
  as_agent :: BindingAgent
  as_received :: "Message list"
  as_returned :: "(bytes \<times> BindingResult option result) list"

fun note_returned :: "bytes \<Rightarrow> sending \<Rightarrow> (bytes \<times> BindingResult option result) list" where
  "note_returned tx (Returned r) = [(tx, r)]"
| "note_returned tx (Waiting _) = []"

inductive agent_step :: "(bytes \<Rightarrow> bytes) \<Rightarrow> agent_sys \<Rightarrow> agent_sys \<Rightarrow> bool" for nfc where
  send: "SendRequest nfc rand wr (as_agent s) w = (b, r) \<Longrightarrow> agent_step nfc s (s\<lparr>as_agent := b\<rparr>)"
| bind: "Bind nfc rand wr (as_agent s) = (b, r) \<Longrightarrow> agent_step nfc s (s\<lparr>as_agent := b\<rparr>)"
| nominate: "ICENominateCandidate nfc rand wr (as_agent s) = (b, r) \<Longrightarrow> agent_step nfc s (s\<lparr>as_agent := b\<rparr>)"
| receive: "receive_message nfc wr (as_agent s) m = Inr b \<Longrightarrow>
    agent_step nfc s (s\<lparr>as_agent := b, as_received := as_received s @ [m]\<rparr>)"
| timeout: "ba_requests (as_agent s) tx = Some rc \<Longrightarrow>
    agent_step nfc s (s\<lparr>as_agent := (as_agent s)\<lparr>ba_requests := (ba_requests (as_agent s))(tx \<mapsto> rc\<lparr>rc_done := True\<rparr>)\<rparr>\<rparr>)"
| finish: "await_request (as_agent s) tx = Some (b, r) \<Longrightarrow>
    agent_step nfc s (s\<lparr>as_agent := b, as_returned := as_returned s @ [(tx, r)]\<rparr>)"
| alive: "Bind_alive nfc rand wr (as_agent s) tx = Some (b, r) \<Longrightarrow>
    agent_step nfc s (s\<lparr>as_agent := b, as_returned := as_returned s @ note_returned tx r\<rparr>)"
| wait: "ICEWaitNominated (as_agent s) = (b, w) \<Longrightarrow> agent_step nfc s (s\<lparr>as_agent := b\<rparr>)"
| waited: "await_nominated (as_agent s) d p = Some (b, w) \<Longrightarrow> agent_step nfc s (s\<lparr>as_agent := b\<rparr>)"

definition agent_init :: "BindingAgentConfig option \<Rightarrow> NetAddr \<Rightarrow> agent_sys" where
  "agent_init config conn = \<lparr>as_agent = fst (Agent_Receive (NewBindingAgent config) (Some conn)), as_received = [], as_returned = []\<rparr>"

text \<open>
  A result comes from a response with the identifier of the request that was validated against
  the options of the agent; a nomination comes from a validated request.
\<close>

definition genuine_result :: "(bytes \<Rightarrow> bytes) \<Rightarrow> BindingOptions option \<Rightarrow> Message list \<Rightarrow> bytes \<Rightarrow> BindingResult \<Rightarrow> bool" where
  "genuine_result nfc opts ms tx r \<longleftrightarrow>
     (\<exists>m \<in> set ms. ProcessBindingResponse nfc (Some m) tx opts = Inr r \<and> Msg_Validate nfc m opts = Inr () \<and>
        hd_TransactionID (msg_Header m) = tx)"

definition genuine_nomination :: "(bytes \<Rightarrow> bytes) \<Rightarrow> BindingOptions option \<Rightarrow> Message list \<Rightarrow> bool" where
  "genuine_nomination nfc opts ms \<longleftrightarrow>
     (\<exists>m \<in> set ms. Msg_Validate nfc m opts = Inr () \<and> FindAttribute (msg_Attributes m) AttrICEUseCandidate \<noteq> None)"

definition handle_opts :: "BindingAgent \<Rightarrow> BindingOptions option option" where
  "handle_opts b = map_option bc_HandleOptions (ba_config b)"

definition agent_inv :: "(bytes \<Rightarrow> bytes) \<Rightarrow> BindingOptions option \<Rightarrow> agent_sys \<Rightarrow> bool" where
  "agent_inv nfc opts s \<longleftrightarrow>
     handle_opts (as_agent s) = Some opts \<and>
     (\<forall>tx rc r. ba_requests (as_agent s) tx = Some rc \<longrightarrow> rc_result rc = Some r \<longrightarrow>
        genuine_result nfc opts (as_received s) tx r) \<and>
     (\<forall>tx r. (tx, Inr (Some r)) \<in> set (as_returned s) \<longrightarrow> genuine_result nfc opts (as_received s) tx r) \<and>
     (ba_nominated (as_agent s) \<longrightarrow> genuine_nomination nfc opts (as_received s))"

lemma ProcessBindingResponse_genuine:
  assumes "ProcessBindingResponse nfc (Some m) tx opts = Inr r" "m \<in> set ms"
  shows "genuine_result nfc opts ms tx r"
proof -
  have "Msg_Validate nfc m opts = Inr ()" "hd_TransactionID (msg_Header m) = tx"
    using assms(1) by (auto simp: ProcessBindingResponse_def rbind_Inr_iff wrap_Inr_iff split: if_splits)
  with assms show ?thesis by (auto simp: genuine_result_def)
qed

lemma genuine_more:
  "genuine_result nfc opts ms tx r \<Longrightarrow> genuine_result nfc opts (ms @ ms') tx r"
  "genuine_nomination nfc opts ms \<Longrightarrow> genuine_nomination nfc opts (ms @ ms')"
  by (auto simp: genuine_result_def genuine_nomination_def)

text \<open>What the calls that send leave of an agent: no result appears, and no nomination.\<close>

definition quiet :: "BindingAgent \<Rightarrow> BindingAgent \<Rightarrow> bool" where
  "quiet b b' \<longleftrightarrow> (ba_config b \<noteq> None \<longrightarrow> handle_opts b' = handle_opts b) \<and>
     (\<forall>tx rc r. ba_requests b' tx = Some rc \<longrightarrow> rc_result rc = Some r \<longrightarrow>
        (\<exists>rc0. ba_requests b tx = Some rc0 \<and> rc_result rc0 = Some r)) \<and>
     ba_nominated b' = ba_nominated b"

lemma quiet_refl [simp]: "quiet b b"
  by (simp add: quiet_def)

lemma quiet_trans: "quiet b b' \<Longrightarrow> quiet b' b'' \<Longrightarrow> ba_config b' \<noteq> None \<Longrightarrow> quiet b b''"
  unfolding quiet_def by (metis (no_types, lifting))

lemma quiet_config: "configOrDefault b = (b1, c) \<Longrightarrow> quiet b b1 \<and> ba_config b1 = Some c"
  by (auto simp: configOrDefault_def quiet_def handle_opts_def Let_def split: option.splits)

lemma quiet_write: "write_message wr b msg = (b1, r) \<Longrightarrow> quiet b b1 \<and> ba_config b1 = ba_config b"
  by (auto simp: write_message_def quiet_def handle_opts_def split: sum.splits prod.splits if_splits)

lemma quiet_drop: "quiet b (b\<lparr>ba_requests := (ba_requests b)(tx := None)\<rparr>)"
  by (auto simp: quiet_def handle_opts_def split: if_splits)

lemma quiet_fresh: "quiet b (b\<lparr>ba_requests := (ba_requests b)(tx \<mapsto> \<lparr>rc_done = False, rc_result = None, rc_err = None\<rparr>)\<rparr>)"
  by (auto simp: quiet_def handle_opts_def split: if_splits)

lemma quiet_send_request:
  assumes "send_request nfc rand wr b = (b', r)"
  shows "quiet b b'" "ba_config b' \<noteq> None"
proof -
  obtain b1 c where c: "configOrDefault b = (b1, c)" by fastforce
  note q1 = quiet_config [OF c]
  have "quiet b b' \<and> ba_config b' \<noteq> None"
  proof (cases "BuildBindingRequest nfc rand (bc_RequestOptions c)")
    case (Inl e)
    with assms c q1 show ?thesis by (auto simp: send_request_def)
  next
    case (Inr request)
    let ?tx = "hd_TransactionID (msg_Header request)"
    let ?b2 = "b1\<lparr>ba_requests := (ba_requests b1)(?tx \<mapsto> \<lparr>rc_done = False, rc_result = None, rc_err = None\<rparr>)\<rparr>"
    obtain b3 w where w: "write_message wr ?b2 request = (b3, w)" by fastforce
    have conf: "ba_config b3 \<noteq> None" using quiet_write [OF w] q1 by simp
    have "quiet b ?b2" by (rule quiet_trans [OF conjunct1 [OF q1] quiet_fresh]) (use q1 in simp)
    then have "quiet b b3" by (rule quiet_trans [OF _ conjunct1 [OF quiet_write [OF w]]]) (use q1 in simp)
    moreover from this have "quiet b (b3\<lparr>ba_requests := (ba_requests b3)(?tx := None)\<rparr>)"
      by (rule quiet_trans [OF _ quiet_drop conf])
    ultimately show ?thesis
      using assms c Inr w conf by (auto simp: send_request_def Let_def split: sum.splits)
  qed
  then show "quiet b b'" "ba_config b' \<noteq> None" by simp_all
qed

lemma quiet_SendRequest: "SendRequest nfc rand wr b w = (b', r) \<Longrightarrow> quiet b b'"
  using quiet_send_request [of nfc rand wr b] quiet_trans [OF _ quiet_drop]
  by (auto simp: SendRequest_def split: if_splits prod.splits sending.splits)

lemma quiet_use_candidate:
  "ba_config b = Some c \<Longrightarrow> quiet b (b\<lparr>ba_config := Some (c\<lparr>bc_RequestOptions := ro\<rparr>)\<rparr>)"
  by (simp add: quiet_def handle_opts_def)

lemma quiet_nominate:
  assumes "ICENominateCandidate nfc rand wr b = (b', r)"
  shows "quiet b b'"
proof -
  consider "b' = b" | c ro where "ba_config b = Some c"
    "SendRequest nfc rand wr (b\<lparr>ba_config := Some (c\<lparr>bc_RequestOptions := ro\<rparr>)\<rparr>) True = (b', r)"
    using assms by (auto simp: ICENominateCandidate_def split: option.splits if_splits)
  then show ?thesis
  proof cases
    case 2
    from quiet_trans [OF quiet_use_candidate [OF 2(1)] quiet_SendRequest [OF 2(2)]] show ?thesis by simp
  qed simp
qed

lemma agent_inv_quiet:
  assumes "agent_inv nfc opts s" "quiet (as_agent s) b"
  shows "agent_inv nfc opts (s\<lparr>as_agent := b\<rparr>)"
proof -
  have "ba_config (as_agent s) \<noteq> None" using assms(1) by (auto simp: agent_inv_def handle_opts_def)
  then show ?thesis
    using assms unfolding agent_inv_def quiet_def by (simp; metis)
qed

text \<open>A request that an agent handled nominates it only when it was valid.\<close>

lemma HandleRequest_effect:
  assumes "HandleRequest nfc wr b m = (b', r)" "handle_opts b = Some opts"
  shows "handle_opts b' = Some opts" "ba_requests b' = ba_requests b"
    "ba_nominated b' \<Longrightarrow> ba_nominated b \<or> genuine_nomination nfc opts [m]"
proof -
  obtain c where c: "ba_config b = Some c" "bc_HandleOptions c = opts"
    using assms(2) by (auto simp: handle_opts_def)
  then have "configOrDefault b = (b, c)" by (simp add: configOrDefault_def)
  moreover have "ProcessBindingRequest nfc (Some m) remote opts ro = Inr response \<Longrightarrow> Msg_Validate nfc m opts = Inr ()" for remote ro response
    by (auto simp: ProcessBindingRequest_def rbind_Inr_iff wrap_Inr_iff)
  ultimately show "handle_opts b' = Some opts" "ba_requests b' = ba_requests b"
    "ba_nominated b' \<Longrightarrow> ba_nominated b \<or> genuine_nomination nfc opts [m]"
    using assms(1) c
    by (auto simp: HandleRequest_def write_message_def nominate_def handle_opts_def genuine_nomination_def Let_def
        split: option.splits sum.splits prod.splits if_splits)
qed

text \<open>One received message: a request, a response to a pending request, or anything else.\<close>

lemma agent_inv_receive:
  assumes inv: "agent_inv nfc opts s" and r: "receive_message nfc wr (as_agent s) m = Inr b"
  shows "agent_inv nfc opts (s\<lparr>as_agent := b, as_received := as_received s @ [m]\<rparr>)"
proof -
  let ?b = "as_agent s" let ?tx = "hd_TransactionID (msg_Header m)"
  have ho: "handle_opts ?b = Some opts" using inv by (simp add: agent_inv_def)
  then have conf: "fst (configOrDefault ?b) = ?b" "bc_HandleOptions (snd (configOrDefault ?b)) = opts"
    by (auto simp: configOrDefault_def handle_opts_def)
  consider (request) b1 x where "HandleRequest nfc wr ?b m = (b1, x)" "b = setAlive b1"
    | (failed) rc e where "b = setAlive (?b\<lparr>ba_requests := (ba_requests ?b)(?tx \<mapsto>
          rc\<lparr>rc_result := None, rc_err := Some e, rc_done := True\<rparr>)\<rparr>)"
    | (result) rc v where "ProcessBindingResponse nfc (Some m) ?tx opts = Inr v"
        "b = setAlive (?b\<lparr>ba_requests := (ba_requests ?b)(?tx \<mapsto>
          rc\<lparr>rc_result := Some v, rc_err := None, rc_done := True\<rparr>)\<rparr>)"
    | (none) "b = setAlive ?b"
    using r conf unfolding receive_message_def HandleResponse_def Let_def
    by (auto split: if_splits prod.splits sum.splits go_error.splits option.splits)
  then show ?thesis
  proof cases
    case request
    with HandleRequest_effect [OF request(1) ho] inv show ?thesis
      by (auto simp: agent_inv_def setAlive_def handle_opts_def genuine_more)
         (auto simp: genuine_nomination_def)
  next
    case failed
    with inv show ?thesis
      by (auto simp: agent_inv_def setAlive_def handle_opts_def genuine_more split: if_splits)
  next
    case result
    with inv ProcessBindingResponse_genuine [OF result(1), of "as_received s @ [m]"] show ?thesis
      by (auto simp: agent_inv_def setAlive_def handle_opts_def genuine_more split: if_splits)
  next
    case none
    with inv show ?thesis by (auto simp: agent_inv_def setAlive_def handle_opts_def genuine_more)
  qed
qed

lemma outcome_result: "outcome rc = Inr (Some r) \<Longrightarrow> rc_result rc = Some r"
  by (auto simp: outcome_def split: option.splits)

lemma agent_inv_returned:
  assumes "agent_inv nfc opts s" "ba_requests (as_agent s) tx = Some rc"
  shows "agent_inv nfc opts (s\<lparr>as_returned := as_returned s @ [(tx, outcome rc)]\<rparr>)"
  using assms by (auto simp: agent_inv_def dest: outcome_result [OF sym])

lemma agent_inv_return:
  assumes "agent_inv nfc opts s" "ba_requests (as_agent s) tx = Some rc" "quiet (as_agent s) b"
  shows "agent_inv nfc opts (s\<lparr>as_agent := b, as_returned := as_returned s @ [(tx, outcome rc)]\<rparr>)"
  using agent_inv_quiet [OF agent_inv_returned [OF assms(1,2)], of b] assms(3) by (simp add: agent_inv_def)

lemma agent_inv_step:
  assumes "agent_step nfc s s'" "agent_inv nfc opts s"
  shows "agent_inv nfc opts s'"
  using assms
proof cases
  case (send rand wr w b r)
  then show ?thesis using agent_inv_quiet [OF assms(2) quiet_SendRequest] by blast
next
  case (bind rand wr b r)
  then show ?thesis using agent_inv_quiet [OF assms(2)] quiet_send_request(1) by (auto simp: Bind_def)
next
  case (nominate rand wr b r)
  then show ?thesis using agent_inv_quiet [OF assms(2) quiet_nominate] by blast
next
  case (receive wr m b)
  then show ?thesis using agent_inv_receive [OF assms(2)] by blast
next
  case (timeout tx rc)
  then show ?thesis using assms(2) by (auto simp: agent_inv_def handle_opts_def split: if_splits)
next
  case (finish tx b r)
  then obtain rc where rc: "ba_requests (as_agent s) tx = Some rc" "r = outcome rc"
    "b = (as_agent s)\<lparr>ba_requests := (ba_requests (as_agent s))(tx := None)\<rparr>"
    by (auto simp: await_request_def split: option.splits if_splits)
  from agent_inv_return [OF assms(2) rc(1) quiet_drop [of _ tx]] finish(1) rc show ?thesis by simp
next
  case (alive rand wr tx b r)
  let ?b1 = "(as_agent s)\<lparr>ba_requests := (ba_requests (as_agent s))(tx := None)\<rparr>"
  obtain rc where rc: "ba_requests (as_agent s) tx = Some rc"
    "(b, r) = (?b1, Returned (outcome rc)) \<or> SendRequest nfc rand wr ?b1 True = (b, r)"
    using alive(2) by (auto simp: Bind_alive_def Let_def split: option.splits if_splits)
  have conf: "ba_config ?b1 \<noteq> None" using assms(2) by (auto simp: agent_inv_def handle_opts_def)
  from rc(2) show ?thesis
  proof
    assume "(b, r) = (?b1, Returned (outcome rc))"
    then show ?thesis
      using agent_inv_return [OF assms(2) rc(1) quiet_drop [of _ tx]] alive(1) by simp
  next
    assume sr: "SendRequest nfc rand wr ?b1 True = (b, r)"
    have q: "quiet (as_agent s) b"
      by (rule quiet_trans [OF quiet_drop quiet_SendRequest [OF sr] conf])
    have "\<nexists>v. r = Returned (Inr (Some v))"
      using sr by (auto simp: SendRequest_def send_request_def Let_def wrap_Inr_iff
          split: if_splits prod.splits sending.splits sum.splits)
    then have "(tx', Inr (Some v)) \<notin> set (note_returned tx r)" for tx' v
      by (cases r) auto
    with agent_inv_quiet [OF assms(2) q] alive(1) show ?thesis by (simp add: agent_inv_def)
  qed
next
  case (wait b w)
  then have "quiet (as_agent s) b"
    by (auto simp: ICEWaitNominated_def quiet_def handle_opts_def split: option.splits if_splits)
  then show ?thesis using agent_inv_quiet [OF assms(2)] wait by blast
next
  case (waited d p b w)
  then have "quiet (as_agent s) b"
    by (auto simp: await_nominated_def quiet_def handle_opts_def Let_def split: option.splits if_splits)
  then show ?thesis using agent_inv_quiet [OF assms(2)] waited by blast
qed

lemma agent_inv_init: "agent_inv nfc (bc_HandleOptions (normalizeBindingAgentConfig config)) (agent_init config conn)"
  by (simp add: agent_inv_def agent_init_def Agent_Receive_def NewBindingAgent_def SetConfig_def handle_opts_def)

text \<open>C7. Whatever arrives and in whatever order calls, messages and timeouts interleave, a result that
  an application gets for a transaction comes from a received response with its identifier that
  passed validation against the agent's options, and an agent is nominated only when it
  received a valid request with USE-CANDIDATE.\<close>

theorem agent_results_genuine:
  assumes "(agent_step nfc)\<^sup>*\<^sup>* (agent_init config conn) s"
  shows "((tx, Inr (Some r)) \<in> set (as_returned s) \<longrightarrow>
      genuine_result nfc (bc_HandleOptions (normalizeBindingAgentConfig config)) (as_received s) tx r) \<and>
    (ICENominated (as_agent s) \<longrightarrow>
      genuine_nomination nfc (bc_HandleOptions (normalizeBindingAgentConfig config)) (as_received s))"
proof -
  have "agent_inv nfc (bc_HandleOptions (normalizeBindingAgentConfig config)) s"
    using assms by (induction rule: rtranclp_induct) (simp_all add: agent_inv_init agent_inv_step)
  then show ?thesis by (simp add: agent_inv_def ICENominated_def)
qed

lemma receive_nomination:
  assumes "HandleRequest nfc (Inr ()) b request = (b1, Inr ())" "ba_sigNominated b1 \<noteq> ba_sigNominated b"
  shows "receive_message nfc (Inr ()) b request = Inr (setAlive b1)" "ba_nominated b1"
proof -
  obtain remote b0 c response b2 ho ice where r: "ba_conn b = Some remote" "configOrDefault b = (b0, c)"
    "ProcessBindingRequest nfc (Some request) remote (bc_HandleOptions c) (bc_RequestOptions c) = Inr response"
    "write_message (Inr ()) b0 response = (b2, Inr ())" "bc_HandleOptions c = Some ho" "bo_Ice ho = Some ice"
    "ic_IceControlled ice \<noteq> 0" "FindAttribute (msg_Attributes request) AttrICEUseCandidate \<noteq> None"
    "nominate b2 = (b1, Inr ())"
    by (rule HandleRequest_nominates [OF assms])
  show "receive_message nfc (Inr ()) b request = Inr (setAlive b1)"
    using ProcessBindingRequest_type [OF r(3)] assms(1) by (simp add: receive_message_def Let_def)
  show "ba_nominated b1"
    using r(9) by (auto simp: nominate_def Let_def split: option.splits if_splits)
qed

theorem agent_results_genuine_witness:
  "\<exists>config conn s. (agent_step id)\<^sup>*\<^sup>* (agent_init config conn) s \<and> ICENominated (as_agent s) \<and>
     genuine_nomination id (bc_HandleOptions (normalizeBindingAgentConfig config)) (as_received s)"
proof -
  let ?ice = "\<lparr>ic_Priority = 1, ic_UseCandidate = False, ic_IceControlling = 0, ic_IceControlled = 5\<rparr> :: IceConfig"
  let ?config = "Some \<lparr>bc_RequestOptions = Some (user_opts [97, 58, 98] [112] (Some ?ice)),
      bc_HandleOptions = Some (user_opts [98, 58, 97] [113] (Some ?ice))\<rparr>"
  let ?conn = "UDPAddr [10, 0, 0, 7] 4000" let ?s = "agent_init ?config ?conn"
  let ?b = "(NewBindingAgent ?config)\<lparr>ba_conn := Some ?conn, ba_started := True, ba_sigNominated := Some False\<rparr>"
  have "as_agent ?s = (NewBindingAgent ?config)\<lparr>ba_conn := Some ?conn, ba_started := True\<rparr>"
    by (simp add: agent_init_def Agent_Receive_def NewBindingAgent_def SetConfig_def)
  then have "ICEWaitNominated (as_agent ?s) = (?b, None)"
    by (simp add: ICEWaitNominated_def NewBindingAgent_def SetConfig_def normalizeBindingAgentConfig_def
        cloneBindingOptions_def user_opts_def)
  then have 1: "agent_step id ?s (?s\<lparr>as_agent := ?b\<rparr>)" by (rule agent_step.wait)
  obtain request b1 where req: "HandleRequest id (Inr ()) ?b request = (b1, Inr ())" "ba_sigNominated b1 = Some True"
    using nomination_example by blast
  have "ba_sigNominated b1 \<noteq> ba_sigNominated ?b" using req(2) by simp
  note rn = receive_nomination [OF req(1) this]
  have 2: "agent_step id (?s\<lparr>as_agent := ?b\<rparr>)
      (?s\<lparr>as_agent := setAlive b1, as_received := as_received ?s @ [request]\<rparr>)"
    using agent_step.receive [of id "Inr ()" "?s\<lparr>as_agent := ?b\<rparr>" request] rn(1) by simp
  from 1 2 have "(agent_step id)\<^sup>*\<^sup>* ?s (?s\<lparr>as_agent := setAlive b1, as_received := as_received ?s @ [request]\<rparr>)"
    by (meson rtranclp.rtrancl_into_rtrancl rtranclp.rtrancl_refl)
  moreover have "ICENominated (as_agent (?s\<lparr>as_agent := setAlive b1, as_received := as_received ?s @ [request]\<rparr>))"
    using rn(2) by (simp add: ICENominated_def setAlive_def)
  ultimately show ?thesis
    using agent_results_genuine by blast
qed

end
