(* ===== verification/Stun_Server.thy ===== *)
theory Stun_Server
  imports Stun_Binding
begin

text \<open>
  The STUN server (\<^verbatim>\<open>server.go\<close>): what a worker answers to a datagram, the bounded queue in
  front of the workers and the life of the worker pool; and the client's queries over UDP and
  TCP (\<^verbatim>\<open>client.go\<close>, \<^verbatim>\<open>query_udp.go\<close>, \<^verbatim>\<open>query_tcp.go\<close>). The network is an argument: what the
  other side makes of the bytes sent.
\<close>

section \<open>The server\<close>

record serverWorkerPoolItem =
  wi_DataBuf :: bytes
  wi_DataLen :: nat
  wi_RemoteAddr :: NetAddr

definition serverOptions :: BindingOptions where
  "serverOptions = \<lparr>bo_Auth = None, bo_Ice = None, bo_RequireFingerprint = True\<rparr>"

text \<open>\<open>mem\<close> is the buffer from the pool; the result is what is handed to the write function.\<close>

definition processWorkItem :: "(bytes \<Rightarrow> bytes) \<Rightarrow> bytes \<Rightarrow> serverWorkerPoolItem \<Rightarrow> bytes result" where
  "processWorkItem nfc mem item =
     rbind (slice (wi_DataBuf item) 0 (wi_DataLen item)) (\<lambda>data.
     rbind (DecodeMessage data (drop (wi_DataLen item) (wi_DataBuf item))) (\<lambda>message.
     rbind (ProcessBindingRequest nfc (Some message) (wi_RemoteAddr item) None (Some serverOptions)) (\<lambda>response.
     rbind (Msg_SerializeTo response (Buffer_Reset (NewBuffer mem (length mem)))) (\<lambda>(_, raw).
       Inr (Buffer_Bytes raw)))))"

text \<open>
  What the listeners make of a datagram and of the bytes of a new connection: the work item that
  they submit, or why there is none. \<open>readBuffer\<close> comes from the pool; \<^verbatim>\<open>20+msgLen\<close> is
  computed on 16 bits.
\<close>

definition stunListenUDP :: "bytes \<Rightarrow> bytes \<Rightarrow> NetAddr \<Rightarrow> serverWorkerPoolItem" where
  "stunListenUDP readBuffer datagram addr =
     (let n = min (length readBuffer) (length datagram)
      in \<lparr>wi_DataBuf = splice readBuffer 0 (take n datagram), wi_DataLen = n, wi_RemoteAddr = addr\<rparr>)"

definition stunListenTCP :: "bytes \<Rightarrow> bytes \<Rightarrow> NetAddr \<Rightarrow> serverWorkerPoolItem result" where
  "stunListenTCP readBuffer stream addr =
     (if length readBuffer < 20 then Inl Panic
      else if length stream < 20 then eof stream
      else let msgLen = get16 stream 2; n = unat (20 + msgLen)
      in if of_nat (length readBuffer - 20) < msgLen then Inl (Err ''Message too long'')
         else if n < 20 \<or> length readBuffer < n then Inl Panic
         else if length stream < n then eof (drop 20 stream)
         else Inr \<lparr>wi_DataBuf = splice readBuffer 0 (take n stream), wi_DataLen = n, wi_RemoteAddr = addr\<rparr>)"

text \<open>
  The worker pool. \<open>wp_parentDone\<close> is the context given to the server, \<open>wp_derivedDone\<close> the one
  that \<^verbatim>\<open>Start\<close> derives from it and whose cancel function \<^verbatim>\<open>Stop\<close> calls.
\<close>

record serverWorkerPool =
  wp_numWorkers :: nat
  wp_queue :: "serverWorkerPoolItem list"
  wp_running :: nat
  wp_parentDone :: bool
  wp_derivedDone :: bool

definition newServerWorkerPool :: "nat \<Rightarrow> int \<Rightarrow> serverWorkerPool" where
  "newServerWorkerPool numCPU numWorkers =
     \<lparr>wp_numWorkers = (if numWorkers \<le> 0 then numCPU else nat numWorkers), wp_queue = [], wp_running = 0,
      wp_parentDone = False, wp_derivedDone = False\<rparr>"

definition Pool_Start :: "serverWorkerPool \<Rightarrow> serverWorkerPool" where
  "Pool_Start wp = wp\<lparr>wp_running := wp_running wp + wp_numWorkers wp, wp_derivedDone := wp_parentDone wp\<rparr>"

text \<open>A full channel drops the item; its capacity is twice the number of workers.\<close>

definition Submit :: "serverWorkerPool \<Rightarrow> serverWorkerPoolItem \<Rightarrow> serverWorkerPool" where
  "Submit wp item =
     (if length (wp_queue wp) < wp_numWorkers wp * 2 then wp\<lparr>wp_queue := wp_queue wp @ [item]\<rparr> else wp)"

text \<open>\<open>Stop\<close> cancels and then waits; \<open>Stop_returns\<close> says whether the wait is over.\<close>

definition Pool_Stop :: "serverWorkerPool \<Rightarrow> serverWorkerPool" where
  "Pool_Stop wp = wp\<lparr>wp_derivedDone := True\<rparr>"

definition Stop_returns :: "serverWorkerPool \<Rightarrow> bool" where
  "Stop_returns wp \<longleftrightarrow> wp_running wp = 0"

text \<open>
  What the goroutines do: a listener submits, a worker takes an item or sees that its context,
  the one given to \<^verbatim>\<open>Start\<close>, is done and ends.
\<close>

inductive pool_step :: "serverWorkerPool \<Rightarrow> serverWorkerPool \<Rightarrow> bool" where
  submit: "pool_step wp (Submit wp item)"
| work: "0 < wp_running wp \<Longrightarrow> wp_queue wp = item # items \<Longrightarrow> pool_step wp (wp\<lparr>wp_queue := items\<rparr>)"
| worker_done: "0 < wp_running wp \<Longrightarrow> wp_parentDone wp \<Longrightarrow> pool_step wp (wp\<lparr>wp_running := wp_running wp - 1\<rparr>)"
| stop: "pool_step wp (Pool_Stop wp)"
| cancel_parent: "pool_step wp (wp\<lparr>wp_parentDone := True, wp_derivedDone := True\<rparr>)"

section \<open>The client\<close>

text \<open>Times are nanoseconds; the zero time is \<open>None\<close>.\<close>

definition stunTimeout :: int where "stunTimeout = 3 * 1000000000"

definition minNonzeroTime :: "int option \<Rightarrow> int option \<Rightarrow> int option" where
  "minNonzeroTime a b =
     (case a of None \<Rightarrow> b
      | Some x \<Rightarrow> (case b of None \<Rightarrow> a | Some y \<Rightarrow> if x < y then a else b))"

record Client =
  cl_Timeout :: int
  cl_Servers :: "string list"
  cl_BindingOptions :: BindingOptions

definition deadline :: "Client \<Rightarrow> int option \<Rightarrow> int \<Rightarrow> int" where
  "deadline c ctxDeadline now =
     (let earliest = (if cl_Timeout c \<noteq> 0 then Some (now + cl_Timeout c) else None);
          earliest' = (case ctxDeadline of Some d \<Rightarrow> minNonzeroTime earliest (Some d) | None \<Rightarrow> earliest)
      in case earliest' of None \<Rightarrow> now + stunTimeout | Some t \<Rightarrow> t)"

definition AddServer :: "Client \<Rightarrow> string \<Rightarrow> Client" where
  "AddServer c serverAddr = c\<lparr>cl_Servers := cl_Servers c @ [serverAddr]\<rparr>"

definition WithReceiveTimeout :: "Client \<Rightarrow> int \<Rightarrow> Client" where
  "WithReceiveTimeout c t = c\<lparr>cl_Timeout := t\<rparr>"

text \<open>The first server that resolves; \<open>resolve\<close> is Go's resolver for the network of the address.\<close>

fun resolveServerAddr :: "(string \<Rightarrow> NetAddr result) \<Rightarrow> string list \<Rightarrow> NetAddr \<Rightarrow> NetAddr result" where
  "resolveServerAddr resolve [] localAddr = Inl (Err ''no suitable server found for local address'')"
| "resolveServerAddr resolve (server # servers) localAddr =
     (case localAddr of
        UDPAddr _ _ \<Rightarrow> (case resolve server of Inl (Err e) \<Rightarrow> resolveServerAddr resolve servers localAddr | r \<Rightarrow> r)
      | TCPAddr _ _ \<Rightarrow> (case resolve server of Inl (Err e) \<Rightarrow> resolveServerAddr resolve servers localAddr | r \<Rightarrow> r)
      | _ \<Rightarrow> resolveServerAddr resolve servers localAddr)"

text \<open>What the network answers to a request.\<close>

datatype reply = WriteFailed string | TimedOut | ReadFailed string | Got bytes

definition sendStunRequestUDP :: "(bytes \<Rightarrow> reply) \<Rightarrow> Message \<Rightarrow> Message result" where
  "sendStunRequestUDP net request =
     rbind (wrap ''failed to send STUN request over UDP'' (Msg_WriteTo request)) (\<lambda>(_, wire).
       case net wire of
         WriteFailed e \<Rightarrow> wrap ''failed to send STUN request over UDP'' (Inl (Err e))
       | TimedOut \<Rightarrow> Inl (Err ''STUN UDP request timed out'')
       | ReadFailed e \<Rightarrow> wrap ''failed to read STUN response'' (Inl (Err e))
       | Got datagram \<Rightarrow>
           let n = min 1500 (length datagram) in DecodeMessage (take n datagram) (replicate (1500 - n) 0))"

text \<open>
  Over TCP or TLS the header is read first and then as many bytes as it says; \<open>Got\<close> is the
  byte stream that arrives.
\<close>

definition sendStunRequestConn :: "(bytes \<Rightarrow> reply) \<Rightarrow> Message \<Rightarrow> Message result" where
  "sendStunRequestConn net request =
     rbind (wrap ''failed to send STUN request over TCP'' (Msg_WriteTo request)) (\<lambda>(_, wire).
       case net wire of
         WriteFailed e \<Rightarrow> wrap ''failed to send STUN request over TCP'' (Inl (Err e))
       | TimedOut \<Rightarrow> Inl (Err ''STUN TCP request timed out'')
       | ReadFailed e \<Rightarrow> wrap ''failed to read STUN response header'' (Inl (Err e))
       | Got stream \<Rightarrow>
           if length stream < 20 then wrap ''failed to read STUN response header'' (eof stream)
           else let messageLength = unat (get16 stream 2)
           in if length stream < 20 + messageLength
              then wrap ''failed to read STUN response attributes'' (eof (drop 20 stream))
              else DecodeMessage (take (20 + messageLength) stream) [])"

text \<open>
  The result is dereferenced to store the server address before the error is looked at, and
  there is no result when the response is rejected.
\<close>

definition finish_query :: "string \<Rightarrow> BindingResult result \<Rightarrow> BindingResult result" where
  "finish_query server r =
     (case r of Inl e \<Rightarrow> Inl Panic | Inr result \<Rightarrow> Inr (result\<lparr>br_ServerAddr := server\<rparr>))"

definition queryStunServerUDP :: "(bytes \<Rightarrow> bytes) \<Rightarrow> bytes result \<Rightarrow> (bytes \<Rightarrow> reply) \<Rightarrow> Client \<Rightarrow> string \<Rightarrow> BindingResult result" where
  "queryStunServerUDP nfc rand net c server =
     rbind (BuildBindingRequest nfc rand (Some (cl_BindingOptions c))) (\<lambda>request.
     rbind (sendStunRequestUDP net request) (\<lambda>response.
       finish_query server (ProcessBindingResponse nfc (Some response) (hd_TransactionID (msg_Header request))
         (Some (cl_BindingOptions c)))))"

definition queryStunServerTCP :: "(bytes \<Rightarrow> bytes) \<Rightarrow> bytes result \<Rightarrow> (bytes \<Rightarrow> reply) \<Rightarrow> Client \<Rightarrow> string \<Rightarrow> BindingResult result" where
  "queryStunServerTCP nfc rand net c server =
     rbind (BuildBindingRequest nfc rand (Some (cl_BindingOptions c))) (\<lambda>request.
     rbind (sendStunRequestConn net request) (\<lambda>response.
       finish_query server (ProcessBindingResponse nfc (Some response) (hd_TransactionID (msg_Header request))
         (Some (cl_BindingOptions c)))))"

section \<open>Serializing to another buffer\<close>

lemma serialize_attrs_ok:
  "list_all attr_sized as \<Longrightarrow> sb_inv sb \<Longrightarrow>
   \<exists>sb'. serialize_attrs as sb = Inr sb' \<and> sb_inv sb' \<and> Buffer_Bytes sb' = Buffer_Bytes sb @ concat (map encode as)"
proof (induction as arbitrary: sb)
  case (Cons a as)
  then obtain sb1 where 1: "SerializeTo a sb = Inr sb1" "sb_inv sb1" "Buffer_Bytes sb1 = Buffer_Bytes sb @ encode a"
    using SerializeTo_encode [of a sb] by auto
  from Cons.IH [OF _ 1(2)] Cons.prems(1) obtain sb2 where "serialize_attrs as sb1 = Inr sb2" "sb_inv sb2"
    "Buffer_Bytes sb2 = Buffer_Bytes sb1 @ concat (map encode as)" by auto
  with 1 show ?case by simp
qed simp

lemma Buffer_Reset_inv [simp]: "sb_inv (Buffer_Reset b)" "Buffer_Bytes (Buffer_Reset b) = []"
  by (simp_all add: sb_inv_def Buffer_Reset_def Buffer_Bytes_def)

text \<open>A message in a fresh buffer is the message that it keeps itself.\<close>

lemma Msg_SerializeTo_raw:
  assumes "(if msg_fingerprint msg then AddFingerprint msg else Inr msg) = Inr msg1" "msg_inv msg1"
    "sb_inv sb" "Buffer_Bytes sb = []"
  shows "\<exists>raw. Msg_SerializeTo msg sb = Inr (msg1, raw) \<and> Buffer_Bytes raw = Buffer_Bytes (msg_Raw msg1)"
proof -
  have m: "length (hd_TransactionID (msg_Header msg1)) = 12" "list_all attr_sized (msg_Attributes msg1)"
    "Buffer_Bytes (msg_Raw msg1) = hbytes (msg_Header msg1) @ concat (map encode (msg_Attributes msg1))"
    using assms(2) by (simp_all add: msg_inv_def)
  from Header_SerializeTo_ok [OF assms(3) m(1)] obtain sb1 where
    1: "Header_SerializeTo (msg_Header msg1) sb = Inr sb1" "sb_inv sb1" "Buffer_Bytes sb1 = hbytes (msg_Header msg1)"
    using assms(4) by auto
  from serialize_attrs_ok [OF m(2) 1(2)] obtain sb2 where
    "serialize_attrs (msg_Attributes msg1) sb1 = Inr sb2"
    "Buffer_Bytes sb2 = Buffer_Bytes sb1 @ concat (map encode (msg_Attributes msg1))" by auto
  with 1 m(3) assms(1) show ?thesis by (simp add: Msg_SerializeTo_def)
qed

section \<open>The server answers\<close>

text \<open>A message of plain attributes with a fingerprint and without credentials.\<close>

definition fp_opens :: "u16 \<Rightarrow> bytes \<Rightarrow> Attribute list \<Rightarrow> Message \<Rightarrow> bool" where
  "fp_opens t txID as got \<longleftrightarrow>
     hd_Type (msg_Header got) = t \<and> hd_TransactionID (msg_Header got) = txID \<and>
     (t AND 0xC000 = 0 \<longrightarrow> Header_Validate (msg_Header got) = Inr ()) \<and>
     (\<exists>w. msg_Attributes got = as @ [FingerprintAttr w]) \<and> VerifyFingerprint got = Inr True"

lemma length_field: "msg_inv msg \<Longrightarrow> get16 (Buffer_Bytes (msg_Raw msg)) 2 = of_nat (attrs_len (msg_Attributes msg))"
  by (simp add: msg_inv_def hbytes_def be_simps)

lemma unat_add20': "unat w < 65516 \<Longrightarrow> unat (20 + w :: u16) = 20 + unat w"
  by (simp add: unat_word_ariths)

lemma of_nat16_less: "x < 65536 \<Longrightarrow> y < 65536 \<Longrightarrow> of_nat x < (of_nat y :: u16) \<longleftrightarrow> x < y"
  by (simp add: word_less_nat_alt unat_of_nat16)

lemma fingerprinted:
  assumes as: "plain as" and tx: "length txID = 12" and len: "attrs_len as + 8 < 65536"
  shows "\<exists>m0 m2. NewMessageWithTransactionID t as txID = Inr m0 \<and>
    hd_TransactionID (msg_Header m0) = txID \<and> AddFingerprint (WithFingerprint m0) = Inr m2 \<and> msg_inv m2 \<and>
    length (Buffer_Bytes (msg_Raw m2)) = 28 + attrs_len as \<and>
    get16 (Buffer_Bytes (msg_Raw m2)) 2 = of_nat (8 + attrs_len as) \<and>
    (\<forall>spare. \<exists>got. DecodeMessage (Buffer_Bytes (msg_Raw m2)) spare = Inr got \<and> fp_opens t txID as got)"
proof -
  note p = plainD [OF as]
  from NewMessage_ok [OF p(2) plain_ordered [OF as] tx, of t] obtain m0 where m0:
    "NewMessageWithTransactionID t as txID = Inr m0" "msg_inv m0" "msg_Attributes m0 = as"
    "hd_Type (msg_Header m0) = t" "hd_MagicCookie (msg_Header m0) = MagicCookie"
    "hd_TransactionID (msg_Header m0) = txID" by auto
  let ?m = "WithFingerprint m0"
  have inv: "msg_inv ?m" "msg_Attributes ?m = as" "msg_Header ?m = msg_Header m0"
    using m0(2,3) by (simp_all add: msg_inv_def WithFingerprint_def)
  have strip: "strip_fp as = as"
    using p(5) by (metis strip_fp_def imageI last_in_set)
  have fresh: "AttrFingerprint \<notin> GetType ` set (strip_fp (msg_Attributes ?m))"
    using p(5) inv(2) strip by simp
  from AddFingerprint_ok [OF inv(1) fresh] obtain m2 w where m2: "AddFingerprint ?m = Inr m2" "msg_inv m2"
    "same_header ?m m2" "msg_Attributes m2 = as @ [FingerprintAttr w]"
    "w = fp_value (hbytes (msg_Header ?m) @ concat (map encode as))" using inv(2) strip by auto
  have "msg_Header m2 = (msg_Header ?m)\<lparr>hd_Length := hd_Length (msg_Header m2)\<rparr>"
    using m2(3) by (cases "msg_Header m2"; cases "msg_Header ?m") (simp add: same_header_def)
  then have w: "w = fp_value (hbytes (msg_Header m2) @ concat (map encode as))"
    using m2(5) fp_value_length_field by metis
  have al: "attrs_len (msg_Attributes m2) = attrs_len as + 8" by (simp add: m2(4))
  have blen: "length (Buffer_Bytes (msg_Raw m2)) = 28 + attrs_len as"
    using m2(2) length_concat_encode [of "msg_Attributes m2"] al by (simp add: msg_inv_def)
  have valid: "t AND 0xC000 = 0 \<Longrightarrow> Header_Validate (msg_Header m2) = Inr ()"
  proof -
    assume "t AND 0xC000 = 0"
    moreover have "4 dvd attrs_len as + 8" using attrs_len_dvd4 by (rule dvd_add) simp
    moreover have "hd_Length (msg_Header m2) = of_nat (attrs_len as + 8)" using m2(2) al by (simp add: msg_inv_def)
    ultimately show ?thesis
      using m2(3) m0(4,5) inv(3) len by (intro Header_Validate_ok [of _ "attrs_len as + 8"]) (simp_all add: same_header_def)
  qed
  have "\<exists>got. DecodeMessage (Buffer_Bytes (msg_Raw m2)) spare = Inr got \<and> fp_opens t txID as got" for spare
  proof -
    let ?got = "\<lparr>msg_Header = msg_Header m2, msg_Attributes = as @ [FingerprintAttr w],
      msg_Raw = NewBuffer (Buffer_Bytes (msg_Raw m2) @ spare) (length (Buffer_Bytes (msg_Raw m2))), msg_fingerprint = False\<rparr>"
    have "DecodeMessage (Buffer_Bytes (msg_Raw m2)) spare = Inr ?got"
      using DecodeMessage_inv [OF m2(2), of spare] al len p(1,3) by (simp add: m2(4))
    moreover have "VerifyFingerprint ?got = Inr True"
      using verify_fp_inv [OF m2(2,4) p(5), of "msg_Raw ?got" ?got] w FindAttribute_fp [OF p(5)] by simp
    ultimately show ?thesis
      using m2(3) m0(4,6) inv(3) valid by (auto simp: fp_opens_def same_header_def)
  qed
  then show ?thesis using m0(1,6) m2(1,2) blen length_field [OF m2(2)] al by (metis add.commute)
qed

text \<open>Any message that a client may send to the server: a valid header of a Binding request.\<close>

lemma server_step:
  assumes req: "DecodeMessage (take n dat) (drop n dat) = Inr req" "n \<le> length dat"
      "Header_Validate (msg_Header req) = Inr ()" "hd_Type (msg_Header req) = MsgTypeBindingRequest"
      "length (hd_TransactionID (msg_Header req)) = 12"
    and addr: "addr_ip_port addr = Inr (a, port)" "length a = 4 \<or> length a = 16" "0 \<le> port" "port < 65536"
  shows "\<exists>wire. processWorkItem nfc mem \<lparr>wi_DataBuf = dat, wi_DataLen = n, wi_RemoteAddr = addr\<rparr> = Inr wire \<and>
    length wire \<le> 52 \<and> 20 \<le> length wire \<and> get16 wire 2 = of_nat (length wire - 20) \<and>
    (\<forall>spare. \<exists>resp. DecodeMessage wire spare = Inr resp \<and>
       hd_Type (msg_Header resp) = MsgTypeBindingResponse \<and>
       hd_TransactionID (msg_Header resp) = hd_TransactionID (msg_Header req) \<and>
       Header_Validate (msg_Header resp) = Inr () \<and>
       VerifyFingerprint resp = Inr True \<and> MappedAddrPort resp = Inr (canonical a, nat port))"
proof -
  let ?tx = "hd_TransactionID (msg_Header req)" let ?v = "xor_value (canonical a) (of_int port) ?tx"
  let ?as = "[XorMappedAddressAttr ?v]"
  note can = canonical_length [OF addr(2)]
  have xor: "NewXorMappedAddressAttr addr ?tx = Inr (XorMappedAddressAttr ?v)"
    by (rule NewXor_value [OF addr(1,2) req(5)])
  have "length ?v \<in> {8, 20}" using can req(5) by (auto simp: xor_value_def)
  note xa = xor_attribute [OF xor this]
  from fingerprinted [OF xa(1) req(5), of MsgTypeBindingResponse] xa(2) obtain m0 m2 where
    m: "NewMessageWithTransactionID MsgTypeBindingResponse ?as ?tx = Inr m0" "AddFingerprint (WithFingerprint m0) = Inr m2"
      "msg_inv m2" "length (Buffer_Bytes (msg_Raw m2)) = 28 + attrs_len ?as"
      "get16 (Buffer_Bytes (msg_Raw m2)) 2 = of_nat (8 + attrs_len ?as)"
      "\<And>spare. \<exists>got. DecodeMessage (Buffer_Bytes (msg_Raw m2)) spare = Inr got \<and> fp_opens MsgTypeBindingResponse ?tx ?as got"
    by auto
  have proc: "ProcessBindingRequest nfc (Some req) addr None (Some serverOptions) = Inr (WithFingerprint m0)"
    using m(1) xor req(3,4)
    by (simp add: ProcessBindingRequest_def stun_type_ok Msg_Validate_def option_attributes_def serverOptions_def
        BuildAuthAttributes_def BuildIceAttributes_def seal_def)
  have "(if msg_fingerprint (WithFingerprint m0) then AddFingerprint (WithFingerprint m0) else Inr (WithFingerprint m0)) = Inr m2"
    using m(2) by (simp add: WithFingerprint_def)
  from Msg_SerializeTo_raw [OF this m(3), of "Buffer_Reset (NewBuffer mem (length mem))"] obtain raw where
    raw: "Msg_SerializeTo (WithFingerprint m0) (Buffer_Reset (NewBuffer mem (length mem))) = Inr (m2, raw)"
      "Buffer_Bytes raw = Buffer_Bytes (msg_Raw m2)" by auto
  have "processWorkItem nfc mem \<lparr>wi_DataBuf = dat, wi_DataLen = n, wi_RemoteAddr = addr\<rparr> = Inr (Buffer_Bytes (msg_Raw m2))"
    using req(1,2) proc raw by (simp add: processWorkItem_def)
  moreover have "\<exists>resp. DecodeMessage (Buffer_Bytes (msg_Raw m2)) spare = Inr resp \<and>
       hd_Type (msg_Header resp) = MsgTypeBindingResponse \<and>
       hd_TransactionID (msg_Header resp) = ?tx \<and> Header_Validate (msg_Header resp) = Inr () \<and>
       VerifyFingerprint resp = Inr True \<and> MappedAddrPort resp = Inr (canonical a, nat port)" for spare
  proof -
    from m(6) [of spare] obtain got where g: "DecodeMessage (Buffer_Bytes (msg_Raw m2)) spare = Inr got"
      "fp_opens MsgTypeBindingResponse ?tx ?as got" by blast
    have "MappedAddrPort got = Inr (canonical a, nat port)"
      using g(2) DecodeXor_value [OF can req(5), of "of_int port"] unat_of_nat16 [of "nat port"] addr(3,4)
      by (auto simp: MappedAddrPort_def fp_opens_def)
    then show ?thesis using g stun_type_ok(2) by (auto simp: fp_opens_def)
  qed
  moreover have "length (Buffer_Bytes (msg_Raw m2)) - 20 = 8 + attrs_len ?as" using m(4) by simp
  ultimately show ?thesis using m(4,5) xa(2) by auto
qed

lemma client_request:
  assumes "length txID = 12"
  shows "\<exists>request m1 wire. BuildBindingRequest nfc (Inr txID)
      (Some \<lparr>bo_Auth = None, bo_Ice = None, bo_RequireFingerprint = fp\<rparr>) = Inr request \<and>
    hd_TransactionID (msg_Header request) = txID \<and> Msg_WriteTo request = Inr (m1, wire) \<and> length wire \<le> 28 \<and>
    20 \<le> length wire \<and> get16 wire 2 = of_nat (length wire - 20) \<and>
    (\<forall>spare. \<exists>req. DecodeMessage wire spare = Inr req \<and> hd_Type (msg_Header req) = MsgTypeBindingRequest \<and>
       hd_TransactionID (msg_Header req) = txID \<and> Header_Validate (msg_Header req) = Inr ())"
proof (cases fp)
  case True
  have "plain []" by (simp add: plain_def)
  from fingerprinted [OF this assms, of MsgTypeBindingRequest] obtain m0 m2 where
    m: "NewMessageWithTransactionID MsgTypeBindingRequest [] txID = Inr m0" "hd_TransactionID (msg_Header m0) = txID"
      "AddFingerprint (WithFingerprint m0) = Inr m2" "length (Buffer_Bytes (msg_Raw m2)) = 28"
      "get16 (Buffer_Bytes (msg_Raw m2)) 2 = 8"
      "\<And>spare. \<exists>got. DecodeMessage (Buffer_Bytes (msg_Raw m2)) spare = Inr got \<and> fp_opens MsgTypeBindingRequest txID [] got"
    by auto
  have "\<exists>req. DecodeMessage (Buffer_Bytes (msg_Raw m2)) spare = Inr req \<and> hd_Type (msg_Header req) = MsgTypeBindingRequest \<and>
       hd_TransactionID (msg_Header req) = txID \<and> Header_Validate (msg_Header req) = Inr ()" for spare
    using m(6) [of spare] stun_type_ok(1) by (auto simp: fp_opens_def)
  moreover have "Msg_WriteTo (WithFingerprint m0) = Inr (m2, Buffer_Bytes (msg_Raw m2))"
    using m(3) by (simp add: Msg_WriteTo_def WithFingerprint_def)
  ultimately show ?thesis using True m(1,2,4,5)
    by (auto simp: BuildBindingRequest_def NewMessage_def option_attributes_def BuildAuthAttributes_def
        BuildIceAttributes_def seal_def WithFingerprint_def)
next
  case False
  from NewMessage_ok [of "[]" txID MsgTypeBindingRequest] assms obtain m0 where
    m: "NewMessageWithTransactionID MsgTypeBindingRequest [] txID = Inr m0" "msg_inv m0" "msg_Attributes m0 = []"
      "\<not> msg_fingerprint m0" "hd_Type (msg_Header m0) = MsgTypeBindingRequest"
      "hd_MagicCookie (msg_Header m0) = MagicCookie" "hd_TransactionID (msg_Header m0) = txID" by auto
  have "Header_Validate (msg_Header m0) = Inr ()"
    using m by (intro Header_Validate_ok [of _ 0]) (simp_all add: msg_inv_def stun_type_ok)
  then have "\<exists>req. DecodeMessage (Buffer_Bytes (msg_Raw m0)) spare = Inr req \<and> hd_Type (msg_Header req) = MsgTypeBindingRequest \<and>
       hd_TransactionID (msg_Header req) = txID \<and> Header_Validate (msg_Header req) = Inr ()" for spare
    using DecodeMessage_inv [OF m(2), of spare] m by simp
  moreover have "Msg_WriteTo m0 = Inr (m0, Buffer_Bytes (msg_Raw m0))" "length (Buffer_Bytes (msg_Raw m0)) = 20"
    "get16 (Buffer_Bytes (msg_Raw m0)) 2 = 0"
    using m length_field [OF m(2)] by (simp_all add: Msg_WriteTo_def msg_inv_def)
  ultimately show ?thesis using False m(1,7)
    by (auto simp: BuildBindingRequest_def NewMessage_def option_attributes_def BuildAuthAttributes_def
        BuildIceAttributes_def seal_def)
qed

text \<open>The server seen from the client, over UDP and over TCP.\<close>

definition answered :: "(bytes \<Rightarrow> bytes) \<Rightarrow> bytes \<Rightarrow> serverWorkerPoolItem result \<Rightarrow> reply" where
  "answered nfc mem item = (case rbind item (processWorkItem nfc mem) of Inr answer \<Rightarrow> Got answer | Inl _ \<Rightarrow> TimedOut)"

lemma answered_ok:
  assumes "DecodeMessage wire (drop (length wire) buf) = Inr req" "length wire \<le> length buf"
    "hd_Type (msg_Header req) = MsgTypeBindingRequest" "hd_TransactionID (msg_Header req) = txID"
    "Header_Validate (msg_Header req) = Inr ()" "length txID = 12"
    and "addr_ip_port addr = Inr (a, port)" "length a = 4 \<or> length a = 16" "0 \<le> port" "port < 65536"
    and opts: "opts = \<lparr>bo_Auth = None, bo_Ice = None, bo_RequireFingerprint = fp\<rparr>"
  shows "\<exists>answer. answered nfc mem (Inr \<lparr>wi_DataBuf = splice buf 0 wire, wi_DataLen = length wire, wi_RemoteAddr = addr\<rparr>) =
      Got answer \<and> length answer \<le> 52 \<and>
    (\<forall>spare. \<exists>resp. DecodeMessage answer spare = Inr resp \<and>
       20 \<le> length answer \<and> get16 answer 2 = of_nat (length answer - 20) \<and>
       ProcessBindingResponse nfc (Some resp) txID (Some opts) =
         Inr \<lparr>br_ServerAddr = [], br_TransactionID = txID, br_IP = canonical a, br_Port = nat port\<rparr>)"
proof -
  let ?dat = "splice buf 0 wire"
  have dat: "take (length wire) ?dat = wire" "drop (length wire) ?dat = drop (length wire) buf"
    "length wire \<le> length ?dat" using assms(2) by (simp_all add: splice_def)
  from server_step [of "length wire" ?dat req addr a port nfc mem] assms dat obtain answer where
    s: "processWorkItem nfc mem \<lparr>wi_DataBuf = ?dat, wi_DataLen = length wire, wi_RemoteAddr = addr\<rparr> = Inr answer"
      "length answer \<le> 52" "20 \<le> length answer" "get16 answer 2 = of_nat (length answer - 20)"
      "\<And>spare. \<exists>resp. DecodeMessage answer spare = Inr resp \<and> hd_Type (msg_Header resp) = MsgTypeBindingResponse \<and>
       hd_TransactionID (msg_Header resp) = txID \<and> Header_Validate (msg_Header resp) = Inr () \<and>
       VerifyFingerprint resp = Inr True \<and> MappedAddrPort resp = Inr (canonical a, nat port)"
    by auto
  have ne: "canonical a \<noteq> []" using canonical_length [OF assms(8)] by auto
  have "\<exists>resp. DecodeMessage answer spare = Inr resp \<and> ProcessBindingResponse nfc (Some resp) txID (Some opts) =
      Inr \<lparr>br_ServerAddr = [], br_TransactionID = txID, br_IP = canonical a, br_Port = nat port\<rparr>" for spare
  proof -
    from s(5) [of spare] obtain resp where resp: "DecodeMessage answer spare = Inr resp"
      "hd_Type (msg_Header resp) = MsgTypeBindingResponse" "hd_TransactionID (msg_Header resp) = txID"
      "Header_Validate (msg_Header resp) = Inr ()" "VerifyFingerprint resp = Inr True"
      "MappedAddrPort resp = Inr (canonical a, nat port)" by blast
    then show ?thesis
      using ne opts by (simp add: ProcessBindingResponse_def Msg_Validate_def stun_type_ok)
  qed
  then show ?thesis using s(1-4) by (simp add: answered_def)
qed

text \<open>
  C8. A client query against this server, request and response passing through both codecs,
  returns the address and port under which the server saw the client, over UDP and over TCP,
  and whether or not the client asks for fingerprints.
\<close>

theorem query_server_roundtrip:
  assumes opts: "cl_BindingOptions c = \<lparr>bo_Auth = None, bo_Ice = None, bo_RequireFingerprint = fp\<rparr>"
    and tx: "length txID = 12" and room: "28 \<le> length readBuffer" "length readBuffer < 65536"
    and addr: "addr_ip_port addr = Inr (a, port)" "length a = 4 \<or> length a = 16" "0 \<le> port" "port < 65536"
  shows "\<exists>result. queryStunServerUDP nfc (Inr txID)
        (\<lambda>wire. answered nfc mem (Inr (stunListenUDP readBuffer wire addr))) c server = Inr result \<and>
      queryStunServerTCP nfc (Inr txID)
        (\<lambda>wire. answered nfc mem (stunListenTCP readBuffer wire addr)) c server = Inr result \<and>
      br_ServerAddr result = server \<and> br_TransactionID result = txID \<and>
      IP_Equal (br_IP result) a \<and> br_Port result = nat port"
proof -
  from client_request [OF tx, of nfc fp] obtain request m1 wire where
    r: "BuildBindingRequest nfc (Inr txID) (Some (cl_BindingOptions c)) = Inr request"
      "hd_TransactionID (msg_Header request) = txID" "Msg_WriteTo request = Inr (m1, wire)"
      "length wire \<le> 28" "20 \<le> length wire" "get16 wire 2 = of_nat (length wire - 20)"
      "\<And>spare. \<exists>req. DecodeMessage wire spare = Inr req \<and> hd_Type (msg_Header req) = MsgTypeBindingRequest \<and>
         hd_TransactionID (msg_Header req) = txID \<and> Header_Validate (msg_Header req) = Inr ()"
    using opts by auto
  let ?item = "\<lparr>wi_DataBuf = splice readBuffer 0 wire, wi_DataLen = length wire, wi_RemoteAddr = addr\<rparr>"
  have udp: "stunListenUDP readBuffer wire addr = ?item"
    using r(4) room(1) by (simp add: stunListenUDP_def Let_def min_def)
  have n: "unat (20 + of_nat (length wire - 20) :: u16) = length wire"
    using r(4,5) by (simp add: unat_add20' unat_of_nat16)
  have "\<not> of_nat (length readBuffer - 20) < (of_nat (length wire - 20) :: u16)"
    using r(4) room of_nat16_less [of "length readBuffer - 20" "length wire - 20"] by linarith
  then have tcp: "stunListenTCP readBuffer wire addr = Inr ?item"
    using r(4,5,6) room(1) n by (simp add: stunListenTCP_def Let_def)
  from r(7) [of "drop (length wire) readBuffer"] obtain req where
    "DecodeMessage wire (drop (length wire) readBuffer) = Inr req" "hd_Type (msg_Header req) = MsgTypeBindingRequest"
    "hd_TransactionID (msg_Header req) = txID" "Header_Validate (msg_Header req) = Inr ()" by blast
  from answered_ok [OF this(1) _ this(2,3,4) tx addr opts, of nfc mem] r(4) room(1) obtain answer where
    s: "answered nfc mem (Inr ?item) = Got answer" "length answer \<le> 52"
      "\<And>spare. \<exists>resp. DecodeMessage answer spare = Inr resp \<and>
         20 \<le> length answer \<and> get16 answer 2 = of_nat (length answer - 20) \<and>
         ProcessBindingResponse nfc (Some resp) txID (Some (cl_BindingOptions c)) =
         Inr \<lparr>br_ServerAddr = [], br_TransactionID = txID, br_IP = canonical a, br_Port = nat port\<rparr>" by auto
  have len: "20 + unat (get16 answer 2) = length answer" "20 \<le> length answer"
    using s(2) s(3) [of "[]"] unat_of_nat16 [of "length answer - 20"] by auto
  let ?res = "\<lparr>br_ServerAddr = server, br_TransactionID = txID, br_IP = canonical a, br_Port = nat port\<rparr>"
  have "queryStunServerUDP nfc (Inr txID) (\<lambda>wire. answered nfc mem (Inr (stunListenUDP readBuffer wire addr))) c server = Inr ?res"
    using s(3) [of "replicate (1500 - length answer) 0"] r(1-3) s(1,2) udp
    by (auto simp: queryStunServerUDP_def sendStunRequestUDP_def Let_def finish_query_def)
  moreover have "queryStunServerTCP nfc (Inr txID) (\<lambda>wire. answered nfc mem (stunListenTCP readBuffer wire addr)) c server = Inr ?res"
  proof -
    from s(3) [of "[]"] obtain resp where "DecodeMessage answer [] = Inr resp"
      "ProcessBindingResponse nfc (Some resp) txID (Some (cl_BindingOptions c)) =
         Inr \<lparr>br_ServerAddr = [], br_TransactionID = txID, br_IP = canonical a, br_Port = nat port\<rparr>" by blast
    then show ?thesis
      using r(1-3) s(1) tcp len by (simp add: queryStunServerTCP_def sendStunRequestConn_def Let_def finish_query_def)
  qed
  ultimately show ?thesis using canonical_equal [OF addr(2)] by auto
qed

theorem query_server_roundtrip_witness:
  "\<exists>result. queryStunServerUDP (\<lambda>s. s) (Inr (replicate 12 7))
       (\<lambda>wire. answered (\<lambda>s. s) [] (Inr (stunListenUDP (replicate 1024 0) wire (UDPAddr [192, 0, 2, 1] 4242))))
       \<lparr>cl_Timeout = 0, cl_Servers = [], cl_BindingOptions = \<lparr>bo_Auth = None, bo_Ice = None, bo_RequireFingerprint = True\<rparr>\<rparr>
       ''stun:3478'' = Inr result \<and>
     queryStunServerTCP (\<lambda>s. s) (Inr (replicate 12 7))
       (\<lambda>wire. answered (\<lambda>s. s) [] (stunListenTCP (replicate 1024 0) wire (UDPAddr [192, 0, 2, 1] 4242)))
       \<lparr>cl_Timeout = 0, cl_Servers = [], cl_BindingOptions = \<lparr>bo_Auth = None, bo_Ice = None, bo_RequireFingerprint = True\<rparr>\<rparr>
       ''stun:3478'' = Inr result \<and>
     br_ServerAddr result = ''stun:3478'' \<and> br_TransactionID result = replicate 12 7 \<and>
     IP_Equal (br_IP result) [192, 0, 2, 1] \<and> br_Port result = nat 4242"
  by (rule query_server_roundtrip) simp_all

text \<open>A query whose response arrives and decodes but is rejected, because of its identifier, type,
  error code or fingerprint, does not return an error: it panics.\<close>

theorem rejected_response_panics:
  assumes "BuildBindingRequest nfc rand (Some (cl_BindingOptions c)) = Inr request"
    and "sendStunRequestUDP net request = Inr response"
    and "ProcessBindingResponse nfc (Some response) (hd_TransactionID (msg_Header request)) (Some (cl_BindingOptions c)) = Inl e"
  shows "queryStunServerUDP nfc rand net c server = Inl Panic"
  using assms by (simp add: queryStunServerUDP_def finish_query_def)

theorem rejected_response_panics_witness:
  "queryStunServerUDP (\<lambda>s. s) (Inr (replicate 12 7)) (\<lambda>_. Got ([1, 1, 0, 0, 0x21, 0x12, 0xA4, 0x42] @ replicate 12 8))
     \<lparr>cl_Timeout = 0, cl_Servers = [], cl_BindingOptions = \<lparr>bo_Auth = None, bo_Ice = None, bo_RequireFingerprint = False\<rparr>\<rparr>
     ''stun:3478'' = Inl Panic"
proof -
  let ?c = "\<lparr>cl_Timeout = 0, cl_Servers = [], cl_BindingOptions = \<lparr>bo_Auth = None, bo_Ice = None, bo_RequireFingerprint = False\<rparr>\<rparr>"
  let ?net = "\<lambda>_. Got ([1, 1, 0, 0, 0x21, 0x12, 0xA4, 0x42] @ replicate 12 8)"
  have "(case BuildBindingRequest (\<lambda>s. s) (Inr (replicate 12 7)) (Some (cl_BindingOptions ?c)) of Inl _ \<Rightarrow> False
     | Inr request \<Rightarrow> (case sendStunRequestUDP ?net request of Inl _ \<Rightarrow> False
        | Inr response \<Rightarrow> isl (ProcessBindingResponse (\<lambda>s. s) (Some response) (hd_TransactionID (msg_Header request))
            (Some (cl_BindingOptions ?c)))))"
    by code_simp
  then show ?thesis
    using rejected_response_panics [of "\<lambda>s. s" "Inr (replicate 12 7)" ?c _ ?net _ _ "''stun:3478''"]
    by (auto split: sum.splits simp: isl_def)
qed

section \<open>The worker pool\<close>



text \<open>The deadline of a query is the earlier of the client's timeout and the context's deadline,
  and three seconds from now when there is neither.\<close>

lemma deadline_earliest:
  "deadline c ctxDeadline now =
     (if cl_Timeout c \<noteq> 0
      then (case ctxDeadline of Some d \<Rightarrow> min (now + cl_Timeout c) d | None \<Rightarrow> now + cl_Timeout c)
      else (case ctxDeadline of Some d \<Rightarrow> d | None \<Rightarrow> now + 3000000000))"
  by (auto simp: deadline_def minNonzeroTime_def stunTimeout_def Let_def split: option.splits)

end
