(* ===== verification/Net_Packet.thy ===== *)
theory Net_Packet
  imports Prelude
begin

text \<open>
  IP packets as byte slices (\<^verbatim>\<open>pkg/network\<close>: \<^verbatim>\<open>ipv4.go\<close>, \<^verbatim>\<open>ipv6.go\<close>, \<^verbatim>\<open>dscp.go\<close>,
  \<^verbatim>\<open>enums.go\<close>): the accessors of the two packet types, the walk over IPv6 extension headers and
  the interface \<^verbatim>\<open>IPPacket\<close> over both. An accessor that indexes outside of the slice panics.
\<close>

section \<open>Indexing\<close>

definition at :: "bytes \<Rightarrow> nat \<Rightarrow> byte result" where
  "at p i = (if i < length p then Inr (p ! i) else Inl Panic)"

definition set_at :: "bytes \<Rightarrow> nat \<Rightarrow> byte \<Rightarrow> bytes result" where
  "set_at p i b = (if i < length p then Inr (p[i := b]) else Inl Panic)"

lemma at_Inr [simp]: "i < length p \<Longrightarrow> at p i = Inr (p ! i)"
  by (simp add: at_def)

lemma set_at_Inr [simp]: "i < length p \<Longrightarrow> set_at p i b = Inr (p[i := b])"
  by (simp add: set_at_def)

text \<open>A big-endian 16 bit value read byte by byte.\<close>

definition at16 :: "bytes \<Rightarrow> nat \<Rightarrow> u16 result" where
  "at16 p i = rbind (at p (i + 1)) (\<lambda>lo. rbind (at p i) (\<lambda>hi. Inr (be16 hi lo)))"

lemma at16_Inr [simp]: "i + 1 < length p \<Longrightarrow> at16 p i = Inr (get16 p i)"
  by (simp add: at16_def get16_def)

lemma at16_Panic: "\<not> i + 1 < length p \<Longrightarrow> at16 p i = Inl Panic"
  by (simp add: at16_def at_def)

section \<open>IPv4\<close>

definition ProtocolTCP :: byte where "ProtocolTCP = 6"
definition ProtocolUDP :: byte where "ProtocolUDP = 17"
definition ProtocolICMP :: byte where "ProtocolICMP = 1"
definition ICMPTypeEchoRequest :: byte where "ICMPTypeEchoRequest = 8"
definition ICMPTypeEchoReply :: byte where "ICMPTypeEchoReply = 0"
definition ICMPv6TypeEchoRequest :: byte where "ICMPv6TypeEchoRequest = 128"

lemmas proto_consts = ProtocolTCP_def ProtocolUDP_def ProtocolICMP_def
  ICMPTypeEchoRequest_def ICMPTypeEchoReply_def ICMPv6TypeEchoRequest_def

definition IPv4_Version :: "bytes \<Rightarrow> nat result" where
  "IPv4_Version p = rbind (at p 0) (\<lambda>b. Inr (unat (drop_bit 4 b)))"

text \<open>\<^verbatim>\<open>copy(p[i:j], a)\<close>; the nil address copies nothing.\<close>

definition copy_addr :: "bytes \<Rightarrow> nat \<Rightarrow> nat \<Rightarrow> ip option \<Rightarrow> bytes result" where
  "copy_addr p i j a =
     (if length p < j then Inl Panic
      else Inr (splice p i (take (j - i) (case a of None \<Rightarrow> [] | Some b \<Rightarrow> b))))"

definition IPv4_SetSourceIP :: "bytes \<Rightarrow> ip \<Rightarrow> bytes result" where
  "IPv4_SetSourceIP p a = copy_addr p 12 16 (To4 a)"

definition IPv4_SetDestinationIP :: "bytes \<Rightarrow> ip \<Rightarrow> bytes result" where
  "IPv4_SetDestinationIP p a = copy_addr p 16 20 (To4 a)"

definition IPv4_TotalLength :: "bytes \<Rightarrow> nat result" where
  "IPv4_TotalLength p = rbind (at16 p 2) (\<lambda>n. Inr (unat n))"

definition IPv4_DestinationIP :: "bytes \<Rightarrow> ip result" where
  "IPv4_DestinationIP p = slice p 16 20"

definition IPv4_SourceIP :: "bytes \<Rightarrow> ip result" where
  "IPv4_SourceIP p = slice p 12 16"

definition IPv4_Protocol :: "bytes \<Rightarrow> byte result" where
  "IPv4_Protocol p = at p 9"

definition IPv4_SourcePort :: "bytes \<Rightarrow> u16 result" where
  "IPv4_SourcePort p =
     rbind (IPv4_Protocol p) (\<lambda>proto. if proto \<noteq> 6 \<and> proto \<noteq> 17 then Inr 0 else at16 p 20)"

definition IPv4_DestinationPort :: "bytes \<Rightarrow> u16 result" where
  "IPv4_DestinationPort p =
     rbind (IPv4_Protocol p) (\<lambda>proto. if proto \<noteq> 6 \<and> proto \<noteq> 17 then Inr 0 else at16 p 22)"

definition IPv4_PayloadOffset :: "bytes \<Rightarrow> nat result" where
  "IPv4_PayloadOffset p = rbind (at p 0) (\<lambda>b. Inr (4 * unat (b AND 0x0F)))"

text \<open>Marks in the DSCP field; the two low bits (ECN) are kept.\<close>

definition Mark :: "bytes \<Rightarrow> byte \<Rightarrow> bytes result" where
  "Mark p flag = rbind (at p 1) (\<lambda>b. set_at p 1 (push_bit 2 flag OR (b AND 3)))"

definition GetMark :: "bytes \<Rightarrow> byte result" where
  "GetMark p = rbind (at p 1) (\<lambda>b. Inr (drop_bit 2 b))"

definition ClearMark :: "bytes \<Rightarrow> bytes result" where
  "ClearMark p = rbind (at p 1) (\<lambda>b. set_at p 1 (b AND 3))"

section \<open>IPv6\<close>

definition ipProtoHopByHop :: byte where "ipProtoHopByHop = 0"
definition ipProtoTCP :: byte where "ipProtoTCP = 6"
definition ipProtoUDP :: byte where "ipProtoUDP = 17"
definition ipProtoRouting :: byte where "ipProtoRouting = 43"
definition ipProtoFragment :: byte where "ipProtoFragment = 44"
definition ipProtoAH :: byte where "ipProtoAH = 51"
definition ipProtoICMPv6 :: byte where "ipProtoICMPv6 = 58"
definition ipProtoDestOpts :: byte where "ipProtoDestOpts = 60"
definition ipProtoMobility :: byte where "ipProtoMobility = 135"
definition ipProtoHIP :: byte where "ipProtoHIP = 139"
definition ipProtoShim6 :: byte where "ipProtoShim6 = 140"

lemmas ip6_consts = ipProtoHopByHop_def ipProtoTCP_def ipProtoUDP_def ipProtoRouting_def ipProtoFragment_def
  ipProtoAH_def ipProtoICMPv6_def ipProtoDestOpts_def ipProtoMobility_def ipProtoHIP_def ipProtoShim6_def

definition IPv6_SetSourceIP :: "bytes \<Rightarrow> ip \<Rightarrow> bytes result" where
  "IPv6_SetSourceIP p a = copy_addr p 8 24 (To16 a)"

definition IPv6_SetDestinationIP :: "bytes \<Rightarrow> ip \<Rightarrow> bytes result" where
  "IPv6_SetDestinationIP p a = copy_addr p 24 40 (To16 a)"

definition IPv6_TotalLength :: "bytes \<Rightarrow> nat result" where
  "IPv6_TotalLength p = rbind (at16 p 4) (\<lambda>n. Inr (unat n + 40))"

definition IPv6_DestinationIP :: "bytes \<Rightarrow> ip result" where
  "IPv6_DestinationIP p = slice p 24 40"

definition IPv6_SourceIP :: "bytes \<Rightarrow> ip result" where
  "IPv6_SourceIP p = slice p 8 24"

definition IPv6_PayloadOffset :: nat where
  "IPv6_PayloadOffset = 40"

text \<open>
  The loop of \<^verbatim>\<open>transportHeader\<close>: protocol, offset and length of the transport header, \<open>None\<close>
  where the code answers false. The bounds are checked against \<open>fin\<close>, which is at most the
  length of the packet.
\<close>

function ext_walk :: "bytes \<Rightarrow> nat \<Rightarrow> byte \<Rightarrow> nat \<Rightarrow> (byte \<times> nat \<times> nat) option" where
  "ext_walk p fin nextHeader offset =
     (if nextHeader \<in> {ipProtoTCP, ipProtoUDP, ipProtoICMPv6}
      then (if offset \<ge> fin then None else Some (nextHeader, offset, fin - offset))
      else if nextHeader \<in> {ipProtoHopByHop, ipProtoRouting, ipProtoDestOpts, ipProtoMobility, ipProtoHIP, ipProtoShim6}
      then (if offset + 2 > fin then None
            else let extLen = (unat (p ! (offset + 1)) + 1) * 8
            in if offset + extLen > fin then None else ext_walk p fin (p ! offset) (offset + extLen))
      else if nextHeader = ipProtoFragment
      then (if offset + 8 > fin then None
            else if drop_bit 3 (be16 (p ! (offset + 2)) (p ! (offset + 3))) \<noteq> 0 then None
            else ext_walk p fin (p ! offset) (offset + 8))
      else if nextHeader = ipProtoAH
      then (if offset + 2 > fin then None
            else let extLen = (unat (p ! (offset + 1)) + 2) * 4
            in if offset + extLen > fin then None else ext_walk p fin (p ! offset) (offset + extLen))
      else None)"
  by pat_completeness auto

termination
  by (relation "measure (\<lambda>(p, fin, nextHeader, offset). fin - offset)") auto

declare ext_walk.simps [simp del]

definition transportHeader :: "bytes \<Rightarrow> (byte \<times> nat \<times> nat) option" where
  "transportHeader p =
     (if length p < 40 then None
      else let fin = min (length p) (40 + unat (get16 p 4)) in ext_walk p fin (p ! 6) 40)"

definition IPv6_Protocol :: "bytes \<Rightarrow> byte" where
  "IPv6_Protocol p =
     (case transportHeader p of
        None \<Rightarrow> if length p \<le> 6 then 0 else p ! 6
      | Some (protocol, _, _) \<Rightarrow> protocol)"

definition IPv6_port :: "bytes \<Rightarrow> nat \<Rightarrow> u16" where
  "IPv6_port p i =
     (case transportHeader p of
        None \<Rightarrow> 0
      | Some (protocol, offset, _) \<Rightarrow>
          if protocol \<noteq> ipProtoTCP \<and> protocol \<noteq> ipProtoUDP then 0
          else if length p < offset + 4 then 0
          else get16 p (offset + i))"

definition IPv6_SourcePort :: "bytes \<Rightarrow> u16" where
  "IPv6_SourcePort p = IPv6_port p 0"

definition IPv6_DestinationPort :: "bytes \<Rightarrow> u16" where
  "IPv6_DestinationPort p = IPv6_port p 2"

lemma ext_walk_bounds:
  "ext_walk p fin nh offset = Some (proto, off, n) \<Longrightarrow>
   offset \<le> off \<and> 0 < n \<and> off + n = fin \<and> proto \<in> {ipProtoTCP, ipProtoUDP, ipProtoICMPv6}"
proof (induction p fin nh offset rule: ext_walk.induct)
  case (1 p fin nh offset)
  let ?upper = "{ipProtoTCP, ipProtoUDP, ipProtoICMPv6}"
  let ?ext = "{ipProtoHopByHop, ipProtoRouting, ipProtoDestOpts, ipProtoMobility, ipProtoHIP, ipProtoShim6}"
  note eq = 1(4) [unfolded ext_walk.simps [of p fin nh offset] Let_def]
  consider "nh \<in> ?upper" | "nh \<notin> ?upper" "nh \<in> ?ext" | "nh \<notin> ?upper" "nh \<notin> ?ext" "nh = ipProtoFragment"
    | "nh \<notin> ?upper" "nh \<notin> ?ext" "nh \<noteq> ipProtoFragment" "nh = ipProtoAH"
    using eq by (auto split: if_splits)
  then show ?case
  proof cases
    case 1
    with eq show ?thesis by (auto split: if_splits)
  next
    case 2
    with eq have "\<not> fin < offset + 2" "\<not> fin < offset + (unat (p ! (offset + 1)) + 1) * 8"
      "ext_walk p fin (p ! offset) (offset + (unat (p ! (offset + 1)) + 1) * 8) = Some (proto, off, n)"
      by (simp_all del: mult_Suc_right split: if_splits)
    from "1.IH"(1) [OF 2 this(1) refl this(2,3)] show ?thesis by simp
  next
    case 3
    with eq have "\<not> fin < offset + 8" "\<not> drop_bit 3 (be16 (p ! (offset + 2)) (p ! (offset + 3))) \<noteq> 0"
      "ext_walk p fin (p ! offset) (offset + 8) = Some (proto, off, n)"
      by (simp_all split: if_splits)
    from "1.IH"(2) [OF 3 this] show ?thesis by simp
  next
    case 4
    with eq have "\<not> fin < offset + 2" "\<not> fin < offset + (unat (p ! (offset + 1)) + 2) * 4"
      "ext_walk p fin (p ! offset) (offset + (unat (p ! (offset + 1)) + 2) * 4) = Some (proto, off, n)"
      by (simp_all del: mult_Suc_right split: if_splits)
    from "1.IH"(3) [OF 4 this(1) refl this(2,3)] show ?thesis by simp
  qed
qed

text \<open>The transport part that the walk finds lies inside of the packet.\<close>

lemma transportHeader_bounds:
  assumes "transportHeader p = Some (proto, off, n)"
  shows "40 \<le> off" "0 < n" "off + n \<le> length p" "proto \<in> {ipProtoTCP, ipProtoUDP, ipProtoICMPv6}"
  using assms ext_walk_bounds [of p _ "p ! 6" 40 proto off n]
  by (auto simp: transportHeader_def Let_def split: if_splits)

section \<open>The interface\<close>

datatype IPPacket = IPv4Packet bytes | IPv6Packet bytes

fun Packet_Bytes :: "IPPacket \<Rightarrow> bytes" where
  "Packet_Bytes (IPv4Packet p) = p"
| "Packet_Bytes (IPv6Packet p) = p"

fun TotalLength :: "IPPacket \<Rightarrow> nat result" where
  "TotalLength (IPv4Packet p) = IPv4_TotalLength p"
| "TotalLength (IPv6Packet p) = IPv6_TotalLength p"

fun DestinationIP :: "IPPacket \<Rightarrow> ip result" where
  "DestinationIP (IPv4Packet p) = IPv4_DestinationIP p"
| "DestinationIP (IPv6Packet p) = IPv6_DestinationIP p"

fun SourceIP :: "IPPacket \<Rightarrow> ip result" where
  "SourceIP (IPv4Packet p) = IPv4_SourceIP p"
| "SourceIP (IPv6Packet p) = IPv6_SourceIP p"

fun Packet_Protocol :: "IPPacket \<Rightarrow> byte result" where
  "Packet_Protocol (IPv4Packet p) = IPv4_Protocol p"
| "Packet_Protocol (IPv6Packet p) = Inr (IPv6_Protocol p)"

fun SourcePort :: "IPPacket \<Rightarrow> u16 result" where
  "SourcePort (IPv4Packet p) = IPv4_SourcePort p"
| "SourcePort (IPv6Packet p) = Inr (IPv6_SourcePort p)"

fun DestinationPort :: "IPPacket \<Rightarrow> u16 result" where
  "DestinationPort (IPv4Packet p) = IPv4_DestinationPort p"
| "DestinationPort (IPv6Packet p) = Inr (IPv6_DestinationPort p)"

fun PayloadOffset :: "IPPacket \<Rightarrow> nat result" where
  "PayloadOffset (IPv4Packet p) = IPv4_PayloadOffset p"
| "PayloadOffset (IPv6Packet p) = Inr IPv6_PayloadOffset"

fun Packet_Version :: "IPPacket \<Rightarrow> nat result" where
  "Packet_Version (IPv4Packet p) = IPv4_Version p"
| "Packet_Version (IPv6Packet p) = IPv4_Version p"

lemma copy_addr_Inr: "copy_addr p i j a = Inr q \<Longrightarrow> i \<le> j \<Longrightarrow> length q = length p"
  by (auto simp: copy_addr_def split: if_splits)

lemma copy_addr_keeps:
  "copy_addr p i j a = Inr q \<Longrightarrow> i \<le> j \<Longrightarrow> k < i \<or> j \<le> k \<Longrightarrow> k < length p \<Longrightarrow> q ! k = p ! k"
  by (auto simp: copy_addr_def nth_splice split: if_splits)

text \<open>
  Marking keeps the length, every other byte and the ECN bits, and the mark can be read again
  when it fits six bits.
\<close>

lemma Mark_GetMark:
  assumes "2 \<le> length p" "unat flag < 64"
  shows "\<exists>q. Mark p flag = Inr q \<and> GetMark q = Inr flag \<and> q ! 1 AND 3 = p ! 1 AND 3 \<and> length q = length p"
proof -
  let ?m = "push_bit 2 flag OR (p ! 1 AND 3)"
  have "take_bit 6 flag = flag"
    using assms(2) by (simp add: word_unat_eq_iff unsigned_take_bit_eq take_bit_nat_eq_self)
  then have hi: "\<not> bit flag n" if "6 \<le> n" for n
    using that by (metis bit_take_bit_iff not_less)
  have three: "(3 :: byte) = mask 2" by (simp add: mask_eq_exp_minus_1)
  have "drop_bit 2 ?m = flag"
    unfolding three by (rule bit_word_eqI) (use hi in \<open>auto simp: bit_simps not_le [symmetric]\<close>)
  moreover have "?m AND 3 = p ! 1 AND 3"
    unfolding three by (rule bit_word_eqI) (auto simp: bit_simps)
  ultimately show ?thesis
    using assms(1) by (simp add: Mark_def GetMark_def)
qed

end
