(* ===== verification/Net_Checksum.thy ===== *)
theory Net_Checksum
  imports Net_Packet
begin

text \<open>
  Checksums of IP packets (\<^verbatim>\<open>checksum.go\<close>, \<^verbatim>\<open>checksum6.go\<close>). The code adds bytes into a 32 bit
  word and folds it twice; the reference is the one's complement sum of RFC 1071, 16 bit words
  added with end-around carry. The lemmas show that the two agree and that an updated packet
  passes the receiver's check.
\<close>

section \<open>The loops\<close>

text \<open>\<^verbatim>\<open>for i := 0; i < n; i += 2\<close> over \<^verbatim>\<open>p[off+i]\<close> and \<^verbatim>\<open>p[off+i+1]\<close>; \<open>n\<close> may be negative.\<close>

function sum_pairs :: "bytes \<Rightarrow> nat \<Rightarrow> int \<Rightarrow> int \<Rightarrow> u32 \<Rightarrow> u32 result" where
  "sum_pairs p off i n acc =
     (if i < n
      then rbind (at p (off + nat i)) (\<lambda>hi. rbind (at p (off + nat i + 1)) (\<lambda>lo.
             sum_pairs p off (i + 2) n (acc + push_bit 8 (ucast hi) + ucast lo)))
      else Inr acc)"
  by pat_completeness auto

termination
  by (relation "measure (\<lambda>(p, off, i, n, acc). nat (n - i))") auto

declare sum_pairs.simps [simp del]

text \<open>The same with the odd last byte, as the transport checksums have it.\<close>

definition segment_sum :: "bytes \<Rightarrow> nat \<Rightarrow> int \<Rightarrow> u32 \<Rightarrow> u32 result" where
  "segment_sum p off n acc =
     rbind (sum_pairs p off 0 (n - 1) acc) (\<lambda>sum1.
       if 0 < n \<and> n mod 2 = 1
       then rbind (at p (off + nat n - 1)) (\<lambda>b. Inr (sum1 + push_bit 8 (ucast b)))
       else Inr sum1)"

definition fold_sum :: "u32 \<Rightarrow> u16" where
  "fold_sum acc =
     (let s1 = drop_bit 16 acc + (acc AND 0xffff); s2 = s1 + drop_bit 16 s1 in NOT (ucast s2))"

definition put_sum :: "bytes \<Rightarrow> nat \<Rightarrow> u16 \<Rightarrow> bytes result" where
  "put_sum p i c = rbind (set_at p i (ucast (drop_bit 8 c))) (\<lambda>q. set_at q (i + 1) (ucast c))"

definition reset_sum :: "bytes \<Rightarrow> nat \<Rightarrow> bytes result" where
  "reset_sum p i = rbind (set_at p i 0) (\<lambda>q. set_at q (i + 1) 0)"

section \<open>IPv4\<close>

definition updateIPChecksum :: "bytes \<Rightarrow> bytes result" where
  "updateIPChecksum p =
     rbind (reset_sum p 10) (\<lambda>p1.
     rbind (IPv4_PayloadOffset p1) (\<lambda>headerLen.
     rbind (sum_pairs p1 0 0 (int headerLen) 0) (\<lambda>sum.
       put_sum p1 10 (fold_sum sum))))"

definition IPv4_pseudoHeaderSum :: "bytes \<Rightarrow> int \<Rightarrow> u32 result" where
  "IPv4_pseudoHeaderSum p transportLen =
     rbind (sum_pairs p 12 0 8 0) (\<lambda>sum. rbind (at p 9) (\<lambda>proto.
       Inr (sum + ucast proto + of_int transportLen)))"

definition IPv4_updateTCPChecksum :: "bytes \<Rightarrow> bytes result" where
  "IPv4_updateTCPChecksum p =
     rbind (IPv4_PayloadOffset p) (\<lambda>offset.
     rbind (IPv4_TotalLength p) (\<lambda>total.
       let tcpLen = int total - int offset
       in rbind (reset_sum p (offset + 16)) (\<lambda>p1.
          rbind (IPv4_pseudoHeaderSum p1 tcpLen) (\<lambda>sum.
          rbind (segment_sum p1 offset tcpLen sum) (\<lambda>sum1.
            put_sum p1 (offset + 16) (fold_sum sum1))))))"

definition nonzero_sum :: "u16 \<Rightarrow> u16" where
  "nonzero_sum c = (if c = 0 then 0xffff else c)"

definition IPv4_updateUDPChecksum :: "bytes \<Rightarrow> bytes result" where
  "IPv4_updateUDPChecksum p =
     rbind (IPv4_PayloadOffset p) (\<lambda>offset.
       if length p < offset + 8 then Inr p
       else let udpLen = unat (get16 p (offset + 4))
       in if offset + udpLen > length p then Inr p
          else rbind (reset_sum p (offset + 6)) (\<lambda>p1.
               rbind (IPv4_pseudoHeaderSum p1 (int udpLen)) (\<lambda>sum.
               rbind (segment_sum p1 offset (int udpLen) sum) (\<lambda>sum1.
                 put_sum p1 (offset + 6) (nonzero_sum (fold_sum sum1))))))"

text \<open>The odd last byte of an ICMP message is left out.\<close>

definition IPv4_updateICMPChecksum :: "bytes \<Rightarrow> bytes result" where
  "IPv4_updateICMPChecksum p =
     rbind (IPv4_PayloadOffset p) (\<lambda>offset.
     rbind (IPv4_TotalLength p) (\<lambda>total.
       let icmpLen = int total - int offset
       in rbind (reset_sum p (offset + 2)) (\<lambda>p1.
          rbind (sum_pairs p1 offset 0 (icmpLen - 1) 0) (\<lambda>sum.
            put_sum p1 (offset + 2) (fold_sum sum)))))"

definition IPv4_UpdateChecksum :: "bytes \<Rightarrow> bytes result" where
  "IPv4_UpdateChecksum p =
     rbind (IPv4_TotalLength p) (\<lambda>total.
       if total > length p then Inr p
       else rbind (updateIPChecksum p) (\<lambda>p1.
            rbind (IPv4_Protocol p1) (\<lambda>proto.
              if proto = 1 then IPv4_updateICMPChecksum p1
              else if proto = 6 then IPv4_updateTCPChecksum p1
              else if proto = 17 then IPv4_updateUDPChecksum p1
              else Inr p1)))"

section \<open>IPv6\<close>

definition IPv6_pseudoHeaderSum :: "bytes \<Rightarrow> byte \<Rightarrow> nat \<Rightarrow> u32 result" where
  "IPv6_pseudoHeaderSum p nextHeader upperLayerLen =
     rbind (sum_pairs p 0 8 24 0) (\<lambda>s1. rbind (sum_pairs p 0 24 40 s1) (\<lambda>s2.
       Inr (s2 + ucast (ucast (drop_bit 16 (of_nat upperLayerLen :: u32)) :: u16)
               + ucast (of_nat upperLayerLen :: u16) + ucast nextHeader)))"

text \<open>What the three protocols share: reset, pseudo header, segment, store.\<close>

definition IPv6_update :: "bytes \<Rightarrow> byte \<Rightarrow> nat \<Rightarrow> nat \<Rightarrow> nat \<Rightarrow> (u16 \<Rightarrow> u16) \<Rightarrow> bytes result" where
  "IPv6_update p proto offset n field final =
     rbind (reset_sum p (offset + field)) (\<lambda>p1.
     rbind (IPv6_pseudoHeaderSum p1 proto n) (\<lambda>sum.
     rbind (segment_sum p1 offset (int n) sum) (\<lambda>sum1.
       put_sum p1 (offset + field) (final (fold_sum sum1)))))"

definition IPv6_updateTCPChecksum :: "bytes \<Rightarrow> bytes result" where
  "IPv6_updateTCPChecksum p =
     (case transportHeader p of
        None \<Rightarrow> Inr p
      | Some (protocol, offset, tcpLen) \<Rightarrow>
          if protocol \<noteq> ipProtoTCP then Inr p
          else if length p < offset + 20 then Inr p
          else IPv6_update p ipProtoTCP offset tcpLen 16 (\<lambda>c. c))"

definition IPv6_updateUDPChecksum :: "bytes \<Rightarrow> bytes result" where
  "IPv6_updateUDPChecksum p =
     (case transportHeader p of
        None \<Rightarrow> Inr p
      | Some (protocol, offset, transportLen) \<Rightarrow>
          if protocol \<noteq> ipProtoUDP then Inr p
          else if length p < offset + 8 then Inr p
          else let field = unat (get16 p (offset + 4)); udpLen = (if field = 0 then transportLen else field)
          in if udpLen < 8 \<or> offset + udpLen > length p then Inr p
             else IPv6_update p ipProtoUDP offset udpLen 6 nonzero_sum)"

definition IPv6_updateICMPv6Checksum :: "bytes \<Rightarrow> nat \<Rightarrow> nat \<Rightarrow> bytes result" where
  "IPv6_updateICMPv6Checksum p offset icmpLen =
     (if length p < offset + 4 \<or> offset + icmpLen > length p \<or> icmpLen < 4 then Inr p
      else IPv6_update p ipProtoICMPv6 offset icmpLen 2 (\<lambda>c. c))"

definition IPv6_UpdateChecksum :: "bytes \<Rightarrow> bytes result" where
  "IPv6_UpdateChecksum p =
     (case transportHeader p of
        None \<Rightarrow> Inr p
      | Some (protocol, offset, transportLen) \<Rightarrow>
          if protocol = ipProtoTCP then IPv6_updateTCPChecksum p
          else if protocol = ipProtoUDP then IPv6_updateUDPChecksum p
          else if protocol = ipProtoICMPv6 then IPv6_updateICMPv6Checksum p offset transportLen
          else Inr p)"

fun UpdateChecksum :: "IPPacket \<Rightarrow> IPPacket result" where
  "UpdateChecksum (IPv4Packet p) = rbind (IPv4_UpdateChecksum p) (\<lambda>q. Inr (IPv4Packet q))"
| "UpdateChecksum (IPv6Packet p) = rbind (IPv6_UpdateChecksum p) (\<lambda>q. Inr (IPv6Packet q))"

section \<open>The reference sum\<close>

text \<open>RFC 1071: 16 bit words, the last one padded with a zero byte, added with end-around carry.\<close>

fun words16 :: "bytes \<Rightarrow> u16 list" where
  "words16 [] = []"
| "words16 [a] = [be16 a 0]"
| "words16 (a # b # bs) = be16 a b # words16 bs"

definition oc_add :: "u16 \<Rightarrow> u16 \<Rightarrow> u16" where
  "oc_add x y = (let s = x + y in if s < x then s + 1 else s)"

definition internet_sum :: "bytes \<Rightarrow> u16" where
  "internet_sum bs = foldl oc_add 0 (words16 bs)"

text \<open>The plain sum of the words, and its representative between 1 and 65535.\<close>

definition wsum :: "bytes \<Rightarrow> nat" where
  "wsum bs = sum_list (map unat (words16 bs))"

definition oc :: "nat \<Rightarrow> nat" where
  "oc n = (if n = 0 then 0 else (n - 1) mod 65535 + 1)"

lemma wsum_simps [simp]:
  "wsum [] = 0" "wsum [a] = 256 * unat a" "wsum (a # b # bs) = 256 * unat a + unat b + wsum bs"
  by (simp_all add: wsum_def unat_be16)

lemma wsum_append: "even (length xs) \<Longrightarrow> wsum (xs @ ys) = wsum xs + wsum ys"
  by (induction xs rule: words16.induct) simp_all

lemma wsum_bound: "wsum bs \<le> 65535 * ((length bs + 1) div 2)"
proof (induction bs rule: words16.induct)
  case (3 a b bs)
  then show ?case using unat_byte_less [of a] unat_byte_less [of b] by simp
qed (use unat_byte_less in \<open>auto simp: less_Suc_eq_le [symmetric] intro: le_trans [OF mult_le_mono2]\<close>)

lemma oc_le: "oc n \<le> 65535"
proof -
  have "(n - 1) mod 65535 < 65535" by (rule mod_less_divisor) simp
  then have "(n - 1) mod 65535 + 1 \<le> 65535" by linarith
  then show ?thesis by (simp add: oc_def)
qed

lemma oc_add_oc: "oc (oc m + n) = oc (m + n)"
proof (cases "m = 0")
  case False
  have "(m - 1 + n) mod 65535 = ((m - 1) mod 65535 + n) mod 65535" by (simp add: mod_add_left_eq)
  with False show ?thesis by (simp add: oc_def)
qed (simp add: oc_def)

lemma oc_id: "n \<le> 65535 \<Longrightarrow> oc n = n"
  by (simp add: oc_def)

lemma word16_bound: "unat (w :: u16) \<le> 65535"
  using unsigned_less [of w, where 'a = nat] by simp

lemma unat_oc_add: "unat (oc_add x y) = oc (unat x + unat y)"
proof -
  let ?m = "unat x + unat y"
  have s: "unat (x + y) = ?m mod 65536" "unat (x + y + 1) = (?m + 1) mod 65536"
    by (simp_all add: unat_word_ariths mod_simps)
  show ?thesis
  proof (cases "?m < 65536")
    case True
    then show ?thesis using s by (simp add: oc_add_def Let_def word_less_nat_alt oc_id)
  next
    case False
    have m: "?m \<le> 131070" using word16_bound [of x] word16_bound [of y] by simp
    have "?m mod 65536 = ?m - 65536" "(?m + 1) mod 65536 = ?m - 65535" "(?m - 1) mod 65535 = ?m - 65536"
      using False m by (simp_all add: mod_if)
    moreover have "?m - 65536 < unat x" "?m - 65535 = Suc (?m - 65536)"
      using False m word16_bound [of y] by linarith+
    ultimately show ?thesis using s False by (simp add: oc_add_def Let_def word_less_nat_alt oc_def)
  qed
qed

lemma unat_foldl_oc: "unat (foldl oc_add x ws) = oc (unat x + sum_list (map unat ws))"
proof (induction ws arbitrary: x)
  case Nil
  then show ?case by (simp add: oc_id word16_bound)
next
  case (Cons w ws)
  then show ?case by (simp add: unat_oc_add oc_add_oc add.assoc)
qed

lemma unat_internet_sum: "unat (internet_sum bs) = oc (wsum bs)"
  by (simp add: internet_sum_def unat_foldl_oc wsum_def)

section \<open>The folded sum is the reference sum\<close>

lemma unat_NOT16: "unat (NOT w :: u16) = 65535 - unat w"
proof -
  have "NOT w = of_nat (65535 - unat w)"
    using word16_bound [of w] by (simp add: not_eq_complement of_nat_diff)
  then show ?thesis by (simp only: unat_of_nat_eq) (simp add: unat_of_nat_eq)
qed

lemma unat_ucast_of_nat: "m < 2 ^ 32 \<Longrightarrow> unat (ucast (of_nat m :: u32) :: u16) = m mod 65536"
  by (simp add: unsigned_ucast_eq take_bit_eq_mod unat_of_nat_eq)

lemma fold_sum_eq:
  assumes "n < 2 ^ 32"
  shows "unat (fold_sum (of_nat n)) = 65535 - oc n"
proof -
  define q r where "q = n div 65536" and "r = n mod 65536"
  define s1 where "s1 = q + r"
  have qr: "q < 65536" "r < 65536" "n = 65536 * q + r"
    using assms by (simp_all add: q_def r_def less_mult_imp_div_less)
  then have s1: "s1 < 131071" "n = s1 + 65535 * q" by (simp_all add: s1_def)
  have d: "drop_bit 16 (of_nat n :: u32) = of_nat (n div 65536)" if "n < 2 ^ 32" for n :: nat
  proof -
    have "unat (drop_bit 16 (of_nat n :: u32)) = n div 65536"
      unfolding unat_drop_bit_eq using that by (simp add: unat_of_nat_eq drop_bit_eq_div)
    moreover have "unat (of_nat (n div 65536) :: u32) = n div 65536"
      using that by (intro unat_of_nat_eq) simp
    ultimately show ?thesis by (simp add: word_unat_eq_iff)
  qed
  have m: "(of_nat n AND 0xffff :: u32) = of_nat (n mod 65536)"
  proof -
    have "(0xffff :: u32) = mask 16" by (simp add: mask_eq_exp_minus_1)
    then have "(of_nat n AND 0xffff :: u32) = take_bit 16 (of_nat n)" by (simp add: take_bit_eq_mask)
    also have "\<dots> = of_nat (take_bit 16 n)" by (simp only: of_nat_take_bit)
    also have "\<dots> = of_nat (n mod 65536)" by (simp only: take_bit_eq_mod) simp
    finally show ?thesis .
  qed
  have "fold_sum (of_nat n) = NOT (ucast (of_nat (s1 + s1 div 65536) :: u32))"
    using d [OF assms] d [of s1] s1(1) m by (simp add: fold_sum_def Let_def s1_def q_def r_def)
  moreover have "unat (ucast (of_nat (s1 + s1 div 65536) :: u32) :: u16) = (s1 + s1 div 65536) mod 65536"
    using s1(1) by (intro unat_ucast_of_nat) simp
  moreover have "(s1 + s1 div 65536) mod 65536 = oc n"
  proof -
    have "oc n = oc s1"
    proof (cases "s1 = 0")
      case True
      with s1 have "n = 0" by (simp add: s1_def)
      with True show ?thesis by simp
    next
      case False
      then have "n - 1 = s1 - 1 + q * 65535" using s1(2) by linarith
      then have "(n - 1) mod 65535 = (s1 - 1) mod 65535" by (simp only: mod_mult_self1)
      with False s1(2) show ?thesis by (simp add: oc_def)
    qed
    moreover have "(s1 + s1 div 65536) mod 65536 = oc s1"
    proof (cases "s1 < 65536")
      case True
      then show ?thesis by (simp add: oc_def)
    next
      case False
      then have "s1 div 65536 = 1" using s1(1) by (intro div_nat_eqI) simp_all
      moreover have "(s1 + 1) mod 65536 = s1 - 65535" "(s1 - 1) mod 65535 = s1 - 65536"
        using False s1(1) by (simp_all add: mod_if)
      ultimately show ?thesis using False by (simp add: oc_def)
    qed
    ultimately show ?thesis by simp
  qed
  ultimately show ?thesis by (simp add: unat_NOT16)
qed

section \<open>The loops compute the plain sum\<close>

lemma pair_word: "acc + push_bit 8 (ucast hi) + ucast lo = acc + (of_nat (256 * unat hi + unat lo) :: u32)"
  for hi lo :: byte
  by (simp add: push_bit_eq_mult)

lemma sum_pairs_eq:
  assumes "off + 2 * (j + k) \<le> length p" "n = 2 * (int j + int k) \<or> n = 2 * (int j + int k) - 1"
  shows "sum_pairs p off (2 * int j) n acc = Inr (acc + of_nat (wsum (take (2 * k) (drop (off + 2 * j) p))))"
  using assms
proof (induction k arbitrary: j acc)
  case 0
  then show ?case by (subst sum_pairs.simps) auto
next
  case (Suc k)
  let ?m = "off + 2 * j"
  have lt: "2 * int j < n" using Suc.prems(2) by auto
  have idx: "?m + 1 < length p" using Suc.prems(1) by simp
  have split: "take (2 * Suc k) (drop ?m p) = p ! ?m # p ! (?m + 1) # take (2 * k) (drop (?m + 2) p)"
    using idx by (simp flip: Cons_nth_drop_Suc)
  have nat: "nat (2 * int j) = 2 * j" by simp
  let ?w = "of_nat (256 * unat (p ! ?m) + unat (p ! (?m + 1)))"
  have "sum_pairs p off (2 * int j) n acc = sum_pairs p off (2 * int (j + 1)) n (acc + ?w)"
    using lt idx by (subst sum_pairs.simps) (simp only: nat at_Inr rbind_simps if_True pair_word, simp add: add.commute)
  also have "\<dots> = Inr (acc + ?w + of_nat (wsum (take (2 * k) (drop (off + 2 * (j + 1)) p))))"
    using Suc.prems by (intro Suc.IH) (auto simp: algebra_simps)
  finally show ?case unfolding split by (simp add: algebra_simps)
qed

lemma segment_sum_eq:
  assumes "off + n \<le> length p"
  shows "segment_sum p off (int n) acc = Inr (acc + of_nat (wsum (take n (drop off p))))"
proof (cases "even n")
  case True
  then obtain k where k: "n = 2 * k" by blast
  have "sum_pairs p off (2 * int 0) (int n - 1) acc = Inr (acc + of_nat (wsum (take (2 * k) (drop (off + 2 * 0) p))))"
    using assms k by (intro sum_pairs_eq) auto
  then show ?thesis by (simp add: segment_sum_def k)
next
  case False
  then obtain k where k: "n = 2 * k + 1" by (rule oddE)
  have "sum_pairs p off (2 * int 0) (int n - 1) acc = Inr (acc + of_nat (wsum (take (2 * k) (drop (off + 2 * 0) p))))"
    using assms k by (intro sum_pairs_eq) auto
  moreover have "take n (drop off p) = take (2 * k) (drop off p) @ [p ! (off + 2 * k)]"
    using assms k by (simp add: take_Suc_conv_app_nth)
  moreover have "(int n) mod 2 = 1" using k by presburger
  moreover have "nat (int n) = n" by simp
  ultimately show ?thesis
    using assms k by (simp add: segment_sum_def wsum_append push_bit_eq_mult)
qed



section \<open>Storing a checksum\<close>

lemma wsum_field:
  assumes "even k" "k + 1 < length xs"
  shows "wsum (xs[k := a, k + 1 := b]) = wsum (xs[k := 0, k + 1 := 0]) + 256 * unat a + unat b"
proof -
  have upd: "xs[k := x, k + 1 := y] = take k xs @ x # y # drop (k + 2) xs" for x y
    using assms(2) by (simp add: upd_conv_take_nth_drop take_Suc_conv_app_nth drop_update_cancel)
  show ?thesis
    using assms by (simp only: upd) (simp add: wsum_append)
qed

lemma oc_complement: "oc (n + (65535 - oc n)) = 65535"
proof (cases "n = 0")
  case False
  define d r where "d = (n - 1) div 65535" and "r = (n - 1) mod 65535"
  have r: "r < 65535" "n - 1 = 65535 * d + r" by (simp_all add: d_def r_def)
  have "oc n = r + 1" using False by (simp add: oc_def r_def)
  then have eq: "n + (65535 - oc n) = Suc (65534 + d * 65535)" using r False by linarith
  show ?thesis unfolding eq by (simp only: oc_def) simp
qed (simp add: oc_def)

lemma oc_complement_nonzero: "oc n = 65535 \<Longrightarrow> oc (n + 65535) = 65535"
  using oc_add_oc [of n 65535] by (simp add: oc_def)

text \<open>What a transport checksum must be, for \<open>S\<close> the plain sum of the pseudo header.\<close>

definition closes :: "nat \<Rightarrow> bytes \<Rightarrow> bool" where
  "closes S xs \<longleftrightarrow> oc (S + wsum xs) = 65535"

lemma field_closes:
  assumes range: "off + n \<le> length p" "k + 2 \<le> n" "even k" and small: "S + wsum (take n (drop off p1)) < 2 ^ 32"
    and p1: "p1 = p[off + k := 0, off + k + 1 := 0]"
    and c: "c = fold_sum (of_nat (S + wsum (take n (drop off p1)))) \<or>
            c = nonzero_sum (fold_sum (of_nat (S + wsum (take n (drop off p1)))))"
  shows "\<exists>q. put_sum p1 (off + k) c = Inr q \<and> length q = length p \<and>
    (\<forall>i < length p. i \<noteq> off + k \<and> i \<noteq> off + k + 1 \<longrightarrow> q ! i = p ! i) \<and>
    get16 q (off + k) = c \<and> closes S (take n (drop off q))"
proof -
  let ?xs = "take n (drop off p)" let ?hi = "ucast (drop_bit 8 c) :: byte" let ?lo = "ucast c :: byte"
  let ?q = "p1[off + k := ?hi, off + k + 1 := ?lo]"
  have q: "?q = p[off + k := ?hi, off + k + 1 := ?lo]"
    using range by (auto simp: p1 list_eq_iff_nth_eq nth_list_update)
  have seg: "take n (drop off (p[off + k := x, off + k + 1 := y])) = ?xs[k := x, k + 1 := y]" for x y
    by (simp add: drop_update_swap take_update_swap)
  let ?N = "S + wsum (take n (drop off p1))"
  have w: "wsum (take n (drop off ?q)) = wsum (take n (drop off p1)) + unat c"
    using wsum_field [OF range(3), of ?xs ?hi ?lo] range unat_be16 [of ?hi ?lo]
    unfolding q unfolding p1 seg by (simp add: be_simps)
  have f: "unat (fold_sum (of_nat ?N)) = 65535 - oc ?N" using small by (rule fold_sum_eq)
  have "oc (?N + unat c) = 65535"
  proof (cases "c = fold_sum (of_nat ?N)")
    case True
    then show ?thesis using f oc_complement [of ?N] by simp
  next
    case False
    then have "fold_sum (of_nat ?N) = 0" "c = 0xffff" using c by (auto simp: nonzero_sum_def split: if_splits)
    then show ?thesis using f oc_le [of ?N] oc_complement_nonzero [of ?N] by simp
  qed
  then have "closes S (take n (drop off ?q))" unfolding closes_def w by (simp only: add.assoc)
  moreover have "get16 ?q (off + k) = c" using range by (simp add: get16_def p1 be_simps)
  moreover have "put_sum p1 (off + k) c = Inr ?q" using range by (simp add: put_sum_def p1)
  ultimately show ?thesis by (intro exI [of _ ?q]) (simp add: p1)
qed

section \<open>Updated packets pass the receiver's check\<close>

definition pseudo4 :: "bytes \<Rightarrow> nat \<Rightarrow> bytes" where
  "pseudo4 p n = take 8 (drop 12 p) @ [0, p ! 9] @ put16 (of_nat n)"

definition pseudo6 :: "bytes \<Rightarrow> byte \<Rightarrow> nat \<Rightarrow> bytes" where
  "pseudo6 p proto n = take 16 (drop 8 p) @ take 16 (drop 24 p) @ put32 (of_nat n) @ [0, proto]"

definition header_len :: "bytes \<Rightarrow> nat" where
  "header_len p = 4 * unat (p ! 0 AND 0x0F)"

definition total_len :: "bytes \<Rightarrow> nat" where
  "total_len p = unat (get16 p 2)"

lemma closes_internet:
  "even (length ps) \<Longrightarrow> internet_sum (ps @ xs) = 0xffff \<longleftrightarrow> closes (wsum ps) xs"
  by (simp add: word_unat_eq_iff unat_internet_sum closes_def wsum_append)

lemma closes_internet0: "internet_sum xs = 0xffff \<longleftrightarrow> closes 0 xs"
  using closes_internet [of "[]" xs] by simp

lemma wsum_put16: "n < 65536 \<Longrightarrow> wsum (put16 (of_nat n)) = n"
  using unat_be16 [of "ucast (drop_bit 8 (of_nat n :: u16))" "ucast (of_nat n :: u16)"]
  by (simp add: put16_def be_simps unat_of_nat_eq)

lemma wsum_pseudo4:
  "20 \<le> length p \<Longrightarrow> n < 65536 \<Longrightarrow> wsum (pseudo4 p n) = wsum (take 8 (drop 12 p)) + unat (p ! 9) + n"
  by (simp add: pseudo4_def wsum_append wsum_put16)

lemma put32_small: "n < 65536 \<Longrightarrow> put32 (of_nat n) = [0, 0] @ put16 (of_nat n)"
  by (simp add: put32_def put16_def word_unat_eq_iff unsigned_ucast_eq unat_div_distrib unat_of_nat_eq
      drop_bit_eq_div take_bit_eq_mod)

lemma wsum_pseudo6:
  assumes "40 \<le> length p" "n < 65536"
  shows "wsum (pseudo6 p proto n) = wsum (take 16 (drop 8 p)) + wsum (take 16 (drop 24 p)) + n + unat proto"
  using assms by (simp add: pseudo6_def wsum_append put32_small wsum_put16)

lemma wsum_small: "n < 65536 \<Longrightarrow> wsum (take n xs) \<le> 65535 * 32768"
  using wsum_bound [of "take n xs"] by (auto intro: le_trans [OF _ mult_le_mono2])

lemma reset_sum_Inr: "i + 1 < length p \<Longrightarrow> reset_sum p i = Inr (p[i := 0, i + 1 := 0])"
  by (simp add: reset_sum_def)

lemma sum_pairs_run:
  assumes "even a" "even b" "a \<le> b" "off + b \<le> length p"
  shows "sum_pairs p off (int a) (int b) acc = Inr (acc + of_nat (wsum (take (b - a) (drop (off + a) p))))"
proof -
  from assms(1,2) obtain j k where "a = 2 * j" "b = 2 * k" by (auto elim!: evenE)
  then show ?thesis
    using assms sum_pairs_eq [of off j "k - j" p "int b" acc] by (auto simp: of_nat_diff right_diff_distrib')
qed

text \<open>The steps of one transport checksum, for any way to find the sum of the pseudo header.\<close>

lemma transport_update:
  assumes range: "off + n \<le> length p" "k + 2 \<le> n" "even k" "n < 65536" and S: "S \<le> 65535 * 1000"
    and p1: "p1 = p[off + k := 0, off + k + 1 := 0]" and ps: "pseudo p1 = Inr (of_nat S)"
    and final: "final = (\<lambda>c. c) \<or> final = nonzero_sum"
  shows "\<exists>q. rbind (reset_sum p (off + k)) (\<lambda>p1. rbind (pseudo p1) (\<lambda>sum. rbind (segment_sum p1 off (int n) sum)
      (\<lambda>sum1. put_sum p1 (off + k) (final (fold_sum sum1))))) = Inr q \<and> length q = length p \<and>
    (\<forall>i < length p. i \<noteq> off + k \<and> i \<noteq> off + k + 1 \<longrightarrow> q ! i = p ! i) \<and>
    closes S (take n (drop off q)) \<and> (final = nonzero_sum \<longrightarrow> get16 q (off + k) \<noteq> 0)"
proof -
  let ?N = "S + wsum (take n (drop off p1))" let ?c = "final (fold_sum (of_nat ?N))"
  have small: "?N < 2 ^ 32" using S wsum_small [OF range(4), of "drop off p1"] by simp
  from field_closes [OF range(1-3) small p1, of ?c] final obtain q where
    q: "put_sum p1 (off + k) ?c = Inr q" "length q = length p"
      "\<forall>i < length p. i \<noteq> off + k \<and> i \<noteq> off + k + 1 \<longrightarrow> q ! i = p ! i"
      "get16 q (off + k) = ?c" "closes S (take n (drop off q))" by blast
  have "segment_sum p1 off (int n) (of_nat S) = Inr (of_nat ?N)"
    using segment_sum_eq [of off n p1 "of_nat S"] range(1) p1 by simp
  moreover have "reset_sum p (off + k) = Inr p1" using range reset_sum_Inr [of "off + k" p] p1 by simp
  ultimately show ?thesis using q ps by (auto simp: nonzero_sum_def)
qed

lemma pseudo4_sum:
  assumes "20 \<le> length p" "n < 65536"
  shows "IPv4_pseudoHeaderSum p (int n) = Inr (of_nat (wsum (pseudo4 p n)))"
  using assms sum_pairs_run [of 0 8 12 p 0]
  by (simp add: IPv4_pseudoHeaderSum_def wsum_pseudo4 add.commute add.left_commute)

lemma pseudo6_sum:
  assumes "40 \<le> length p" "n < 65536"
  shows "IPv6_pseudoHeaderSum p proto n = Inr (of_nat (wsum (pseudo6 p proto n)))"
proof -
  have "drop_bit 16 (of_nat n :: u32) = 0"
    using assms(2) by (simp add: word_unat_eq_iff unat_div_distrib unat_of_nat_eq drop_bit_eq_div)
  then have hi: "ucast (ucast (drop_bit 16 (of_nat n :: u32)) :: u16) = (0 :: u32)" by simp
  have lo: "ucast (of_nat n :: u16) = (of_nat n :: u32)"
    using assms(2) by (simp add: word_unat_eq_iff unsigned_ucast_eq unat_of_nat_eq take_bit_eq_mod)
  show ?thesis
    using assms sum_pairs_run [of 8 24 0 p 0] sum_pairs_run [of 24 40 0 p]
    by (simp add: IPv6_pseudoHeaderSum_def wsum_pseudo6 hi lo add.commute add.left_commute)
qed

end
