(* ===== verification/Net_Update.thy ===== *)
theory Net_Update
  imports Net_Checksum
begin

text \<open>
  Updated packets pass the receiver's check: what a well-formed packet is, what the receiver
  sums up, and the theorem about \<^verbatim>\<open>UpdateChecksum\<close> of both packet types. It also shows the case
  the code gets wrong, ICMP messages of odd length.
\<close>

section \<open>Well-formed packets and the receiver's check\<close>

fun packet_wf :: "IPPacket \<Rightarrow> bool" where
  "packet_wf (IPv4Packet p) \<longleftrightarrow> 20 \<le> header_len p \<and> header_len p \<le> total_len p \<and> total_len p \<le> length p \<and>
     (p ! 9 = 6 \<longrightarrow> header_len p + 20 \<le> total_len p) \<and>
     (p ! 9 = 17 \<longrightarrow> header_len p + 8 \<le> total_len p \<and> unat (get16 p (header_len p + 4)) = total_len p - header_len p) \<and>
     (p ! 9 = 1 \<longrightarrow> header_len p + 4 \<le> total_len p \<and> even (total_len p))"
| "packet_wf (IPv6Packet p) \<longleftrightarrow>
     (case transportHeader p of
        None \<Rightarrow> True
      | Some (proto, off, n) \<Rightarrow>
          (proto = ipProtoTCP \<longrightarrow> 20 \<le> n) \<and> (proto = ipProtoICMPv6 \<longrightarrow> 4 \<le> n) \<and>
          (proto = ipProtoUDP \<longrightarrow> 8 \<le> n \<and> unat (get16 p (off + 4)) \<in> {0, n}))"

definition field_at :: "byte \<Rightarrow> nat" where
  "field_at proto = (if proto = 6 then 16 else if proto = 17 then 6 else 2)"

text \<open>What a receiver checks, and where the checksums of a packet are.\<close>

fun checksum_valid :: "IPPacket \<Rightarrow> bool" where
  "checksum_valid (IPv4Packet q) \<longleftrightarrow>
     (let hl = header_len q; n = total_len q - hl
      in internet_sum (take hl q) = 0xffff \<and>
         (q ! 9 = 6 \<or> q ! 9 = 17 \<longrightarrow> internet_sum (pseudo4 q n @ take n (drop hl q)) = 0xffff) \<and>
         (q ! 9 = 1 \<longrightarrow> internet_sum (take n (drop hl q)) = 0xffff))"
| "checksum_valid (IPv6Packet q) \<longleftrightarrow>
     (case transportHeader q of
        None \<Rightarrow> True
      | Some (proto, off, n) \<Rightarrow> internet_sum (pseudo6 q proto n @ take n (drop off q)) = 0xffff)"

fun checksum_fields :: "IPPacket \<Rightarrow> nat set" where
  "checksum_fields (IPv4Packet p) =
     {10, 11} \<union> (if p ! 9 \<in> {1, 6, 17} then {header_len p + field_at (p ! 9), header_len p + field_at (p ! 9) + 1} else {})"
| "checksum_fields (IPv6Packet p) =
     (case transportHeader p of None \<Rightarrow> {} | Some (proto, off, n) \<Rightarrow> {off + field_at proto, off + field_at proto + 1})"

lemma closes_append: "even (length ps) \<Longrightarrow> closes 0 (ps @ xs) \<longleftrightarrow> closes (wsum ps) xs"
  by (simp add: closes_def wsum_append)

lemma take_eqI: "length q = length p \<Longrightarrow> (\<And>i. i < n \<Longrightarrow> i < length p \<Longrightarrow> q ! i = p ! i) \<Longrightarrow> take n q = take n p"
  by (auto simp: list_eq_iff_nth_eq)

lemma take_drop_eqI:
  "length q = length p \<Longrightarrow> (\<And>i. m \<le> i \<Longrightarrow> i < m + n \<Longrightarrow> i < length p \<Longrightarrow> q ! i = p ! i) \<Longrightarrow>
   take n (drop m q) = take n (drop m p)"
  by (auto simp: list_eq_iff_nth_eq)

lemma segment_sum_even: "even n \<Longrightarrow> segment_sum p off (int n) acc = sum_pairs p off 0 (int n - 1) acc"
  by (auto simp: segment_sum_def rbind_def split: sum.splits)

lemma header_update:
  assumes "20 \<le> header_len p" "header_len p \<le> length p"
  shows "\<exists>q. updateIPChecksum p = Inr q \<and> length q = length p \<and>
    (\<forall>i < length p. i \<noteq> 10 \<and> i \<noteq> 11 \<longrightarrow> q ! i = p ! i) \<and> closes 0 (take (header_len p) q)"
proof -
  let ?n = "header_len p" let ?p1 = "p[10 := 0, 11 := 0]"
  have lp: "20 \<le> length p" "p \<noteq> []" using assms by auto
  have n: "even ?n" "?n < 65536"
    using unat_byte_less [of "p ! 0 AND 0x0F"] by (simp_all add: header_len_def)
  have "sum_pairs ?p1 0 (int 0) (int ?n) 0 = Inr (of_nat (wsum (take ?n ?p1)))"
    using sum_pairs_run [of 0 ?n 0 ?p1 0] n assms by simp
  moreover have "IPv4_PayloadOffset ?p1 = Inr ?n" using lp by (simp add: IPv4_PayloadOffset_def header_len_def)
  moreover have "reset_sum p 10 = Inr ?p1" using lp reset_sum_Inr [of 10 p] by simp
  moreover have "0 + wsum (take ?n (drop 0 ?p1)) < 2 ^ 32" using wsum_small [OF n(2), of ?p1] by simp
  from field_closes [OF _ _ _ this, of p 10 "fold_sum (of_nat (wsum (take ?n ?p1)))"] assms obtain q where
    "put_sum ?p1 10 (fold_sum (of_nat (wsum (take ?n ?p1)))) = Inr q" "length q = length p"
    "\<forall>i < length p. i \<noteq> 10 \<and> i \<noteq> 11 \<longrightarrow> q ! i = p ! i" "closes 0 (take ?n q)" by auto
  ultimately show ?thesis by (simp add: updateIPChecksum_def)
qed

lemma IPv4_update_valid:
  assumes "packet_wf (IPv4Packet p)"
  shows "\<exists>q. IPv4_UpdateChecksum p = Inr q \<and> checksum_valid (IPv4Packet q) \<and> length q = length p \<and>
    (\<forall>i < length p. i \<notin> checksum_fields (IPv4Packet p) \<longrightarrow> q ! i = p ! i)"
proof -
  let ?hl = "header_len p" let ?t = "total_len p" let ?n = "?t - ?hl"
  have wf: "20 \<le> ?hl" "?hl \<le> ?t" "?t \<le> length p" using assms by simp_all
  have n: "?n < 65536" using word16_bound [of "get16 p 2"] by (simp add: total_len_def)
  from header_update [OF wf(1)] wf obtain p1 where p1: "updateIPChecksum p = Inr p1" "length p1 = length p"
    "\<forall>i < length p. i \<noteq> 10 \<and> i \<noteq> 11 \<longrightarrow> p1 ! i = p ! i" "closes 0 (take ?hl p1)" by auto
  have lp: "20 \<le> length p" "p1 \<noteq> []" "p \<noteq> []" using wf p1(2) by auto
  have same: "p1 ! 9 = p ! 9" "IPv4_PayloadOffset p1 = Inr ?hl" "IPv4_TotalLength p1 = Inr ?t"
    using p1(2,3) lp by (simp_all add: IPv4_PayloadOffset_def IPv4_TotalLength_def header_len_def total_len_def get16_def)
  have valid: "checksum_valid (IPv4Packet q) \<and> (\<forall>i < length p. i \<notin> checksum_fields (IPv4Packet p) \<longrightarrow> q ! i = p ! i)"
    if q: "length q = length p" "\<forall>i < length p. i \<notin> (if p ! 9 \<in> {1, 6, 17}
        then {?hl + field_at (p ! 9), ?hl + field_at (p ! 9) + 1} else {}) \<longrightarrow> q ! i = p1 ! i"
      "p ! 9 = 6 \<or> p ! 9 = 17 \<Longrightarrow> closes (wsum (pseudo4 p1 ?n)) (take ?n (drop ?hl q))"
      "p ! 9 = 1 \<Longrightarrow> closes 0 (take ?n (drop ?hl q))" for q
  proof -
    have low: "q ! i = p1 ! i" if "i < ?hl" for i
      using q(2) that wf by (auto split: if_splits)
    have "q ! i = p ! i" if "i \<in> {0, 2, 3, 9}" for i
      using low [of i] p1(3) wf(1) lp that by auto
    then have h: "header_len q = ?hl" "total_len q = ?t" "q ! 9 = p ! 9"
      by (simp_all add: header_len_def total_len_def get16_def)
    have "take ?hl q = take ?hl p1" using low q(1) p1(2) by (intro take_eqI) simp_all
    moreover have "pseudo4 q ?n = pseudo4 p1 ?n"
      using low wf q(1) p1(2) take_drop_eqI [of q p1 12 8] by (simp add: pseudo4_def)
    moreover have "even (length (pseudo4 p1 ?n))" using wf p1(2) by (simp add: pseudo4_def)
    ultimately have "checksum_valid (IPv4Packet q)"
      using q(3,4) p1(4) by (simp add: Let_def h closes_internet0 closes_append)
    moreover have "\<forall>i < length p. i \<notin> checksum_fields (IPv4Packet p) \<longrightarrow> q ! i = p ! i"
      using q(2) p1(3) by auto
    ultimately show ?thesis by blast
  qed
  have pseudo: "IPv4_pseudoHeaderSum (p1[?hl + k := 0, ?hl + k + 1 := 0]) (int ?n) = Inr (of_nat (wsum (pseudo4 p1 ?n)))" for k
  proof -
    have "pseudo4 (p1[?hl + k := 0, ?hl + k + 1 := 0]) ?n = pseudo4 p1 ?n"
      using wf p1(2) take_drop_eqI [of "p1[?hl + k := 0, ?hl + k + 1 := 0]" p1 12 8] by (simp add: pseudo4_def)
    then show ?thesis using pseudo4_sum [of "p1[?hl + k := 0, ?hl + k + 1 := 0]" ?n] wf n p1(2) by simp
  qed
  have "length (pseudo4 p1 ?n) = 12" using lp(1) p1(2) by (simp add: pseudo4_def)
  then have S: "wsum (pseudo4 p1 ?n) \<le> 65535 * 1000" using wsum_bound [of "pseudo4 p1 ?n"] by simp
  have len: "int ?t - int ?hl = int ?n" using wf by simp
  note upd = IPv4_UpdateChecksum_def IPv4_TotalLength_def [of p] IPv4_Protocol_def same p1(1) len
  note tu = transport_update [of ?hl ?n p1 _ _ _ "\<lambda>x. IPv4_pseudoHeaderSum x (int ?n)", OF _ _ _ n S refl pseudo]
  consider "p ! 9 = 6" | "p ! 9 = 17" | "p ! 9 = 1" | "p ! 9 \<notin> {1, 6, 17}" by auto
  then show ?thesis
  proof cases
    case 1
    have r: "?hl + ?n \<le> length p1" "16 + 2 \<le> ?n" using 1 assms p1(2) by auto
    have "\<exists>q. IPv4_updateTCPChecksum p1 = Inr q \<and> length q = length p1 \<and>
        (\<forall>i < length p1. i \<noteq> ?hl + 16 \<and> i \<noteq> ?hl + 16 + 1 \<longrightarrow> q ! i = p1 ! i) \<and>
        closes (wsum (pseudo4 p1 ?n)) (take ?n (drop ?hl q))"
      unfolding IPv4_updateTCPChecksum_def same rbind_simps Let_def len
      using tu [OF r, of "\<lambda>c. c"] by auto
    then obtain q where
      q: "IPv4_updateTCPChecksum p1 = Inr q" "length q = length p1"
        "\<forall>i < length p1. i \<noteq> ?hl + 16 \<and> i \<noteq> ?hl + 16 + 1 \<longrightarrow> q ! i = p1 ! i"
        "closes (wsum (pseudo4 p1 ?n)) (take ?n (drop ?hl q))" by blast
    with valid [of q] 1 lp p1(2) wf show ?thesis by (simp add: upd field_at_def total_len_def)
  next
    case 2
    have r: "?hl + ?n \<le> length p1" "6 + 2 \<le> ?n" using 2 assms p1(2) by auto
    have u: "unat (get16 p1 (?hl + 4)) = ?n" using 2 assms p1(3) by (simp add: get16_def)
    have "\<exists>q. IPv4_updateUDPChecksum p1 = Inr q \<and> length q = length p1 \<and>
        (\<forall>i < length p1. i \<noteq> ?hl + 6 \<and> i \<noteq> ?hl + 6 + 1 \<longrightarrow> q ! i = p1 ! i) \<and>
        closes (wsum (pseudo4 p1 ?n)) (take ?n (drop ?hl q))"
      unfolding IPv4_updateUDPChecksum_def same rbind_simps Let_def len
      using tu [OF r, of nonzero_sum] r by (auto simp: u)
    then obtain q where
      q: "IPv4_updateUDPChecksum p1 = Inr q" "length q = length p1"
        "\<forall>i < length p1. i \<noteq> ?hl + 6 \<and> i \<noteq> ?hl + 6 + 1 \<longrightarrow> q ! i = p1 ! i"
        "closes (wsum (pseudo4 p1 ?n)) (take ?n (drop ?hl q))" by blast
    with valid [of q] 2 lp p1(2) wf show ?thesis by (simp add: upd field_at_def total_len_def)
  next
    case 3
    have r: "?hl + ?n \<le> length p1" "2 + 2 \<le> ?n" using 3 assms p1(2) by auto
    have ev: "even ?n" using 3 assms by (simp add: header_len_def)
    have "\<exists>q. IPv4_updateICMPChecksum p1 = Inr q \<and> length q = length p1 \<and>
        (\<forall>i < length p1. i \<noteq> ?hl + 2 \<and> i \<noteq> ?hl + 2 + 1 \<longrightarrow> q ! i = p1 ! i) \<and>
        closes 0 (take ?n (drop ?hl q))"
      unfolding IPv4_updateICMPChecksum_def same rbind_simps Let_def len
      using transport_update [OF r, of 0 _ "\<lambda>_. Inr 0" "\<lambda>c. c"] n by (auto simp: segment_sum_even [OF ev])
    then obtain q where
      q: "IPv4_updateICMPChecksum p1 = Inr q" "length q = length p1"
        "\<forall>i < length p1. i \<noteq> ?hl + 2 \<and> i \<noteq> ?hl + 2 + 1 \<longrightarrow> q ! i = p1 ! i"
        "closes 0 (take ?n (drop ?hl q))" by blast
    with valid [of q] 3 lp p1(2) wf show ?thesis by (simp add: upd field_at_def total_len_def)
  next
    case 4
    with valid [of p1] p1(2) lp wf show ?thesis by (simp add: upd total_len_def)
  qed
qed

lemma ext_walk_cong:
  "ext_walk p fin nh offset = Some (proto, off, n) \<Longrightarrow> fin \<le> length p \<Longrightarrow> \<forall>i < off. q ! i = p ! i \<Longrightarrow>
   ext_walk q fin nh offset = Some (proto, off, n)"
proof (induction p fin nh offset rule: ext_walk.induct)
  case (1 p fin nh offset)
  let ?upper = "{ipProtoTCP, ipProtoUDP, ipProtoICMPv6}"
  let ?ext = "{ipProtoHopByHop, ipProtoRouting, ipProtoDestOpts, ipProtoMobility, ipProtoHIP, ipProtoShim6}"
  note eq = 1(4) [unfolded ext_walk.simps [of p fin nh offset] Let_def]
  consider "nh \<in> ?upper" | "nh \<notin> ?upper" "nh \<in> ?ext" | "nh \<notin> ?upper" "nh \<notin> ?ext" "nh = ipProtoFragment"
    | "nh \<notin> ?upper" "nh \<notin> ?ext" "nh \<noteq> ipProtoFragment" "nh = ipProtoAH"
    using eq by (auto split: if_splits)
  then show ?case
  proof cases
    case 1
    with eq show ?thesis by (subst ext_walk.simps) (simp split: if_splits)
  next
    case 2
    let ?next = "offset + (unat (p ! (offset + 1)) + 1) * 8"
    have h: "\<not> fin < offset + 2" "\<not> fin < ?next" "ext_walk p fin (p ! offset) ?next = Some (proto, off, n)"
      using eq 2 by (simp_all del: mult_Suc_right split: if_splits)
    have "?next \<le> off" using ext_walk_bounds [OF h(3)] by simp
    then have "q ! offset = p ! offset" "q ! (offset + 1) = p ! (offset + 1)" using "1.prems"(3) by simp_all
    with "1.IH"(1) [OF 2 h(1) refl h(2,3) "1.prems"(2,3)] h 2 show ?thesis
      by (subst ext_walk.simps) (simp add: Let_def)
  next
    case 3
    have h: "\<not> fin < offset + 8" "\<not> drop_bit 3 (be16 (p ! (offset + 2)) (p ! (offset + 3))) \<noteq> 0"
      "ext_walk p fin (p ! offset) (offset + 8) = Some (proto, off, n)"
      using eq 3 by (simp_all split: if_splits)
    have "offset + 8 \<le> off" using ext_walk_bounds [OF h(3)] by simp
    then have "q ! offset = p ! offset" "q ! (offset + 2) = p ! (offset + 2)" "q ! (offset + 3) = p ! (offset + 3)"
      using "1.prems"(3) by simp_all
    with "1.IH"(2) [OF 3 h "1.prems"(2,3)] h 3 show ?thesis
      by (subst ext_walk.simps) (simp add: ip6_consts)
  next
    case 4
    let ?next = "offset + (unat (p ! (offset + 1)) + 2) * 4"
    have h: "\<not> fin < offset + 2" "\<not> fin < ?next" "ext_walk p fin (p ! offset) ?next = Some (proto, off, n)"
      using eq 4 by (simp_all del: mult_Suc_right split: if_splits)
    have "?next \<le> off" using ext_walk_bounds [OF h(3)] by simp
    then have "q ! offset = p ! offset" "q ! (offset + 1) = p ! (offset + 1)" using "1.prems"(3) by simp_all
    with "1.IH"(3) [OF 4 h(1) refl h(2,3) "1.prems"(2,3)] h 4 show ?thesis
      by (subst ext_walk.simps) (simp add: Let_def ip6_consts)
  qed
qed

lemma transportHeader_cong:
  assumes "transportHeader p = Some (proto, off, n)" "length q = length p" "\<forall>i < off. q ! i = p ! i"
  shows "transportHeader q = Some (proto, off, n)"
proof -
  have "40 \<le> off" using transportHeader_bounds [OF assms(1)] by simp
  then have "get16 q 4 = get16 p 4" "q ! 6 = p ! 6" using assms(3) by (simp_all add: get16_def)
  then show ?thesis
    using assms ext_walk_cong [of p _ "p ! 6" 40 proto off n q]
    by (auto simp: transportHeader_def Let_def split: if_splits)
qed

lemma IPv6_update_valid:
  assumes "packet_wf (IPv6Packet p)"
  shows "\<exists>q. IPv6_UpdateChecksum p = Inr q \<and> checksum_valid (IPv6Packet q) \<and> length q = length p \<and>
    (\<forall>i < length p. i \<notin> checksum_fields (IPv6Packet p) \<longrightarrow> q ! i = p ! i)"
proof (cases "transportHeader p")
  case None
  then show ?thesis by (simp add: IPv6_UpdateChecksum_def)
next
  case (Some r)
  obtain proto off n where th: "transportHeader p = Some (proto, off, n)" using Some by (cases r) auto
  note b = transportHeader_bounds [OF th]
  have n: "n < 65536"
  proof -
    from th have "ext_walk p (min (length p) (40 + unat (get16 p 4))) (p ! 6) 40 = Some (proto, off, n)"
      by (simp add: transportHeader_def Let_def split: if_splits)
    then show ?thesis using ext_walk_bounds [of p _ "p ! 6" 40 proto off n] b(1) word16_bound [of "get16 p 4"] by fastforce
  qed
  have lp: "40 \<le> length p" using b by linarith
  have S: "wsum (pseudo6 p proto n) \<le> 65535 * 1000"
  proof -
    have "length (pseudo6 p proto n) = 38" using lp by (simp add: pseudo6_def)
    then show ?thesis using wsum_bound [of "pseudo6 p proto n"] by simp
  qed
  have pseudo_eq: "pseudo6 q proto n = pseudo6 p proto n"
    if "length q = length p" "\<forall>i < off. q ! i = p ! i" for q
    using that b(1) take_drop_eqI [of q p 8 16] take_drop_eqI [of q p 24 16] by (simp add: pseudo6_def)
  have upd: "\<exists>q. IPv6_update p proto off n k final = Inr q \<and> checksum_valid (IPv6Packet q) \<and> length q = length p \<and>
      (\<forall>i < length p. i \<notin> checksum_fields (IPv6Packet p) \<longrightarrow> q ! i = p ! i)"
    if k: "k = field_at proto" "k + 2 \<le> n" "even k" and final: "final = (\<lambda>c. c) \<or> final = nonzero_sum" for k final
  proof -
    let ?p1 = "p[off + k := 0, off + k + 1 := 0]"
    have "IPv6_pseudoHeaderSum ?p1 proto n = Inr (of_nat (wsum (pseudo6 p proto n)))"
      using pseudo6_sum [of ?p1 n proto] pseudo_eq [of ?p1] lp n by simp
    from transport_update [of off n p k _ _ "\<lambda>x. IPv6_pseudoHeaderSum x proto n", OF b(3) k(2,3) n S refl this final]
    obtain q where q: "IPv6_update p proto off n k final = Inr q" "length q = length p"
      "\<forall>i < length p. i \<noteq> off + k \<and> i \<noteq> off + k + 1 \<longrightarrow> q ! i = p ! i"
      "closes (wsum (pseudo6 p proto n)) (take n (drop off q))"
      unfolding IPv6_update_def by blast
    have low: "\<forall>i < off. q ! i = p ! i" using q(3) b(3) by auto
    have "transportHeader q = Some (proto, off, n)" by (rule transportHeader_cong [OF th q(2) low])
    moreover have "even (length (pseudo6 p proto n))" using lp by (simp add: pseudo6_def)
    ultimately have "checksum_valid (IPv6Packet q)"
      using q(4) pseudo_eq [OF q(2) low] by (simp add: closes_internet0 closes_append)
    then show ?thesis using q th k(1) by auto
  qed
  consider "proto = ipProtoTCP" | "proto = ipProtoUDP" | "proto = ipProtoICMPv6" using b(4) by auto
  then show ?thesis
  proof cases
    case 1
    then have "20 \<le> n" using assms th by simp
    with 1 upd [of 16 "\<lambda>c. c"] th b show ?thesis
      by (simp add: IPv6_UpdateChecksum_def IPv6_updateTCPChecksum_def field_at_def ip6_consts)
  next
    case 2
    then have "8 \<le> n" "unat (get16 p (off + 4)) \<in> {0, n}" using assms th by simp_all
    with 2 upd [of 6 nonzero_sum] th b show ?thesis
      by (auto simp: IPv6_UpdateChecksum_def IPv6_updateUDPChecksum_def field_at_def ip6_consts Let_def)
  next
    case 3
    then have "4 \<le> n" using assms th by simp
    with 3 upd [of 2 "\<lambda>c. c"] th b show ?thesis
      by (simp add: IPv6_UpdateChecksum_def IPv6_updateICMPv6Checksum_def field_at_def ip6_consts)
  qed
qed



text \<open>
  The last byte of an ICMP message of odd length is not summed up, so that the receiver of
  such a message drops it.
\<close>

lemma icmp_odd_length_invalid:
  "\<exists>pkt'. UpdateChecksum (IPv4Packet
     [0x45, 0, 0, 29, 0, 1, 0, 0, 64, 1, 0, 0, 10, 0, 0, 1, 10, 0, 0, 2, 8, 0, 0, 0, 0, 1, 0, 1, 7]) = Inr pkt' \<and>
     \<not> checksum_valid pkt'"
proof -
  have "(case UpdateChecksum (IPv4Packet
     [0x45, 0, 0, 29, 0, 1, 0, 0, 64, 1, 0, 0, 10, 0, 0, 1, 10, 0, 0, 2, 8, 0, 0, 0, 0, 1, 0, 1, 7]) of
     Inl _ \<Rightarrow> False | Inr pkt' \<Rightarrow> \<not> checksum_valid pkt')"
    by code_simp
  then show ?thesis by (auto split: sum.splits)
qed

end
