(* ===== verification/Tunnel_Frame.thy ===== *)
theory Tunnel_Frame
  imports Net_Update "HOL-Library.Sublist"
begin

text \<open>
  Cutting a byte stream into IP packets, which the client (\<^verbatim>\<open>processInbound\<close> of
  \<^verbatim>\<open>pkg/client/handlers.go\<close>) and the server (\<^verbatim>\<open>handleInbound\<close> of \<^verbatim>\<open>pkg/server/handlers.go\<close>) do with
  the same two loops: the outer one reads into a 64 KB buffer, the inner one takes packets off
  its front. The body of the inner loop is a parameter here, and the locale \<open>framing\<close> says what
  it has to do with a whole packet and with the beginning of one. Its lemmas show that the loops
  then deliver every packet of the stream, however the reads cut it.
\<close>

section \<open>The loops\<close>

text \<open>
  The inner loop, from index \<open>processed\<close> of the buffer \<open>u\<close>. The body breaks (\<open>None\<close>) or goes on
  from a new index. \<open>None\<close> as the result means that the loop does not end.
\<close>

partial_function (option) frame_loop ::
  "(bytes \<Rightarrow> nat \<Rightarrow> 's \<Rightarrow> ('s \<times> nat) option result) \<Rightarrow> bytes \<Rightarrow> nat \<Rightarrow> 's \<Rightarrow> ('s \<times> nat) result option" where
  [code]: "frame_loop body u processed s =
     (if processed + 20 \<le> length u
      then (case body u processed s of
              Inl e \<Rightarrow> Some (Inl e)
            | Inr None \<Rightarrow> Some (Inr (s, processed))
            | Inr (Some (s', n)) \<Rightarrow> frame_loop body u n s')
      else Some (Inr (s, processed)))"

text \<open>What is left of the buffer; a negative remainder reaches the slice expression, which panics.\<close>

definition keep_rest :: "bytes \<Rightarrow> nat \<Rightarrow> bytes result" where
  "keep_rest u processed =
     (let remaining = int (length u) - int processed
      in if remaining = 0 then Inr [] else slice u processed (length u))"

definition read_packets :: "(bytes \<Rightarrow> nat \<Rightarrow> 's \<Rightarrow> ('s \<times> nat) option result) \<Rightarrow> bytes \<Rightarrow> 's \<Rightarrow> ('s \<times> bytes) result option" where
  "read_packets body u s =
     (case frame_loop body u 0 s of
        None \<Rightarrow> None
      | Some r \<Rightarrow> Some (rbind r (\<lambda>(s', processed). rbind (keep_rest u processed) (\<lambda>rest. Inr (s', rest)))))"

definition readBufferSize :: nat where
  "readBufferSize = 64 * 1024"

text \<open>
  The outer loop over a stream: the numbers say how much each call of \<^verbatim>\<open>Read\<close> is willing to
  return; it returns no more than there is and than fits behind the unprocessed bytes.
\<close>

fun inbound_loop ::
  "(bytes \<Rightarrow> nat \<Rightarrow> 's \<Rightarrow> ('s \<times> nat) option result) \<Rightarrow> nat list \<Rightarrow> bytes \<Rightarrow> bytes \<Rightarrow> 's \<Rightarrow> ('s \<times> bytes \<times> bytes) result option" where
  "inbound_loop body [] stream unprocessed s = Some (Inr (s, unprocessed, stream))"
| "inbound_loop body (k # ks) stream unprocessed s =
     (let n = min k (readBufferSize - length unprocessed)
      in case read_packets body (unprocessed @ take n stream) s of
           None \<Rightarrow> None
         | Some (Inl e) \<Rightarrow> Some (Inl e)
         | Some (Inr (s', rest)) \<Rightarrow> inbound_loop body ks (drop n stream) rest s')"

text \<open>
  The view of the front of the buffer as a packet. Any other version leaves a nil interface,
  on which the next call panics.
\<close>

definition packet_view :: "bytes \<Rightarrow> IPPacket result" where
  "packet_view v =
     rbind (IPv4_Version v) (\<lambda>version.
       if version = 4 then Inr (IPv4Packet v)
       else if version = 6 then Inr (IPv6Packet v)
       else Inl Panic)"

section \<open>The contract of a loop body\<close>

fun chained :: "('p \<Rightarrow> 's \<Rightarrow> 's \<Rightarrow> bool) \<Rightarrow> 'p list \<Rightarrow> 's \<Rightarrow> 's \<Rightarrow> bool" where
  "chained R [] s s' \<longleftrightarrow> s' = s"
| "chained R (p # ps) s s' \<longleftrightarrow> (\<exists>s1. R p s s1 \<and> chained R ps s1 s')"

lemma chained_append: "chained R (ps @ qs) s s' \<longleftrightarrow> (\<exists>s1. chained R ps s s1 \<and> chained R qs s1 s')"
  by (induction ps arbitrary: s) auto

locale framing =
  fixes body :: "bytes \<Rightarrow> nat \<Rightarrow> 's \<Rightarrow> ('s \<times> nat) option result"
    and good :: "bytes \<Rightarrow> bool"
    and inv :: "'s \<Rightarrow> bool"
    and delivers :: "bytes \<Rightarrow> 's \<Rightarrow> 's \<Rightarrow> bool"
  assumes good_length: "good p \<Longrightarrow> 20 \<le> length p \<and> length p \<le> readBufferSize"
    and body_whole: "good p \<Longrightarrow> inv s \<Longrightarrow>
      \<exists>s'. body (pre @ p @ post) (length pre) s = Inr (Some (s', length pre + length p)) \<and> delivers p s s' \<and> inv s'"
    and body_partial: "good p \<Longrightarrow> inv s \<Longrightarrow> strict_prefix q p \<Longrightarrow> 20 \<le> length q \<Longrightarrow>
      body (pre @ q) (length pre) s = Inr None"
begin

definition partial :: "bytes \<Rightarrow> bool" where
  "partial q \<longleftrightarrow> q = [] \<or> (\<exists>p. good p \<and> strict_prefix q p)"

lemma partial_length: "partial q \<Longrightarrow> length q < readBufferSize"
  unfolding partial_def using good_length prefix_length_less
  by (auto simp: readBufferSize_def) fastforce

lemma loop_partial:
  assumes "partial q" "inv s"
  shows "frame_loop body (pre @ q) (length pre) s = Some (Inr (s, length pre))"
proof (cases "20 \<le> length q")
  case True
  with assms obtain p where "good p" "strict_prefix q p" by (auto simp: partial_def)
  from body_partial [OF this(1) assms(2) this(2) True] show ?thesis
    by (simp add: frame_loop.simps)
qed (simp add: frame_loop.simps)

lemma loop_frames:
  assumes "list_all good ps" "partial q" "inv s"
  shows "\<exists>s'. frame_loop body (pre @ concat ps @ q) (length pre) s = Some (Inr (s', length pre + length (concat ps))) \<and>
    chained delivers ps s s' \<and> inv s'"
  using assms
proof (induction ps arbitrary: pre s)
  case Nil
  then show ?case using loop_partial [of q s pre] by simp
next
  case (Cons p ps)
  from body_whole [of p s pre "concat ps @ q"] Cons.prems obtain s1 where
    1: "body (pre @ p @ concat ps @ q) (length pre) s = Inr (Some (s1, length pre + length p))" "delivers p s s1" "inv s1"
    by auto
  from Cons.IH [of s1 "pre @ p"] Cons.prems 1(3) obtain s' where
    2: "frame_loop body (pre @ p @ concat ps @ q) (length pre + length p) s1 =
        Some (Inr (s', length pre + length p + length (concat ps)))" "chained delivers ps s1 s'" "inv s'"
    by auto
  have "20 \<le> length p" using good_length [of p] Cons.prems by simp
  then have "frame_loop body (pre @ p @ concat ps @ q) (length pre) s =
      Some (Inr (s', length pre + length p + length (concat ps)))"
    using 1(1) 2(1) by (subst frame_loop.simps) simp
  then show ?case using 1(2) 2(2,3) by (auto simp: add.assoc)
qed

lemma step_frames:
  assumes "list_all good ps" "partial q" "inv s"
  shows "\<exists>s'. read_packets body (concat ps @ q) s = Some (Inr (s', q)) \<and> chained delivers ps s s' \<and> inv s'"
proof -
  from loop_frames [OF assms, of "[]"] obtain s' where
    1: "frame_loop body (concat ps @ q) 0 s = Some (Inr (s', length (concat ps)))" "chained delivers ps s s'" "inv s'" by auto
  have "keep_rest (concat ps @ q) (length (concat ps)) = Inr q"
    by (auto simp: keep_rest_def Let_def)
  then show ?thesis using 1 by (auto simp: read_packets_def)
qed

text \<open>Any piece of a stream of packets is packets and the beginning of the next one.\<close>

lemma cut:
  assumes "prefix x (concat ps @ q)" "list_all good ps" "partial q"
  shows "\<exists>ps1 ps2 r. ps = ps1 @ ps2 \<and> x = concat ps1 @ r \<and> partial r \<and> prefix r (concat ps2 @ q)"
  using assms
proof (induction ps arbitrary: x)
  case Nil
  then have "partial x" using prefix_order.le_less_trans by (auto simp: partial_def)
  then show ?case using Nil by auto
next
  case (Cons p ps)
  show ?case
  proof (cases "strict_prefix x p")
    case True
    then have "partial x" using Cons.prems by (auto simp: partial_def)
    moreover have "prefix x (concat (p # ps) @ q)" using Cons.prems by simp
    ultimately show ?thesis by (intro exI [of _ "[]"] exI [of _ "p # ps"] exI [of _ x]) simp
  next
    case False
    then have "prefix p x"
      using Cons.prems(1) by (auto simp: prefix_append strict_prefix_def)
    then obtain y where y: "x = p @ y" by (auto simp: prefix_def)
    then have "prefix y (concat ps @ q)" using Cons.prems(1) by simp
    from Cons.IH [OF this] Cons.prems obtain ps1 ps2 r where
      "ps = ps1 @ ps2" "y = concat ps1 @ r" "partial r" "prefix r (concat ps2 @ q)" by auto
    then show ?thesis using y by (intro exI [of _ "p # ps1"] exI [of _ ps2] exI [of _ r]) simp
  qed
qed

lemma inbound_frames:
  assumes "list_all good ps" "partial q" "partial u" "inv s" "u @ stream = concat ps @ q"
  shows "\<exists>ps1 ps2 s' u' stream'. inbound_loop body ks stream u s = Some (Inr (s', u', stream')) \<and> ps = ps1 @ ps2 \<and>
    chained delivers ps1 s s' \<and> inv s' \<and> partial u' \<and> u' @ stream' = concat ps2 @ q \<and>
    (list_all (\<lambda>k. 0 < k) ks \<longrightarrow> length stream' \<le> length stream - length ks)"
  using assms
proof (induction ks arbitrary: ps u s stream)
  case Nil
  then show ?case by (auto intro: exI [of _ "[]"])
next
  case (Cons k ks)
  let ?n = "min k (readBufferSize - length u)"
  have "prefix (u @ take ?n stream) (concat ps @ q)"
    unfolding Cons.prems(5) [symmetric] by (simp add: take_is_prefix)
  from cut [OF this Cons.prems(1,2)] obtain ps1 ps2 r where
    r: "ps = ps1 @ ps2" "u @ take ?n stream = concat ps1 @ r" "partial r" by blast
  from step_frames [of ps1 r s] r Cons.prems obtain s1 where
    s1: "read_packets body (u @ take ?n stream) s = Some (Inr (s1, r))" "chained delivers ps1 s s1" "inv s1" by auto
  have "concat ps1 @ r @ drop ?n stream = u @ stream" using r(2) by (metis append.assoc append_take_drop_id)
  then have "r @ drop ?n stream = concat ps2 @ q" using Cons.prems(5) r(1) by simp
  from Cons.IH [OF _ Cons.prems(2) r(3) s1(3) this] Cons.prems(1) r(1) obtain ps3 ps4 s' u' stream' where
    "inbound_loop body ks (drop ?n stream) r s1 = Some (Inr (s', u', stream'))" "ps2 = ps3 @ ps4"
    "chained delivers ps3 s1 s'" "inv s'" "partial u'" "u' @ stream' = concat ps4 @ q"
    "list_all (\<lambda>k. 0 < k) ks \<longrightarrow> length stream' \<le> length (drop ?n stream) - length ks" by auto
  moreover have "0 < k \<Longrightarrow> 0 < ?n" using partial_length [OF Cons.prems(3)] by simp
  ultimately show ?case
    using s1 r(1) by (intro exI [of _ "ps1 @ ps3"] exI [of _ ps4]) (auto simp: chained_append Let_def)
qed

lemma inbound_all:
  assumes "list_all good ps" "inv s" "list_all (\<lambda>k. 0 < k) ks" "length (concat ps) \<le> length ks"
  shows "\<exists>s'. inbound_loop body ks (concat ps) [] s = Some (Inr (s', [], [])) \<and> chained delivers ps s s' \<and> inv s'"
proof -
  have p0: "partial []" by (simp add: partial_def)
  from inbound_frames [OF assms(1) p0 p0 assms(2), of "concat ps" ks] obtain ps1 ps2 s' u' st where
    0: "inbound_loop body ks (concat ps) [] s = Some (Inr (s', u', st))" "ps = ps1 @ ps2"
    "chained delivers ps1 s s'" "inv s'" "partial u'" "u' @ st = concat ps2"
    "list_all (\<lambda>k. 0 < k) ks \<longrightarrow> length st \<le> length (concat ps) - length ks" by auto
  have "st = []" using 0(7) assms(3,4) by simp
  note 1 = 0(1-6) [unfolded this append_Nil2]
  have "ps2 = []"
  proof (cases ps2)
    case (Cons p rest)
    have "20 \<le> length p" using assms(1) 1(2) Cons good_length [of p] by simp
    with 1(5,6) Cons obtain p' where p': "good p'" "strict_prefix (p @ concat rest) p'" by (auto simp: partial_def)
    have "good p" using assms(1) 1(2) Cons by simp
    from body_whole [OF this assms(2), of "[]" "concat rest"] body_partial [OF p'(1) assms(2) p'(2), of "[]"] \<open>20 \<le> length p\<close>
    show ?thesis by auto
  qed
  then show ?thesis using 1 by auto
qed

end

section \<open>Packets on the way\<close>

text \<open>A byte string that is one well-formed packet.\<close>

definition framed :: "bytes \<Rightarrow> bool" where
  "framed p \<longleftrightarrow> 20 \<le> length p \<and>
     (case packet_view p of
        Inl _ \<Rightarrow> False
      | Inr pkt \<Rightarrow> TotalLength pkt = Inr (length p) \<and> packet_wf pkt)"

datatype side = Source | Destination

fun addr_field :: "side \<Rightarrow> IPPacket \<Rightarrow> nat set" where
  "addr_field Source (IPv4Packet p) = {12..<16}"
| "addr_field Destination (IPv4Packet p) = {16..<20}"
| "addr_field Source (IPv6Packet p) = {8..<24}"
| "addr_field Destination (IPv6Packet p) = {24..<40}"

fun same_version :: "IPPacket \<Rightarrow> IPPacket \<Rightarrow> bool" where
  "same_version (IPv4Packet p) (IPv4Packet q) = True"
| "same_version (IPv6Packet p) (IPv6Packet q) = True"
| "same_version _ _ = False"

text \<open>
  A packet in a pool buffer conveys the bytes \<open>p\<close>: it has their length and version, all of them
  but the rewritten address and the checksums, and valid checksums.
\<close>

definition conveys :: "side \<Rightarrow> bytes \<Rightarrow> IPPacket \<Rightarrow> bool" where
  "conveys sd p pkt \<longleftrightarrow> length p \<le> length (Packet_Bytes pkt) \<and>
     (\<exists>pkt0. packet_view p = Inr pkt0 \<and> same_version pkt0 pkt) \<and>
     TotalLength pkt = Inr (length p) \<and> checksum_valid pkt \<and>
     (\<forall>i < length p. i \<notin> addr_field sd pkt \<longrightarrow> i \<notin> checksum_fields pkt \<longrightarrow> Packet_Bytes pkt ! i = p ! i)"

lemma ext_walk_agree:
  "\<forall>i. 40 \<le> i \<longrightarrow> i < fin \<longrightarrow> q ! i = p ! i \<Longrightarrow> 40 \<le> offset \<Longrightarrow> ext_walk q fin nh offset = ext_walk p fin nh offset"
proof (induction p fin nh offset rule: ext_walk.induct)
  case (1 p fin nh offset)
  have e: "q ! (offset + j) = p ! (offset + j)" if "offset + j < fin" for j using 1(4,5) that by simp
  let ?upper = "{ipProtoTCP, ipProtoUDP, ipProtoICMPv6}"
  let ?ext = "{ipProtoHopByHop, ipProtoRouting, ipProtoDestOpts, ipProtoMobility, ipProtoHIP, ipProtoShim6}"
  consider "nh \<in> ?upper" | "nh \<notin> ?upper" "nh \<in> ?ext" | "nh \<notin> ?upper" "nh \<notin> ?ext" "nh = ipProtoFragment"
    | "nh \<notin> ?upper" "nh \<notin> ?ext" "nh \<noteq> ipProtoFragment" by blast
  then show ?case
  proof cases
    case 1
    then show ?thesis by (simp add: ext_walk.simps [of _ fin _ offset])
  next
    case 2
    let ?n = "(unat (p ! (offset + 1)) + 1) * 8"
    show ?thesis
    proof (cases "offset + 2 > fin \<or> offset + ?n > fin")
      case False
      then have "ext_walk q fin (p ! offset) (offset + ?n) = ext_walk p fin (p ! offset) (offset + ?n)"
        using "1.IH"(1) [OF 2 _ refl] 1(4,5) by simp
      then show ?thesis using 2 False e [of 0] e [of 1]
        by (simp add: ext_walk.simps [of _ fin _ offset] del: mult_Suc_right)
    qed (use 2 e [of 0] e [of 1] in \<open>auto simp: ext_walk.simps [of _ fin _ offset]\<close>)
  next
    case 3
    show ?thesis
    proof (cases "offset + 8 > fin \<or> drop_bit 3 (be16 (p ! (offset + 2)) (p ! (offset + 3))) \<noteq> 0")
      case False
      then have "ext_walk q fin (p ! offset) (offset + 8) = ext_walk p fin (p ! offset) (offset + 8)"
        using "1.IH"(2) [OF 3] 1(4,5) by simp
      then show ?thesis using 3 False e [of 0] e [of 2] e [of 3]
        by (simp add: ext_walk.simps [of _ fin _ offset])
    qed (use 3 e [of 0] e [of 2] e [of 3] in \<open>auto simp: ext_walk.simps [of _ fin _ offset]\<close>)
  next
    case 4
    show ?thesis
    proof (cases "nh = ipProtoAH")
      case True
      note 5 = 4 True
      let ?n = "(unat (p ! (offset + 1)) + 2) * 4"
      show ?thesis
      proof (cases "offset + 2 > fin \<or> offset + ?n > fin")
        case False
        then have "ext_walk q fin (p ! offset) (offset + ?n) = ext_walk p fin (p ! offset) (offset + ?n)"
          using "1.IH"(3) [OF 5 _ refl] 1(4,5) by simp
        then show ?thesis using 5 False e [of 0] e [of 1]
          by (simp add: ext_walk.simps [of _ fin _ offset] del: mult_Suc_right)
      qed (use 5 e [of 0] e [of 1] in \<open>auto simp: ext_walk.simps [of _ fin _ offset]\<close>)
    qed (use 4 in \<open>simp add: ext_walk.simps [of _ fin _ offset]\<close>)
  qed
qed

lemma framed_cases:
  assumes "framed p"
  obtains (v4) "packet_view p = Inr (IPv4Packet p)" "IPv4_TotalLength p = Inr (length p)" "packet_wf (IPv4Packet p)" "20 \<le> length p"
  | (v6) "packet_view p = Inr (IPv6Packet p)" "length p = 40 + unat (get16 p 4)" "packet_wf (IPv6Packet p)" "40 \<le> length p"
proof -
  have lp: "20 \<le> length p" "p \<noteq> []" using assms by (auto simp: framed_def)
  show thesis
  proof (cases "packet_view p")
    case (Inr pkt)
    then consider "pkt = IPv4Packet p" | "pkt = IPv6Packet p"
      by (auto simp: packet_view_def go_simps split: if_splits)
    then show thesis
    proof cases
      case 1
      then show thesis using assms lp Inr by (intro v4) (simp_all add: framed_def)
    next
      case 2
      then have "IPv6_TotalLength p = Inr (length p)" using assms Inr by (simp add: framed_def)
      then have "length p = 40 + unat (get16 p 4)" using lp by (simp add: IPv6_TotalLength_def)
      then show thesis using assms Inr 2 by (intro v6) (simp_all add: framed_def del: packet_wf.simps)
    qed
  qed (use assms in \<open>simp add: framed_def\<close>)
qed

text \<open>The checksums of a rewritten packet in a longer buffer.\<close>

lemma update_conveys_v4:
  assumes p: "packet_view p = Inr (IPv4Packet p)" "IPv4_TotalLength p = Inr (length p)" "packet_wf (IPv4Packet p)" "20 \<le> length p"
    and b: "length p \<le> length b" "\<forall>i < length p. i \<notin> addr_field sd (IPv4Packet b) \<longrightarrow> b ! i = p ! i"
  shows "\<exists>q. UpdateChecksum (IPv4Packet b) = Inr (IPv4Packet q) \<and> conveys sd p (IPv4Packet q) \<and> length q = length b \<and>
    (\<forall>i \<in> addr_field sd (IPv4Packet b). q ! i = b ! i)"
proof -
  have low: "b ! i = p ! i" if "i < length p" "i < 12 \<or> 20 \<le> i" for i using b(2) that by (cases sd) auto
  have ne: "p \<noteq> []" using p(4) by auto
  have tp: "total_len p = length p" using p(2,4) by (simp add: IPv4_TotalLength_def total_len_def)
  have h: "header_len b = header_len p" "total_len b = total_len p" "b ! 9 = p ! 9"
    using low [of 0] low [of 2] low [of 3] low [of 9] p(4) ne by (simp_all add: header_len_def total_len_def get16_def)
  have g: "get16 b (header_len p + 4) = get16 p (header_len p + 4)" if "header_len p + 8 \<le> length p"
    using low [of "header_len p + 4"] low [of "header_len p + 4 + 1"] that p(3) unfolding get16_def by simp
  have "packet_wf (IPv4Packet b)" using p(3) b(1) g by (simp add: h tp)
  from IPv4_update_valid [OF this] obtain q where q: "IPv4_UpdateChecksum b = Inr q" "checksum_valid (IPv4Packet q)"
    "length q = length b" "\<forall>i < length b. i \<notin> checksum_fields (IPv4Packet b) \<longrightarrow> q ! i = b ! i" by blast
  have hl: "20 \<le> header_len p" using p(3) by simp
  have keep: "q ! i = b ! i" if "i < 20" "i \<noteq> 10" "i \<noteq> 11" for i
    using q(4) that hl b(1) p(4) by (simp add: h)
  have f: "checksum_fields (IPv4Packet q) = checksum_fields (IPv4Packet b)"
    using keep by (simp add: header_len_def)
  have "IPv4_TotalLength q = Inr (length p)"
    using keep [of 2] keep [of 3] low [of 2] low [of 3] p(2,4) q(3) b(1)
    by (simp add: IPv4_TotalLength_def get16_def)
  moreover have "q ! i = p ! i" if "i < length p" "i \<notin> addr_field sd (IPv4Packet q)" "i \<notin> checksum_fields (IPv4Packet q)" for i
    using that q(4) b f by (cases sd) (auto simp del: checksum_fields.simps)
  ultimately have "conveys sd p (IPv4Packet q)"
    using p(1) q(2,3) b(1) by (simp add: conveys_def del: checksum_fields.simps checksum_valid.simps)
  moreover have "\<forall>i \<in> addr_field sd (IPv4Packet b). q ! i = b ! i" using keep by (cases sd) auto
  ultimately show ?thesis using q(1,3) by simp
qed

lemma update_conveys_v6:
  assumes p: "packet_view p = Inr (IPv6Packet p)" "length p = 40 + unat (get16 p 4)" "packet_wf (IPv6Packet p)" "40 \<le> length p"
    and b: "length p \<le> length b" "\<forall>i < length p. i \<notin> addr_field sd (IPv6Packet b) \<longrightarrow> b ! i = p ! i"
  shows "\<exists>q. UpdateChecksum (IPv6Packet b) = Inr (IPv6Packet q) \<and> conveys sd p (IPv6Packet q) \<and> length q = length b \<and>
    (\<forall>i \<in> addr_field sd (IPv6Packet b). q ! i = b ! i)"
proof -
  have low: "b ! i = p ! i" if "i < length p" "i < 8 \<or> 40 \<le> i" for i using b(2) that by (cases sd) auto
  have g: "get16 b 4 = get16 p 4" "b ! 6 = p ! 6" using low p(4) by (simp_all add: get16_def)
  have "ext_walk b (length p) (p ! 6) 40 = ext_walk p (length p) (p ! 6) 40"
    using low by (intro ext_walk_agree) auto
  then have th: "transportHeader b = transportHeader p"
    using b(1) p(2,4) g by (simp add: transportHeader_def Let_def min_def)
  have "packet_wf (IPv6Packet b)"
  proof (cases "transportHeader p")
    case (Some r)
    then obtain proto off n where r: "transportHeader p = Some (proto, off, n)" by (cases r) auto
    note bd = transportHeader_bounds [OF r]
    have "get16 b (off + 4) = get16 p (off + 4)" if "8 \<le> n"
      using low [of "off + 4"] low [of "off + 4 + 1"] bd that unfolding get16_def by simp
    then show ?thesis using p(3) r th by auto
  qed (simp add: th)
  from IPv6_update_valid [OF this] obtain q where q: "IPv6_UpdateChecksum b = Inr q" "checksum_valid (IPv6Packet q)"
    "length q = length b" "\<forall>i < length b. i \<notin> checksum_fields (IPv6Packet b) \<longrightarrow> q ! i = b ! i" by blast
  have keep: "q ! i = b ! i" if "i < 40" for i
    using q(4) that b(1) p(4) transportHeader_bounds(1) [of b] by (auto split: option.splits)
  have f: "checksum_fields (IPv6Packet q) = checksum_fields (IPv6Packet b)"
  proof (cases "transportHeader b")
    case None
    then have "q = b" using q(1) by (simp add: IPv6_UpdateChecksum_def)
    then show ?thesis by simp
  next
    case (Some r)
    then obtain proto off n where r: "transportHeader b = Some (proto, off, n)" by (cases r) auto
    have "\<forall>i < off. q ! i = b ! i" using q(4) r transportHeader_bounds [OF r] by auto
    from transportHeader_cong [OF r q(3) this] r show ?thesis by simp
  qed
  have "IPv6_TotalLength q = Inr (length p)"
    using keep [of 4] keep [of 5] g p(2,4) q(3) b(1) by (simp add: IPv6_TotalLength_def get16_def)
  moreover have "q ! i = p ! i" if "i < length p" "i \<notin> addr_field sd (IPv6Packet q)" "i \<notin> checksum_fields (IPv6Packet q)" for i
    using that q(4) b f by (cases sd) (auto simp del: checksum_fields.simps)
  ultimately have "conveys sd p (IPv6Packet q)"
    using p(1) q(2,3) b(1) by (simp add: conveys_def del: checksum_fields.simps checksum_valid.simps)
  moreover have "\<forall>i \<in> addr_field sd (IPv6Packet b). q ! i = b ! i" using keep by (cases sd) auto
  ultimately show ?thesis using q(1,3) by simp
qed

lemma packet_view_iff:
  "packet_view v = Inr (IPv4Packet w) \<longleftrightarrow> w = v \<and> IPv4_Version v = Inr 4"
  "packet_view v = Inr (IPv6Packet w) \<longleftrightarrow> w = v \<and> IPv4_Version v = Inr 6"
  by (cases "IPv4_Version v"; auto simp: packet_view_def)+

text \<open>Twenty bytes are enough to recognise a packet and its length.\<close>

lemma view_front:
  assumes "framed p" "20 \<le> length v" "take 20 v = take 20 p"
  shows "packet_view v = Inr (IPv4Packet v) \<and> TotalLength (IPv4Packet v) = Inr (length p) \<and> packet_view p = Inr (IPv4Packet p) \<or>
    packet_view v = Inr (IPv6Packet v) \<and> TotalLength (IPv6Packet v) = Inr (length p) \<and> packet_view p = Inr (IPv6Packet p)"
proof -
  have lp: "20 \<le> length p" using assms(1) by (simp add: framed_def)
  then have ne: "p \<noteq> []" "v \<noteq> []" using assms(2) by auto
  have e: "v ! i = p ! i" if "i < 20" for i
    using assms(3) that by (metis nth_take)
  have "IPv4_Version v = IPv4_Version p" "get16 v 2 = get16 p 2" "get16 v 4 = get16 p 4"
    using e [of 0] e [of 2] e [of 3] e [of 4] e [of 5] lp ne assms(2) by (simp_all add: IPv4_Version_def at_def get16_def)
  note same = this
  from assms(1) show ?thesis
  proof (cases rule: framed_cases)
    case v4
    then show ?thesis using same assms(2) lp by (simp add: packet_view_iff IPv4_TotalLength_def)
  next
    case v6
    then show ?thesis using same assms(2) lp by (simp add: packet_view_iff IPv6_TotalLength_def)
  qed
qed

lemma copy_addr_ok:
  assumes "i \<le> j" "j \<le> length b"
  shows "\<exists>q. copy_addr b i j a = Inr q \<and> length q = length b \<and> (\<forall>k < length b. k < i \<or> j \<le> k \<longrightarrow> q ! k = b ! k) \<and>
    (\<forall>x. a = Some x \<longrightarrow> length x = j - i \<longrightarrow> take (j - i) (drop i q) = x)"
proof -
  let ?q = "splice b i (take (j - i) (case a of None \<Rightarrow> [] | Some x \<Rightarrow> x))"
  have "copy_addr b i j a = Inr ?q" using assms by (simp add: copy_addr_def)
  moreover have "?q ! k = b ! k" if "k < length b" "k < i \<or> j \<le> k" for k
    using that assms nth_splice [of k b i] by (auto split: option.splits)
  moreover have "take (j - i) (drop i (splice b i (take (j - i) x))) = x" if "length x = j - i" for x
    using that assms by (simp add: splice_fit)
  ultimately show ?thesis using assms by (intro exI [of _ ?q]) auto
qed

lemma fill_ok:
  assumes "length p \<le> length buf"
  shows "splice buf 0 p = p @ drop (length p) buf"
  using assms by (simp add: splice_def)

text \<open>
  A pool buffer with a packet in front, whose address is overwritten and whose checksums are
  brought up to date, conveys the packet.
\<close>

lemma rewritten_v4:
  assumes "framed p" "packet_view p = Inr (IPv4Packet p)" "length p \<le> length buf"
    "sd = Source \<and> (i, j) = (12, 16) \<or> sd = Destination \<and> (i, j) = (16, 20)"
  shows "\<exists>b q. copy_addr (p @ drop (length p) buf) i j a = Inr b \<and> UpdateChecksum (IPv4Packet b) = Inr (IPv4Packet q) \<and>
    conveys sd p (IPv4Packet q) \<and> length q = length buf \<and>
    (\<forall>x. a = Some x \<longrightarrow> length x = j - i \<longrightarrow> slice q i j = Inr x)"
proof -
  have p: "IPv4_TotalLength p = Inr (length p)" "packet_wf (IPv4Packet p)" "20 \<le> length p"
    using assms(1,2) by (cases rule: framed_cases; simp)+
  let ?b0 = "p @ drop (length p) buf"
  have ij: "i \<le> j" "j \<le> 20" using assms(4) by auto
  from copy_addr_ok [OF ij(1), of ?b0 a] ij p(3) obtain b where b: "copy_addr ?b0 i j a = Inr b" "length b = length buf"
    "\<forall>k < length buf. k < i \<or> j \<le> k \<longrightarrow> b ! k = ?b0 ! k" "\<forall>x. a = Some x \<longrightarrow> length x = j - i \<longrightarrow> take (j - i) (drop i b) = x"
    using assms(3) by auto
  have "\<forall>k < length p. k \<notin> addr_field sd (IPv4Packet b) \<longrightarrow> b ! k = p ! k"
    using b(3) assms(3,4) by (auto simp: nth_append)
  from update_conveys_v4 [OF assms(2) p _ this] b(2) assms(3) obtain q where
    q: "UpdateChecksum (IPv4Packet b) = Inr (IPv4Packet q)" "conveys sd p (IPv4Packet q)" "length q = length buf"
    "\<forall>k \<in> addr_field sd (IPv4Packet b). q ! k = b ! k" by auto
  have "take (j - i) (drop i q) = take (j - i) (drop i b)"
    using q(3,4) b(2) assms(4) by (intro take_drop_eqI) auto
  then have "slice q i j = Inr x" if "a = Some x" "length x = j - i" for x
    using b(4) that ij p(3) q(3) assms(3) by simp
  then show ?thesis using b(1) q by blast
qed

lemma rewritten_v6:
  assumes "framed p" "packet_view p = Inr (IPv6Packet p)" "length p \<le> length buf"
    "sd = Source \<and> (i, j) = (8, 24) \<or> sd = Destination \<and> (i, j) = (24, 40)"
  shows "\<exists>b q. copy_addr (p @ drop (length p) buf) i j a = Inr b \<and> UpdateChecksum (IPv6Packet b) = Inr (IPv6Packet q) \<and>
    conveys sd p (IPv6Packet q) \<and> length q = length buf \<and>
    (\<forall>x. a = Some x \<longrightarrow> length x = j - i \<longrightarrow> slice q i j = Inr x)"
proof -
  have p: "length p = 40 + unat (get16 p 4)" "packet_wf (IPv6Packet p)" "40 \<le> length p"
    using assms(1,2) by (cases rule: framed_cases; simp)+
  let ?b0 = "p @ drop (length p) buf"
  have ij: "i \<le> j" "j \<le> 40" using assms(4) by auto
  from copy_addr_ok [OF ij(1), of ?b0 a] ij p(3) obtain b where b: "copy_addr ?b0 i j a = Inr b" "length b = length buf"
    "\<forall>k < length buf. k < i \<or> j \<le> k \<longrightarrow> b ! k = ?b0 ! k" "\<forall>x. a = Some x \<longrightarrow> length x = j - i \<longrightarrow> take (j - i) (drop i b) = x"
    using assms(3) by auto
  have "\<forall>k < length p. k \<notin> addr_field sd (IPv6Packet b) \<longrightarrow> b ! k = p ! k"
    using b(3) assms(3,4) by (auto simp: nth_append)
  from update_conveys_v6 [OF assms(2) p _ this] b(2) assms(3) obtain q where
    q: "UpdateChecksum (IPv6Packet b) = Inr (IPv6Packet q)" "conveys sd p (IPv6Packet q)" "length q = length buf"
    "\<forall>k \<in> addr_field sd (IPv6Packet b). q ! k = b ! k" by auto
  have "take (j - i) (drop i q) = take (j - i) (drop i b)"
    using q(3,4) b(2) assms(4) by (intro take_drop_eqI) auto
  then have "slice q i j = Inr x" if "a = Some x" "length x = j - i" for x
    using b(4) that ij p(3) q(3) assms(3) by simp
  then show ?thesis using b(1) q by blast
qed

section \<open>Ending\<close>

text \<open>
  Every packet but one that announces no length moves the inner loop forward; an IPv4 header
  with total length 0 keeps it at the same place for ever.
\<close>

definition zero_header :: "bytes \<Rightarrow> bool" where
  "zero_header v \<longleftrightarrow> IPv4_Version v = Inr 4 \<and> IPv4_TotalLength v = Inr 0"

lemma packet_view_positive:
  assumes "packet_view v = Inr pkt" "TotalLength pkt = Inr n" "\<not> zero_header v"
  shows "0 < n"
proof (cases pkt)
  case (IPv4Packet w)
  then show ?thesis using assms by (cases n) (auto simp: packet_view_iff zero_header_def)
next
  case (IPv6Packet w)
  then show ?thesis using assms by (auto simp: IPv6_TotalLength_def go_simps)
qed

locale advancing =
  fixes body :: "bytes \<Rightarrow> nat \<Rightarrow> 's \<Rightarrow> ('s \<times> nat) option result"
  assumes advance: "body u i s = Inr (Some (s', n)) \<Longrightarrow> \<not> zero_header (drop i u) \<Longrightarrow> i < n"
begin

lemma loop_ends:
  "\<forall>i. i + 20 \<le> length u \<longrightarrow> \<not> zero_header (drop i u) \<Longrightarrow> \<exists>r. frame_loop body u i s = Some r"
proof (induction "length u - i" arbitrary: i s rule: less_induct)
  case less
  show ?case
  proof (cases "i + 20 \<le> length u")
    case True
    show ?thesis
    proof (cases "body u i s")
      case (Inr r)
      show ?thesis
      proof (cases r)
        case (Some sn)
        obtain s' n where sn: "sn = (s', n)" by force
        have "i < n" using advance [of u i s s' n] Inr Some sn less.prems True by simp
        with True have "length u - n < length u - i" by linarith
        from less.hyps [OF this less.prems, of s'] show ?thesis
          using True Inr Some sn by (simp add: frame_loop.simps [of body u i s])
      qed (use True Inr in \<open>simp add: frame_loop.simps [of body u i s]\<close>)
    qed (use True in \<open>simp add: frame_loop.simps [of body u i s]\<close>)
  qed (simp add: frame_loop.simps [of body u i s])
qed

lemma read_packets_ends:
  "\<forall>i. i + 20 \<le> length u \<longrightarrow> \<not> zero_header (drop i u) \<Longrightarrow> \<exists>r. read_packets body u s = Some r"
  using loop_ends [of u 0 s] by (auto simp: read_packets_def)

end

lemma loop_stuck:
  assumes step: "\<And>s. P s \<Longrightarrow> \<exists>s'. body u i s = Inr (Some (s', i)) \<and> P s'" and i: "i + 20 \<le> length u" and P: "P s"
  shows "frame_loop body u i s = None"
proof (cases "frame_loop body u i s")
  case (Some r)
  let ?stay = "\<lambda>b v j s r. b = body \<longrightarrow> v = u \<longrightarrow> j = i \<longrightarrow> \<not> P s"
  have "?stay body u i s r"
  proof (rule frame_loop.raw_induct [of ?stay, OF _ Some], intro impI notI)
    fix loop b v j s r
    assume IH: "\<And>b v j s r. loop b v j s = Some r \<Longrightarrow> ?stay b v j s r"
      and eq: "(if j + 20 \<le> length v
        then case b v j s of Inl e \<Rightarrow> Some (Inl e) | Inr None \<Rightarrow> Some (Inr (s, j)) | Inr (Some (s', n)) \<Rightarrow> loop b v n s'
        else Some (Inr (s, j))) = Some r" "b = body" "v = u" "j = i" "P s"
    from step [OF \<open>P s\<close>] obtain s' where s': "body u i s = Inr (Some (s', i))" "P s'" by blast
    with eq i have "loop body u i s' = Some r" by simp
    with IH s'(2) show False by blast
  qed
  with P show ?thesis by blast
qed

lemma zero_buffer_checksum:
  assumes "20 \<le> length b" "b ! 0 = 0" "b ! 2 = 0" "b ! 3 = 0" "b ! 9 = 0"
  shows "\<exists>q. UpdateChecksum (IPv4Packet b) = Inr (IPv4Packet q)"
proof -
  have ne: "b \<noteq> []" using assms(1) by auto
  have "IPv4_TotalLength b = Inr 0" using assms by (simp add: IPv4_TotalLength_def get16_def be16_def)
  moreover have "updateIPChecksum b = put_sum (b[10 := 0, 11 := 0]) 10 (fold_sum 0)"
    using assms ne by (simp add: updateIPChecksum_def reset_sum_def IPv4_PayloadOffset_def sum_pairs.simps)
  then have "\<exists>q. updateIPChecksum b = Inr q \<and> length q = length b \<and> q ! 9 = 0"
    using assms by (simp add: put_sum_def)
  ultimately show ?thesis using assms ne by (auto simp: IPv4_UpdateChecksum_def IPv4_Protocol_def)
qed

section \<open>Buffers of the pool\<close>

text \<open>
  The buffers of a pool keep the bytes of earlier packets. The environment of a loop lists, for
  every packet, the buffer that the pool hands out and whether the queue behind the loop has room
  at that moment; behind its end the pool makes new buffers and the queue has room.
\<close>

definition next_env :: "nat \<Rightarrow> (bytes \<times> bool) list \<Rightarrow> (bytes \<times> bool) \<times> (bytes \<times> bool) list" where
  "next_env mtu env = (case env of [] \<Rightarrow> ((replicate mtu 0, True), []) | e # es \<Rightarrow> (e, es))"

text \<open>\<^verbatim>\<open>copy(buf[:totalLen], data)\<close>\<close>

definition fill :: "bytes \<Rightarrow> nat \<Rightarrow> bytes \<Rightarrow> bytes result" where
  "fill buf totalLen data = rbind (slice buf 0 totalLen) (\<lambda>_. Inr (splice buf 0 (take totalLen data)))"

end
