(* ===== verification/Conntrack_Table.thy ===== *)
theory Conntrack_Table
  imports Net_Packet "HOL-Library.AList"
begin

text \<open>
  The connection tracker of the client (\<^verbatim>\<open>pkg/client/conntrack.go\<close>) and its use by the packet
  handlers (\<^verbatim>\<open>pkg/client/handlers.go\<close>): an outbound IPv4 packet is recorded under its tuple and
  under the tuple of a reply, and a reply is sent on to the address the record names.

  The hash function of the keys is a third-party package and the parameter \<open>xx\<close>. The clock is
  an argument (nanoseconds). Entries are pointers in the code: the table maps keys to indices
  into a heap of entries, so that the two keys of a connection share one entry.
\<close>

section \<open>Protocol data\<close>

datatype protocolData =
    GenericProtocolData byte
  | PortBasedProtocolData u16 u16
  | ICMPProtocolData byte byte

fun PD_Inverted :: "protocolData \<Rightarrow> protocolData" where
  "PD_Inverted (GenericProtocolData d) = GenericProtocolData d"
| "PD_Inverted (PortBasedProtocolData s d) = PortBasedProtocolData d s"
| "PD_Inverted (ICMPProtocolData t c) =
     (if t = ICMPTypeEchoRequest then ICMPProtocolData ICMPTypeEchoReply c
      else if t = ICMPTypeEchoReply then ICMPProtocolData ICMPTypeEchoRequest c
      else ICMPProtocolData t c)"

fun PD_Bytes :: "protocolData \<Rightarrow> bytes" where
  "PD_Bytes (GenericProtocolData d) = [d]"
| "PD_Bytes (PortBasedProtocolData s d) = [ucast (drop_bit 8 s), ucast s, ucast (drop_bit 8 d), ucast d]"
| "PD_Bytes (ICMPProtocolData t c) = [t, c]"

abbreviation Second :: int where "Second \<equiv> 1000000000"
abbreviation Minute :: int where "Minute \<equiv> 60 * Second"

fun ExpireDuration :: "protocolData \<Rightarrow> int" where
  "ExpireDuration (GenericProtocolData d) = Minute"
| "ExpireDuration (PortBasedProtocolData s d) = Minute * 5"
| "ExpireDuration (ICMPProtocolData t c) =
     (if t = ICMPTypeEchoRequest \<or> t = ICMPv6TypeEchoRequest then Second * 30 else Second)"

section \<open>Tuples\<close>

record Tuple =
  t_Family :: byte
  t_SrcIP :: ip
  t_DestIP :: ip
  t_Protocol :: byte
  t_ProtocolData :: protocolData
  t_Direction :: byte

definition getICMPProtocolData :: "IPPacket \<Rightarrow> protocolData result" where
  "getICMPProtocolData pkt =
     rbind (PayloadOffset pkt) (\<lambda>offset.
     rbind (slice (Packet_Bytes pkt) offset (length (Packet_Bytes pkt))) (\<lambda>payload.
     rbind (at payload 0) (\<lambda>icmpType. rbind (at payload 1) (\<lambda>icmpCode.
       Inr (ICMPProtocolData icmpType icmpCode)))))"

definition NewTuple :: "IPPacket \<Rightarrow> Tuple result" where
  "NewTuple pkt =
     rbind (Packet_Version pkt) (\<lambda>version.
     rbind (Packet_Protocol pkt) (\<lambda>protocol.
     rbind (if protocol = ProtocolTCP \<or> protocol = ProtocolUDP
            then rbind (SourcePort pkt) (\<lambda>s. rbind (DestinationPort pkt) (\<lambda>d. Inr (PortBasedProtocolData s d)))
            else if protocol = ProtocolICMP then getICMPProtocolData pkt
            else Inr (GenericProtocolData protocol)) (\<lambda>pd.
     rbind (SourceIP pkt) (\<lambda>srcIP. rbind (DestinationIP pkt) (\<lambda>destIP.
       Inr \<lparr>t_Family = (if version = 6 then 6 else 4), t_SrcIP = srcIP, t_DestIP = destIP,
            t_Protocol = protocol, t_ProtocolData = pd, t_Direction = 0\<rparr>)))))"

definition Tuple_Inverted :: "Tuple \<Rightarrow> Tuple" where
  "Tuple_Inverted t = \<lparr>t_Family = t_Family t, t_SrcIP = t_DestIP t, t_DestIP = t_SrcIP t,
     t_Protocol = t_Protocol t, t_ProtocolData = PD_Inverted (t_ProtocolData t),
     t_Direction = t_Direction t XOR 1\<rparr>"

text \<open>The key buffer starts with zero bytes, because the code appends to a slice it has already sized.\<close>

definition key_bytes :: "Tuple \<Rightarrow> bytes" where
  "key_bytes t =
     replicate (if t_Family t = 4 then 14 else if t_Family t = 6 then 262 else 0) 0 @
     [t_Family t] @ t_SrcIP t @ t_DestIP t @ [t_Protocol t] @ PD_Bytes (t_ProtocolData t)"

definition ToKey :: "(bytes \<Rightarrow> u64) \<Rightarrow> Tuple \<Rightarrow> u64" where
  "ToKey xx t = xx (key_bytes t)"

section \<open>The table\<close>

record ConnTrackEntry =
  e_InMappedDst :: ip
  e_ExpireAt :: "int option"

record Conntrack =
  ct_table :: "(u64 \<times> nat) list"
  ct_heap :: "ConnTrackEntry list"

definition NewConntrack :: Conntrack where
  "NewConntrack = \<lparr>ct_table = [], ct_heap = []\<rparr>"

text \<open>\<^verbatim>\<open>IsExpired\<close> calls a method on the loaded pointer, which panics when it was never stored.\<close>

definition IsExpired :: "ConnTrackEntry \<Rightarrow> int \<Rightarrow> bool result" where
  "IsExpired e now = (case e_ExpireAt e of None \<Rightarrow> Inl Panic | Some x \<Rightarrow> Inr (x < now))"

definition UpdateExpireAt :: "nat \<Rightarrow> protocolData \<Rightarrow> int \<Rightarrow> Conntrack \<Rightarrow> Conntrack" where
  "UpdateExpireAt a pd now c =
     c\<lparr>ct_heap := (ct_heap c)[a := (ct_heap c ! a)\<lparr>e_ExpireAt := Some (now + ExpireDuration pd)\<rparr>]\<rparr>"

text \<open>\<^verbatim>\<open>&ConnTrackEntry{...}\<close>\<close>

definition new_entry :: "ip \<Rightarrow> Conntrack \<Rightarrow> nat \<times> Conntrack" where
  "new_entry mapped c =
     (length (ct_heap c), c\<lparr>ct_heap := ct_heap c @ [\<lparr>e_InMappedDst = mapped, e_ExpireAt = None\<rparr>]\<rparr>)"

definition Conntrack_Load :: "(bytes \<Rightarrow> u64) \<Rightarrow> Conntrack \<Rightarrow> Tuple \<Rightarrow> nat option" where
  "Conntrack_Load xx c t = map_of (ct_table c) (ToKey xx t)"

definition Conntrack_Store :: "(bytes \<Rightarrow> u64) \<Rightarrow> Tuple \<Rightarrow> nat \<Rightarrow> Conntrack \<Rightarrow> Conntrack" where
  "Conntrack_Store xx t a c = c\<lparr>ct_table := AList.update (ToKey xx t) a (ct_table c)\<rparr>"

definition Conntrack_Delete :: "u64 \<Rightarrow> Conntrack \<Rightarrow> Conntrack" where
  "Conntrack_Delete k c = c\<lparr>ct_table := AList.delete k (ct_table c)\<rparr>"

text \<open>
  \<^verbatim>\<open>LoadOrStore\<close> asks the new entry, not the one in the table, whether it has expired.
\<close>

definition LoadOrStore :: "(bytes \<Rightarrow> u64) \<Rightarrow> Tuple \<Rightarrow> nat \<Rightarrow> int \<Rightarrow> Conntrack \<Rightarrow> (nat \<times> bool \<times> Conntrack) result" where
  "LoadOrStore xx t a now c =
     (case Conntrack_Load xx c t of
        None \<Rightarrow> Inr (a, False, Conntrack_Store xx t a c)
      | Some actual \<Rightarrow>
          rbind (IsExpired (ct_heap c ! a) now) (\<lambda>expired.
            if \<not> expired then Inr (actual, True, c)
            else Inr (actual, False, Conntrack_Store xx t actual c)))"

fun cleanup_keys :: "int \<Rightarrow> (u64 \<times> nat) list \<Rightarrow> Conntrack \<Rightarrow> Conntrack result" where
  "cleanup_keys now [] c = Inr c"
| "cleanup_keys now ((k, a) # ks) c =
     rbind (IsExpired (ct_heap c ! a) now) (\<lambda>expired.
       cleanup_keys now ks (if expired then Conntrack_Delete k c else c))"

definition Cleanup :: "int \<Rightarrow> Conntrack \<Rightarrow> Conntrack result" where
  "Cleanup now c = cleanup_keys now (ct_table c) c"

section \<open>Use by the packet handlers\<close>

text \<open>
  Both outbound handlers record an IPv4 packet before they write it; IPv6 packets are not
  tracked.
\<close>

fun track_outbound :: "(bytes \<Rightarrow> u64) \<Rightarrow> ip \<Rightarrow> int \<Rightarrow> IPPacket \<Rightarrow> Conntrack \<Rightarrow> Conntrack result" where
  "track_outbound xx adapterIP now (IPv4Packet p) c =
     rbind (NewTuple (IPv4Packet p)) (\<lambda>t.
       case Conntrack_Load xx c t of
         None \<Rightarrow>
           (let (a, c1) = new_entry (t_SrcIP t) c;
                c2 = UpdateExpireAt a (t_ProtocolData t) now c1;
                invertedTuple = (Tuple_Inverted t)\<lparr>t_DestIP := adapterIP\<rparr>
            in Inr (Conntrack_Store xx invertedTuple a (Conntrack_Store xx t a c2)))
       | Some a \<Rightarrow> Inr (UpdateExpireAt a (t_ProtocolData t) now c))"
| "track_outbound xx adapterIP now (IPv6Packet p) c = Inr c"

text \<open>The inbound handler looks an IPv4 packet up as one for the adapter and rewrites its destination.\<close>

definition map_inbound :: "(bytes \<Rightarrow> u64) \<Rightarrow> ip \<Rightarrow> int \<Rightarrow> bytes \<Rightarrow> Conntrack \<Rightarrow> (bytes \<times> Conntrack) result" where
  "map_inbound xx adapterIP now p c =
     rbind (NewTuple (IPv4Packet p)) (\<lambda>t0.
       let t = t0\<lparr>t_DestIP := adapterIP\<rparr>
       in case Conntrack_Load xx c t of
            None \<Rightarrow> Inr (p, c)
          | Some a \<Rightarrow>
              (let c1 = UpdateExpireAt a (t_ProtocolData t) now c; m = e_InMappedDst (ct_heap c1 ! a)
               in if m \<noteq> [] then rbind (IPv4_SetDestinationIP p m) (\<lambda>q. Inr (q, c1)) else Inr (p, c1)))"

end
