(* ===== verification/Conntrack_History.thy ===== *)
theory Conntrack_History
  imports Conntrack_Table
begin

text \<open>
  Histories of the connection tracker: what its table holds after any sequence of outbound
  packets, inbound packets and expiry runs, and that replies are rewritten to the right host.
\<close>

section \<open>Histories\<close>

datatype ct_event = Outbound IPPacket int | Inbound bytes int | Expire int

fun ct_step :: "(bytes \<Rightarrow> u64) \<Rightarrow> ip \<Rightarrow> ct_event \<Rightarrow> Conntrack \<Rightarrow> Conntrack result" where
  "ct_step xx a (Outbound pkt now) c = track_outbound xx a now pkt c"
| "ct_step xx a (Inbound p now) c = rbind (map_inbound xx a now p c) (\<lambda>(q, c'). Inr c')"
| "ct_step xx a (Expire now) c = Cleanup now c"

fun ct_run :: "(bytes \<Rightarrow> u64) \<Rightarrow> ip \<Rightarrow> ct_event list \<Rightarrow> Conntrack \<Rightarrow> Conntrack result" where
  "ct_run xx a [] c = Inr c"
| "ct_run xx a (e # es) c = rbind (ct_step xx a e c) (ct_run xx a es)"

fun parses :: "IPPacket \<Rightarrow> bool" where
  "parses pkt = (case NewTuple pkt of Inl _ \<Rightarrow> False | Inr _ \<Rightarrow> True)"

fun ev_ok :: "ct_event \<Rightarrow> bool" where
  "ev_ok (Outbound (IPv4Packet p) now) \<longleftrightarrow> parses (IPv4Packet p)"
| "ev_ok (Outbound (IPv6Packet p) now) \<longleftrightarrow> True"
| "ev_ok (Inbound p now) \<longleftrightarrow> parses (IPv4Packet p)"
| "ev_ok (Expire now) \<longleftrightarrow> True"

text \<open>The tuples that the outbound packets of a history are recorded under.\<close>

fun ev_tuples :: "ct_event \<Rightarrow> Tuple list" where
  "ev_tuples (Outbound (IPv4Packet p) now) = (case NewTuple (IPv4Packet p) of Inl _ \<Rightarrow> [] | Inr t \<Rightarrow> [t])"
| "ev_tuples _ = []"

definition reply_tuple :: "ip \<Rightarrow> Tuple \<Rightarrow> Tuple" where
  "reply_tuple a t = (Tuple_Inverted t)\<lparr>t_DestIP := a\<rparr>"

text \<open>
  No two connections of a history share a key. This is what the hash function should give, and
  that two hosts behind the adapter do not use the same ports towards the same server: the code
  does not translate ports.
\<close>

definition separate :: "(bytes \<Rightarrow> u64) \<Rightarrow> ip \<Rightarrow> Tuple set \<Rightarrow> bool" where
  "separate xx a H \<longleftrightarrow> (\<forall>t \<in> H. \<forall>u \<in> H.
     (ToKey xx t = ToKey xx u \<longrightarrow> t_SrcIP t = t_SrcIP u) \<and>
     (ToKey xx t = ToKey xx u \<longleftrightarrow> ToKey xx (reply_tuple a t) = ToKey xx (reply_tuple a u)) \<and>
     ToKey xx t \<noteq> ToKey xx (reply_tuple a u))"

definition ct_inv :: "(bytes \<Rightarrow> u64) \<Rightarrow> ip \<Rightarrow> Tuple set \<Rightarrow> Conntrack \<Rightarrow> bool" where
  "ct_inv xx a H c \<longleftrightarrow> distinct (map fst (ct_table c)) \<and>
     (\<forall>k x. map_of (ct_table c) k = Some x \<longrightarrow> x < length (ct_heap c) \<and> e_ExpireAt (ct_heap c ! x) \<noteq> None \<and>
        (\<exists>t \<in> H. e_InMappedDst (ct_heap c ! x) = t_SrcIP t \<and> (k = ToKey xx t \<or> k = ToKey xx (reply_tuple a t)))) \<and>
     (\<forall>t \<in> H. map_of (ct_table c) (ToKey xx t) = map_of (ct_table c) (ToKey xx (reply_tuple a t)))"

text \<open>The entry of a tuple lives at least until a given time.\<close>

definition live :: "(bytes \<Rightarrow> u64) \<Rightarrow> Tuple \<Rightarrow> int \<Rightarrow> Conntrack \<Rightarrow> bool" where
  "live xx t d c \<longleftrightarrow> (\<exists>x y. map_of (ct_table c) (ToKey xx t) = Some x \<and> x < length (ct_heap c) \<and>
     e_ExpireAt (ct_heap c ! x) = Some y \<and> d \<le> y)"

lemma ExpireDuration_min: "Second \<le> ExpireDuration pd"
  by (cases pd) auto

lemma ct_inv_New: "ct_inv xx a H NewConntrack"
  by (simp add: ct_inv_def NewConntrack_def)

lemma UpdateExpireAt_simps [simp]:
  "ct_table (UpdateExpireAt x pd now c) = ct_table c"
  "length (ct_heap (UpdateExpireAt x pd now c)) = length (ct_heap c)"
  "e_InMappedDst (ct_heap (UpdateExpireAt x pd now c) ! y) = e_InMappedDst (ct_heap c ! y)"
  "y < length (ct_heap c) \<Longrightarrow> e_ExpireAt (ct_heap (UpdateExpireAt x pd now c) ! y) =
     (if y = x then Some (now + ExpireDuration pd) else e_ExpireAt (ct_heap c ! y))"
proof -
  show "e_InMappedDst (ct_heap (UpdateExpireAt x pd now c) ! y) = e_InMappedDst (ct_heap c ! y)"
    by (cases "x < length (ct_heap c)"; cases "x = y") (simp_all add: UpdateExpireAt_def list_update_beyond)
qed (simp_all add: UpdateExpireAt_def nth_list_update)

lemma ct_inv_Update:
  assumes "ct_inv xx a H c"
  shows "ct_inv xx a H (UpdateExpireAt x pd now c)"
  using assms unfolding ct_inv_def by fastforce

lemma live_Update:
  "live xx t d c \<Longrightarrow> d \<le> now + Second \<Longrightarrow> live xx t d (UpdateExpireAt x pd now c)"
  using ExpireDuration_min [of pd] unfolding live_def
  by (metis UpdateExpireAt_simps(1,2,4) add_left_mono order_trans)

lemma cleanup_keys_result:
  assumes "\<forall>(k, x) \<in> set ks. e_ExpireAt (ct_heap c ! x) \<noteq> None"
  shows "\<exists>c'. cleanup_keys now ks c = Inr c' \<and> ct_heap c' = ct_heap c \<and>
    (distinct (map fst (ct_table c)) \<longrightarrow> distinct (map fst (ct_table c'))) \<and>
    (\<forall>k. map_of (ct_table c') k =
       (if \<exists>x. (k, x) \<in> set ks \<and> the (e_ExpireAt (ct_heap c ! x)) < now then None else map_of (ct_table c) k))"
  using assms
proof (induction ks arbitrary: c)
  case (Cons kx ks)
  obtain k x where kx: "kx = (k, x)" by force
  then obtain y where y: "e_ExpireAt (ct_heap c ! x) = Some y" using Cons.prems by auto
  let ?c = "if y < now then Conntrack_Delete k c else c"
  have h: "ct_heap ?c = ct_heap c" by (simp add: Conntrack_Delete_def)
  have d: "distinct (map fst (ct_table c)) \<Longrightarrow> distinct (map fst (ct_table ?c))"
    by (simp add: Conntrack_Delete_def distinct_delete)
  have m: "map_of (ct_table ?c) k' = (if y < now \<and> k' = k then None else map_of (ct_table c) k')" for k'
    by (simp add: Conntrack_Delete_def delete_conv)
  from Cons.IH [of ?c] Cons.prems h obtain c' where c': "cleanup_keys now ks ?c = Inr c'" "ct_heap c' = ct_heap c"
    "distinct (map fst (ct_table ?c)) \<longrightarrow> distinct (map fst (ct_table c'))"
    "\<forall>k. map_of (ct_table c') k =
       (if \<exists>x. (k, x) \<in> set ks \<and> the (e_ExpireAt (ct_heap c ! x)) < now then None else map_of (ct_table ?c) k)"
    by auto
  have "cleanup_keys now (kx # ks) c = Inr c'" using kx y c'(1) by (simp add: IsExpired_def)
  moreover have "map_of (ct_table c') k' =
     (if \<exists>x. (k', x) \<in> set (kx # ks) \<and> the (e_ExpireAt (ct_heap c ! x)) < now then None else map_of (ct_table c) k')" for k'
    using c'(4) [rule_format, of k'] m [of k'] kx y by auto
  ultimately show ?case using c'(2,3) d by blast
qed simp

lemma Cleanup_result:
  assumes "ct_inv xx a H c"
  shows "\<exists>c'. Cleanup now c = Inr c' \<and> ct_inv xx a H c' \<and> (live xx t d c \<longrightarrow> now \<le> d \<longrightarrow> live xx t d c')"
proof -
  have D: "distinct (map fst (ct_table c))" using assms by (simp add: ct_inv_def)
  then have in_tab: "(k, x) \<in> set (ct_table c) \<longleftrightarrow> map_of (ct_table c) k = Some x" for k x
    by (metis map_of_SomeD map_of_is_SomeI)
  then have "\<forall>(k, x) \<in> set (ct_table c). e_ExpireAt (ct_heap c ! x) \<noteq> None"
    using assms by (auto simp: ct_inv_def)
  from cleanup_keys_result [OF this, of now] D obtain c' where c': "Cleanup now c = Inr c'" "ct_heap c' = ct_heap c"
    "distinct (map fst (ct_table c'))"
    "\<forall>k. map_of (ct_table c') k =
       (if \<exists>x. map_of (ct_table c) k = Some x \<and> the (e_ExpireAt (ct_heap c ! x)) < now then None else map_of (ct_table c) k)"
    unfolding Cleanup_def in_tab by auto
  have "ct_inv xx a H c'"
    unfolding ct_inv_def
  proof (intro conjI allI ballI impI)
    fix k x assume "map_of (ct_table c') k = Some x"
    then have "map_of (ct_table c) k = Some x" using c'(4) by (auto split: if_splits)
    then show "x < length (ct_heap c')" "e_ExpireAt (ct_heap c' ! x) \<noteq> None"
      "\<exists>t\<in>H. e_InMappedDst (ct_heap c' ! x) = t_SrcIP t \<and> (k = ToKey xx t \<or> k = ToKey xx (reply_tuple a t))"
      using assms c'(2) by (auto simp: ct_inv_def)
  next
    fix t assume "t \<in> H"
    then have "map_of (ct_table c) (ToKey xx t) = map_of (ct_table c) (ToKey xx (reply_tuple a t))"
      using assms by (simp add: ct_inv_def)
    then show "map_of (ct_table c') (ToKey xx t) = map_of (ct_table c') (ToKey xx (reply_tuple a t))"
      unfolding c'(4) [rule_format] by (simp only:)
  qed (rule c'(3))
  moreover have "live xx t d c'" if "live xx t d c" "now \<le> d"
    using that c'(2,4) by (auto simp: live_def)
  ultimately show ?thesis using c'(1) by blast
qed

text \<open>An outbound packet leaves a live entry under both of its keys.\<close>

lemma track_result:
  assumes inv: "ct_inv xx a H c" and sep: "separate xx a H" and t: "NewTuple (IPv4Packet p) = Inr t" "t \<in> H"
  shows "\<exists>c'. track_outbound xx a now (IPv4Packet p) c = Inr c' \<and> ct_inv xx a H c' \<and> live xx t (now + Second) c' \<and>
    (\<forall>u d. u \<in> H \<longrightarrow> live xx u d c \<longrightarrow> d \<le> now + Second \<longrightarrow> live xx u d c')"
proof (cases "Conntrack_Load xx c t")
  case (Some x)
  then have m: "map_of (ct_table c) (ToKey xx t) = Some x" by (simp add: Conntrack_Load_def)
  then have "x < length (ct_heap c)" using inv by (simp add: ct_inv_def)
  with m have "live xx t (now + Second) (UpdateExpireAt x (t_ProtocolData t) now c)"
    using ExpireDuration_min [of "t_ProtocolData t"] by (simp add: live_def)
  then show ?thesis
    using Some t ct_inv_Update [OF inv] live_Update by auto
next
  case None
  let ?K = "ToKey xx" let ?R = "\<lambda>t. ToKey xx (reply_tuple a t)"
  let ?x = "length (ct_heap c)"
  let ?e = "\<lparr>e_InMappedDst = t_SrcIP t, e_ExpireAt = Some (now + ExpireDuration (t_ProtocolData t))\<rparr>"
  define c' where "c' = \<lparr>ct_table = AList.update (?R t) ?x (AList.update (?K t) ?x (ct_table c)), ct_heap = ct_heap c @ [?e]\<rparr>"
  have run: "track_outbound xx a now (IPv4Packet p) c = Inr c'"
    using t(1) None by (simp add: new_entry_def UpdateExpireAt_def Conntrack_Store_def reply_tuple_def Let_def c'_def)
  have m: "map_of (ct_table c') k = (if k = ?R t \<or> k = ?K t then Some ?x else map_of (ct_table c) k)" for k
    by (simp add: c'_def update_conv)
  have heap: "ct_heap c' = ct_heap c @ [?e]" by (simp add: c'_def)
  have free: "map_of (ct_table c) (?K t) = None" using None by (simp add: Conntrack_Load_def)
  have sep': "?K u = ?K t \<longleftrightarrow> ?R u = ?R t" "?K u \<noteq> ?R t" "?R u \<noteq> ?K t" if "u \<in> H" for u
    using sep [unfolded separate_def, rule_format, OF that t(2)] sep [unfolded separate_def, rule_format, OF t(2) that]
    by (simp_all add: eq_commute)
  have inv1: "distinct (map fst (ct_table c))" using inv unfolding ct_inv_def by (rule conjunct1)
  have inv2: "x < length (ct_heap c) \<and> e_ExpireAt (ct_heap c ! x) \<noteq> None \<and>
      (\<exists>t\<in>H. e_InMappedDst (ct_heap c ! x) = t_SrcIP t \<and> (k = ?K t \<or> k = ?R t))"
    if "map_of (ct_table c) k = Some x" for k x using inv that unfolding ct_inv_def by blast
  have inv3: "map_of (ct_table c) (?K u) = map_of (ct_table c) (?R u)" if "u \<in> H" for u
    using inv that unfolding ct_inv_def by blast
  have "ct_inv xx a H c'"
    unfolding ct_inv_def
  proof (intro conjI allI ballI impI)
    show "distinct (map fst (ct_table c'))" unfolding c'_def Conntrack.simps by (intro distinct_update inv1)
  next
    fix k x assume "map_of (ct_table c') k = Some x"
    then consider "x = ?x" "k = ?R t \<or> k = ?K t" | "map_of (ct_table c) k = Some x"
      unfolding m by (cases "k = ?R t \<or> k = ?K t") simp_all
    then have "x < length (ct_heap c') \<and> e_ExpireAt (ct_heap c' ! x) \<noteq> None \<and>
      (\<exists>t\<in>H. e_InMappedDst (ct_heap c' ! x) = t_SrcIP t \<and> (k = ?K t \<or> k = ?R t))"
    proof cases
      case 1 then show ?thesis using t(2) heap by auto
    next
      case 2
      from inv2 [OF this] show ?thesis by (auto simp: heap nth_append)
    qed
    then show "x < length (ct_heap c')" "e_ExpireAt (ct_heap c' ! x) \<noteq> None"
      "\<exists>t\<in>H. e_InMappedDst (ct_heap c' ! x) = t_SrcIP t \<and> (k = ?K t \<or> k = ?R t)" by blast+
  next
    fix u assume u: "u \<in> H"
    show "map_of (ct_table c') (?K u) = map_of (ct_table c') (?R u)"
      unfolding m using inv3 [OF u] sep' [OF u] by simp
  qed
  moreover have "live xx t (now + Second) c'"
    using m ExpireDuration_min [of "t_ProtocolData t"] by (simp add: live_def heap)
  moreover have "live xx u d c'" if "u \<in> H" "live xx u d c" for u d
  proof -
    from that(2) obtain x y where xy: "map_of (ct_table c) (?K u) = Some x" "x < length (ct_heap c)"
      "e_ExpireAt (ct_heap c ! x) = Some y" "d \<le> y" by (auto simp: live_def)
    then have "?K u \<noteq> ?K t" using free by auto
    then have "map_of (ct_table c') (?K u) = Some x" using m [of "?K u"] sep' [OF that(1)] xy(1) by simp
    then show ?thesis using xy unfolding live_def by (intro exI [of _ x] exI [of _ y]) (simp add: heap nth_append)
  qed
  ultimately show ?thesis using run by blast
qed

lemma NewTuple_v4:
  assumes "NewTuple (IPv4Packet p) = Inr t"
  shows "20 \<le> length p" "t_SrcIP t = take 4 (drop 12 p)" "t_DestIP t = take 4 (drop 16 p)"
  using assms by (auto simp: NewTuple_def go_simps IPv4_SourceIP_def IPv4_DestinationIP_def slice_Inr_iff)

lemma SetDestination_ok:
  assumes "20 \<le> length p"
  shows "\<exists>q. IPv4_SetDestinationIP p m = Inr q \<and> length q = length p \<and> (\<forall>i < length p. i < 16 \<or> 20 \<le> i \<longrightarrow> q ! i = p ! i) \<and>
    (length m = 4 \<longrightarrow> IPv4_DestinationIP q = Inr m)"
proof -
  let ?q = "splice p 16 (take 4 (case To4 m of None \<Rightarrow> [] | Some b \<Rightarrow> b))"
  have "IPv4_SetDestinationIP p m = Inr ?q" using assms by (simp add: IPv4_SetDestinationIP_def copy_addr_def)
  moreover have "length ?q = length p" using assms by simp
  moreover have "?q ! i = p ! i" if "i < length p" "i < 16 \<or> 20 \<le> i" for i
    using that assms nth_splice [of i p 16] by auto
  moreover have "IPv4_DestinationIP ?q = Inr m" if "length m = 4"
    using that assms by (simp add: IPv4_DestinationIP_def To4_def splice_fit)
  ultimately show ?thesis by blast
qed

fun ev_within :: "int \<Rightarrow> ct_event \<Rightarrow> bool" where
  "ev_within t0 (Outbound pkt now) \<longleftrightarrow> t0 \<le> now"
| "ev_within t0 (Inbound p now) \<longleftrightarrow> t0 \<le> now"
| "ev_within t0 (Expire now) \<longleftrightarrow> now \<le> t0 + Second"

lemma ct_step_result:
  assumes inv: "ct_inv xx a H c" and sep: "separate xx a H" and e: "ev_ok e" "set (ev_tuples e) \<subseteq> H"
  shows "\<exists>c'. ct_step xx a e c = Inr c' \<and> ct_inv xx a H c' \<and>
    (\<forall>u t0. u \<in> H \<longrightarrow> live xx u (t0 + Second) c \<longrightarrow> ev_within t0 e \<longrightarrow> live xx u (t0 + Second) c')"
proof (cases e)
  case (Outbound pkt now)
  show ?thesis
  proof (cases pkt)
    case (IPv4Packet p)
    with e Outbound obtain t where t: "NewTuple (IPv4Packet p) = Inr t" "t \<in> H" by (auto split: sum.splits)
    from track_result [OF inv sep t, of now] show ?thesis using Outbound IPv4Packet by auto
  qed (use Outbound inv in auto)
next
  case (Inbound p now)
  with e obtain t where t: "NewTuple (IPv4Packet p) = Inr t" by (auto split: sum.splits)
  let ?t = "t\<lparr>t_DestIP := a\<rparr>"
  show ?thesis
  proof (cases "Conntrack_Load xx c ?t")
    case None
    with Inbound t inv show ?thesis by (auto simp: map_inbound_def)
  next
    case (Some x)
    let ?c = "UpdateExpireAt x (t_ProtocolData t) now c"
    from SetDestination_ok [OF NewTuple_v4(1) [OF t]] have "\<exists>q. map_inbound xx a now p c = Inr (q, ?c)"
      using t Some by (auto simp: map_inbound_def Let_def) (metis rbind_simps(2))
    then have "ct_step xx a e c = Inr ?c" using Inbound by auto
    then show ?thesis using Inbound ct_inv_Update [OF inv] live_Update by auto
  qed
next
  case (Expire now)
  from Cleanup_result [OF inv, of now] obtain c' where c': "Cleanup now c = Inr c'" by auto
  then have "ct_inv xx a H c'" "live xx u d c \<longrightarrow> now \<le> d \<longrightarrow> live xx u d c'" for u d
    using Cleanup_result [OF inv, of now u d] by auto
  then show ?thesis using c' Expire by auto
qed

lemma ct_run_result:
  assumes "ct_inv xx a H c" "separate xx a H" "list_all ev_ok es" "set (concat (map ev_tuples es)) \<subseteq> H"
  shows "\<exists>c'. ct_run xx a es c = Inr c' \<and> ct_inv xx a H c' \<and>
    (\<forall>u t0. u \<in> H \<longrightarrow> live xx u (t0 + Second) c \<longrightarrow> list_all (ev_within t0) es \<longrightarrow> live xx u (t0 + Second) c')"
  using assms
proof (induction es arbitrary: c)
  case (Cons e es)
  from ct_step_result [of xx a H c e] Cons.prems obtain c1 where c1: "ct_step xx a e c = Inr c1" "ct_inv xx a H c1"
    "\<forall>u t0. u \<in> H \<longrightarrow> live xx u (t0 + Second) c \<longrightarrow> ev_within t0 e \<longrightarrow> live xx u (t0 + Second) c1" by auto
  from Cons.IH [OF c1(2)] Cons.prems c1 show ?case by auto
qed simp

lemma ct_run_append: "ct_run xx a (es @ fs) c = rbind (ct_run xx a es c) (ct_run xx a fs)"
  by (induction es arbitrary: c) (auto simp: rbind_def split: sum.splits)


text \<open>A hash function and packets to evaluate the tracker on.\<close>

definition key_hash :: "bytes \<Rightarrow> u64" where
  "key_hash bs = ucast (be32 (bs ! 18) (bs ! 22) (bs ! 25) (bs ! 27))"

definition udp_out :: "byte \<Rightarrow> byte \<Rightarrow> bytes" where
  "udp_out host port = [0x45, 0, 0, 24, 0, 0, 0, 0, 64, 17, 0, 0, 10, 0, 0, host, 1, 1, 1, 1, 4, port, 0, 53]"

definition udp_in :: "byte \<Rightarrow> bytes" where
  "udp_in port = [0x45, 0, 0, 24, 0, 0, 0, 0, 64, 17, 0, 0, 1, 1, 1, 1, 9, 9, 9, 9, 0, 53, 4, port]"


text \<open>
  The hypothesis on keys matters: the code does not translate ports, so a second host that uses
  the same ports towards the same server receives the replies of the first.
\<close>

lemma shared_ports_misdeliver:
  "\<exists>c q c'. ct_run key_hash [10, 0, 0, 1]
       [Outbound (IPv4Packet (udp_out 7 0)) 0, Outbound (IPv4Packet (udp_out 8 0)) 1, Outbound (IPv4Packet (udp_out 7 0)) 2]
       NewConntrack = Inr c \<and>
     map_inbound key_hash [10, 0, 0, 1] 3 (udp_in 0) c = Inr (q, c') \<and> IPv4_DestinationIP q = Inr [10, 0, 0, 8]"
proof -
  have "(case ct_run key_hash [10, 0, 0, 1]
      [Outbound (IPv4Packet (udp_out 7 0)) 0, Outbound (IPv4Packet (udp_out 8 0)) 1, Outbound (IPv4Packet (udp_out 7 0)) 2]
      NewConntrack of
      Inl _ \<Rightarrow> False
    | Inr c \<Rightarrow> (case map_inbound key_hash [10, 0, 0, 1] 3 (udp_in 0) c of
        Inl _ \<Rightarrow> False
      | Inr (q, c') \<Rightarrow> IPv4_DestinationIP q = Inr [10, 0, 0, 8]))"
    by code_simp
  then show ?thesis by (auto split: sum.splits)
qed

text \<open>
  \<^verbatim>\<open>LoadOrStore\<close> asks the entry it was given for its expiry, which a new entry does not have, and
  never replaces an expired entry of the table.
\<close>

lemma LoadOrStore_known_key:
  assumes "Conntrack_Load xx c t = Some x" "a < length (ct_heap c)"
  shows "LoadOrStore xx t a now c =
    (case e_ExpireAt (ct_heap c ! a) of
       None \<Rightarrow> Inl Panic
     | Some y \<Rightarrow> Inr (x, \<not> y < now, if y < now then Conntrack_Store xx t x c else c))"
  using assms by (auto simp: LoadOrStore_def IsExpired_def split: option.splits)

end
