(* ===== verification/Buffer_Pool.thy ===== *)
theory Buffer_Pool
  imports Prelude
begin

text \<open>
  The tiered buffer pool (\<^verbatim>\<open>pkg/common/buffer.go\<close>). A buffer is a slice: its memory, whose length
  is the capacity, and how much of it is visible. A pool of the standard library hands out any
  buffer that was put into it, or makes a new one: which one is an argument.
\<close>

record buffer =
  bf_mem :: bytes
  bf_len :: nat

abbreviation bf_cap :: "buffer \<Rightarrow> nat" where
  "bf_cap b \<equiv> length (bf_mem b)"

definition make_buffer :: "nat \<Rightarrow> buffer" where
  "make_buffer n = \<lparr>bf_mem = replicate n 0, bf_len = n\<rparr>"

definition BufferSize512 :: nat where "BufferSize512 = 512"
definition BufferSize1024 :: nat where "BufferSize1024 = 1024"
definition BufferSize2048 :: nat where "BufferSize2048 = 2048"
definition BufferSize4096 :: nat where "BufferSize4096 = 4096"
definition BufferSize65536 :: nat where "BufferSize65536 = 65536"

lemmas buffer_sizes = BufferSize512_def BufferSize1024_def BufferSize2048_def BufferSize4096_def BufferSize65536_def

definition tier_sizes :: "nat list" where
  "tier_sizes = [BufferSize512, BufferSize1024, BufferSize2048, BufferSize4096, BufferSize65536]"

type_synonym bufferPool = "buffer list list"

definition NewBufferPool :: bufferPool where
  "NewBufferPool = [[], [], [], [], []]"

text \<open>The switch that both operations have.\<close>

definition tier_of :: "nat \<Rightarrow> nat option" where
  "tier_of n =
     (if n \<le> BufferSize512 then Some 0
      else if n \<le> BufferSize1024 then Some 1
      else if n \<le> BufferSize2048 then Some 2
      else if n \<le> BufferSize4096 then Some 3
      else if n \<le> BufferSize65536 then Some 4
      else None)"

text \<open>\<^verbatim>\<open>sync.Pool.Get\<close>: the buffer at the chosen place, if there is one, and a new one otherwise.\<close>

definition pool_Get :: "nat \<Rightarrow> nat \<Rightarrow> bufferPool \<Rightarrow> buffer \<times> bufferPool" where
  "pool_Get i pick p =
     (if pick < length (p ! i) then (p ! i ! pick, p[i := take pick (p ! i) @ drop (Suc pick) (p ! i)])
      else (make_buffer (tier_sizes ! i), p))"

definition GetBuffer :: "nat \<Rightarrow> nat \<Rightarrow> bufferPool \<Rightarrow> buffer \<times> bufferPool" where
  "GetBuffer minCap pick p =
     (case tier_of minCap of None \<Rightarrow> (make_buffer minCap, p) | Some i \<Rightarrow> pool_Get i pick p)"

text \<open>The nil slice is \<open>None\<close>; a buffer beyond the largest tier is left to the garbage collector.\<close>

definition pool_PutBuffer :: "buffer option \<Rightarrow> bufferPool \<Rightarrow> bufferPool" where
  "pool_PutBuffer b p =
     (case b of
        None \<Rightarrow> p
      | Some x \<Rightarrow> (case tier_of (bf_cap x) of None \<Rightarrow> p | Some i \<Rightarrow> p[i := x # (p ! i)]))"

section \<open>Buffers are large enough\<close>

text \<open>
  A buffer as the pool makes them: all of its memory is visible, and it has the size of a tier or
  is larger than all of them.
\<close>

definition whole :: "buffer \<Rightarrow> bool" where
  "whole b \<longleftrightarrow> bf_len b = bf_cap b \<and> (bf_cap b \<in> set tier_sizes \<or> BufferSize65536 < bf_cap b)"

definition pool_wf :: "bufferPool \<Rightarrow> bool" where
  "pool_wf p \<longleftrightarrow> length p = 5 \<and> (\<forall>i < 5. \<forall>b \<in> set (p ! i). bf_len b = tier_sizes ! i \<and> bf_cap b = tier_sizes ! i)"

lemma pool_wf_New: "pool_wf NewBufferPool"
proof -
  have "NewBufferPool ! i = []" if "i < 5" for i
  proof -
    consider "i = 0" | "i = 1" | "i = 2" | "i = 3" | "i = 4" using \<open>i < 5\<close> by linarith
    then show ?thesis by cases (simp_all add: NewBufferPool_def)
  qed
  then show ?thesis by (simp add: pool_wf_def) (simp add: NewBufferPool_def)
qed

lemma tier_of_bounds:
  assumes "tier_of n = Some i"
  shows "i < 5" "n \<le> tier_sizes ! i"
  using assms by (auto simp: tier_of_def tier_sizes_def split: if_splits)

lemma tier_of_size:
  assumes "i < 5"
  shows "tier_of (tier_sizes ! i) = Some i"
proof -
  consider "i = 0" | "i = 1" | "i = 2" | "i = 3" | "i = 4" using assms by linarith
  then show ?thesis by cases (simp_all add: tier_of_def tier_sizes_def buffer_sizes)
qed

lemma GetBuffer_ok:
  assumes "pool_wf p" "GetBuffer minCap pick p = (b, p')"
  shows "pool_wf p'" "minCap \<le> bf_len b" "whole b"
proof -
  have len: "length p = 5" using assms(1) by (simp add: pool_wf_def)
  have sizes: "length tier_sizes = 5" by (simp add: tier_sizes_def)
  have "pool_wf p' \<and> minCap \<le> bf_len b \<and> whole b"
  proof (cases "tier_of minCap")
    case None
    then have "BufferSize65536 < minCap" by (auto simp: tier_of_def buffer_sizes split: if_splits)
    then show ?thesis using None assms by (auto simp: GetBuffer_def make_buffer_def whole_def)
  next
    case (Some i)
    note t = tier_of_bounds [OF Some]
    show ?thesis
    proof (cases "pick < length (p ! i)")
      case True
      then have "b = p ! i ! pick" "p' = p[i := take pick (p ! i) @ drop (Suc pick) (p ! i)]"
        using Some assms(2) by (auto simp: GetBuffer_def pool_Get_def)
      moreover have "p ! i ! pick \<in> set (p ! i)" using True by simp
      ultimately show ?thesis
        using assms(1) t len sizes
        by (auto simp: pool_wf_def whole_def nth_list_update dest: in_set_takeD in_set_dropD)
    next
      case False
      then show ?thesis using Some assms t sizes
        by (auto simp: GetBuffer_def pool_Get_def make_buffer_def whole_def)
    qed
  qed
  then show "pool_wf p'" "minCap \<le> bf_len b" "whole b" by simp_all
qed

lemma PutBuffer_ok:
  assumes "pool_wf p" "\<And>x. b = Some x \<Longrightarrow> whole x"
  shows "pool_wf (pool_PutBuffer b p)"
proof (cases b)
  case (Some x)
  with assms(2) have w: "whole x" by blast
  show ?thesis
  proof (cases "tier_of (bf_cap x)")
    case (Some i)
    then have i: "i < 5" "bf_cap x \<le> 65536" using tier_of_bounds [OF Some]
      by (auto simp: tier_of_def buffer_sizes split: if_splits)
    with w have "bf_cap x \<in> set tier_sizes" by (auto simp: whole_def buffer_sizes)
    moreover have "length tier_sizes = 5" by (simp add: tier_sizes_def)
    ultimately obtain j where "j < 5" "bf_cap x = tier_sizes ! j" by (metis in_set_conv_nth)
    with tier_of_size Some have "bf_cap x = tier_sizes ! i" by simp
    then show ?thesis
      using assms(1) w \<open>b = Some x\<close> Some i by (auto simp: pool_PutBuffer_def pool_wf_def whole_def nth_list_update)
  qed (use assms(1) \<open>b = Some x\<close> in \<open>simp add: pool_PutBuffer_def\<close>)
qed (use assms(1) in \<open>simp add: pool_PutBuffer_def\<close>)

text \<open>Users of the pool: they get buffers, write to them and return buffers they hold.\<close>

datatype pool_op = Get nat nat | Put nat

fun pool_run :: "pool_op list \<Rightarrow> bufferPool \<times> buffer list \<Rightarrow> bufferPool \<times> buffer list" where
  "pool_run [] s = s"
| "pool_run (Get minCap pick # ops) (p, held) = (let (b, p') = GetBuffer minCap pick p in pool_run ops (p', held @ [b]))"
| "pool_run (Put k # ops) (p, held) =
     (if k < length held
      then pool_run ops (pool_PutBuffer (Some (held ! k)) p, take k held @ drop (Suc k) held)
      else pool_run ops (pool_PutBuffer None p, held))"

lemma pool_run_ok:
  "pool_wf p \<Longrightarrow> list_all whole held \<Longrightarrow> pool_run ops (p, held) = (p', held') \<Longrightarrow> pool_wf p' \<and> list_all whole held'"
proof (induction ops "(p, held)" arbitrary: p held rule: pool_run.induct)
  case (2 minCap pick ops p held)
  obtain b p1 where g: "GetBuffer minCap pick p = (b, p1)" by force
  from GetBuffer_ok [OF "2.prems"(1) g] "2.hyps" [OF g [symmetric] refl] "2.prems" g show ?case by simp
next
  case (3 k ops p held)
  have "list_all whole (take k held @ drop (Suc k) held)"
    using "3.prems"(2) by (auto simp: list_all_iff dest: in_set_takeD in_set_dropD)
  moreover have "whole (held ! k)" if "k < length held" using "3.prems"(2) that by (simp add: list_all_length)
  ultimately show ?case
    using 3 PutBuffer_ok [OF "3.prems"(1), of "Some (held ! k)"] PutBuffer_ok [OF "3.prems"(1), of None]
    by (auto split: if_splits)
qed simp



text \<open>
  The hypothesis on returned buffers matters. The pool files a buffer by its capacity, rounded up
  to a tier: a buffer of 600 bytes is handed out to a caller who asks for 1024.
\<close>

lemma short_buffer_returned:
  "bf_len (fst (GetBuffer 1024 0 (pool_PutBuffer (Some (make_buffer 600)) NewBufferPool))) = 600"
  by (simp add: GetBuffer_def pool_PutBuffer_def tier_of_def buffer_sizes make_buffer_def NewBufferPool_def pool_Get_def)

end
