(* ===== verification/Tunnel_Client.thy ===== *)
theory Tunnel_Client
  imports Tunnel_Frame Conntrack_History Buffer_Pool
begin

text \<open>
  The inbound side of the client (\<^verbatim>\<open>processInbound\<close> of \<^verbatim>\<open>pkg/client/handlers.go\<close>): packets from
  the server are cut out of the stream and sent on to the adapter. The destination of an IPv4
  packet is what the connection tracker knows, that of an IPv6 packet the address of the
  adapter.
\<close>

record client_in =
  ci_env :: "(bytes \<times> bool) list"
  ci_inbound :: "IPPacket list"
  ci_pool :: "bytes list"
  ci_conntrack :: Conntrack
  ci_clock :: "int list"

text \<open>The length of a buffer that the tiered pool makes.\<close>

definition tier_size :: "nat \<Rightarrow> nat" where
  "tier_size n = bf_len (fst (GetBuffer n 0 NewBufferPool))"

definition client_set_destination :: "(bytes \<Rightarrow> u64) \<Rightarrow> ip \<Rightarrow> ip \<Rightarrow> int \<Rightarrow> IPPacket \<Rightarrow> bytes \<Rightarrow> Conntrack \<Rightarrow>
    (IPPacket \<times> Conntrack) result" where
  "client_set_destination xx adapterIP adapterIP6 now prePkt buf ct =
     (case prePkt of
        IPv4Packet _ \<Rightarrow> rbind (map_inbound xx adapterIP now buf ct) (\<lambda>(b, ct'). Inr (IPv4Packet b, ct'))
      | IPv6Packet _ \<Rightarrow> rbind (IPv6_SetDestinationIP buf adapterIP6) (\<lambda>b. Inr (IPv6Packet b, ct)))"

text \<open>A packet that is too long is skipped before the code asks whether it is complete.\<close>

definition client_body :: "(bytes \<Rightarrow> u64) \<Rightarrow> nat \<Rightarrow> ip \<Rightarrow> ip \<Rightarrow> bytes \<Rightarrow> nat \<Rightarrow> client_in \<Rightarrow> (client_in \<times> nat) option result" where
  "client_body xx mtu adapterIP adapterIP6 unprocessed processed s =
     rbind (slice unprocessed processed (length unprocessed)) (\<lambda>v.
     rbind (packet_view v) (\<lambda>prePkt.
     rbind (TotalLength prePkt) (\<lambda>totalLen.
       if totalLen > mtu then Inr (Some (s, processed + totalLen))
       else if processed + totalLen > length unprocessed then Inr None
       else
         let ((buf, room), env) = next_env (tier_size mtu) (ci_env s)
         in rbind (fill buf totalLen (take totalLen v)) (\<lambda>buf1.
            rbind (client_set_destination xx adapterIP adapterIP6 (hd (ci_clock s @ [0])) prePkt buf1 (ci_conntrack s))
              (\<lambda>(pkt, ct).
            rbind (UpdateChecksum pkt) (\<lambda>pkt1.
              Inr (Some (s\<lparr>ci_env := env,
                  ci_inbound := ci_inbound s @ (if room then [pkt1] else []),
                  ci_pool := (if room then [] else [Packet_Bytes pkt1]) @ ci_pool s,
                  ci_conntrack := ct, ci_clock := tl (ci_clock s)\<rparr>,
                processed + totalLen))))))))"

definition processInbound ::
  "(bytes \<Rightarrow> u64) \<Rightarrow> nat \<Rightarrow> ip \<Rightarrow> ip \<Rightarrow> nat list \<Rightarrow> bytes \<Rightarrow> client_in \<Rightarrow> (client_in \<times> bytes \<times> bytes) result option" where
  "processInbound xx mtu adapterIP adapterIP6 reads stream s =
     inbound_loop (client_body xx mtu adapterIP adapterIP6) reads stream [] s"

section \<open>What the body does with a packet\<close>

definition client_good :: "nat \<Rightarrow> bytes \<Rightarrow> bool" where
  "client_good mtu p \<longleftrightarrow> framed p \<and> length p \<le> mtu \<and> length p \<le> readBufferSize"

definition client_inv :: "nat \<Rightarrow> client_in \<Rightarrow> bool" where
  "client_inv mtu s \<longleftrightarrow> list_all (\<lambda>(buf, room). mtu \<le> length buf) (ci_env s)"

text \<open>
  The destination of a delivered packet: that of the connection the packet belongs to, its own
  when there is none, and the address of the adapter for IPv6.
\<close>

fun destination_ok :: "(bytes \<Rightarrow> u64) \<Rightarrow> ip \<Rightarrow> ip \<Rightarrow> bytes \<Rightarrow> Conntrack \<Rightarrow> IPPacket \<Rightarrow> bool" where
  "destination_ok xx a a6 p ct (IPv4Packet q) \<longleftrightarrow>
     (\<exists>t. NewTuple (IPv4Packet p) = Inr t \<and>
       (case Conntrack_Load xx ct (t\<lparr>t_DestIP := a\<rparr>) of
          None \<Rightarrow> DestinationIP (IPv4Packet q) = DestinationIP (IPv4Packet p)
        | Some x \<Rightarrow> length (e_InMappedDst (ct_heap ct ! x)) = 4 \<longrightarrow>
            DestinationIP (IPv4Packet q) = Inr (e_InMappedDst (ct_heap ct ! x))))"
| "destination_ok xx a a6 p ct (IPv6Packet q) \<longleftrightarrow> (length a6 = 16 \<longrightarrow> DestinationIP (IPv6Packet q) = Inr a6)"

definition client_delivers :: "(bytes \<Rightarrow> u64) \<Rightarrow> nat \<Rightarrow> ip \<Rightarrow> ip \<Rightarrow> bytes \<Rightarrow> client_in \<Rightarrow> client_in \<Rightarrow> bool" where
  "client_delivers xx mtu a a6 p s s' \<longleftrightarrow>
     (\<exists>pkt. conveys Destination p pkt \<and> destination_ok xx a a6 p (ci_conntrack s) pkt \<and>
        ci_env s' = snd (next_env (tier_size mtu) (ci_env s)) \<and>
        ci_inbound s' = ci_inbound s @ (if snd (fst (next_env (tier_size mtu) (ci_env s))) then [pkt] else []))"

lemma tier_size_ge: "n \<le> tier_size n"
  unfolding tier_size_def by (rule GetBuffer_ok(2) [OF pool_wf_New]) (rule prod.collapse [symmetric])

lemma client_next_env_ok:
  assumes "client_inv mtu s" "next_env (tier_size mtu) (ci_env s) = ((buf, room), env)"
  shows "mtu \<le> length buf" "list_all (\<lambda>(buf, room). mtu \<le> length buf) env"
  using assms tier_size_ge [of mtu] by (auto simp: next_env_def client_inv_def split: list.splits)

text \<open>The tuple of a packet does not depend on the bytes behind it.\<close>

lemma NewTuple_append:
  assumes "framed p" "packet_view p = Inr (IPv4Packet p)"
  shows "\<exists>t. NewTuple (IPv4Packet p) = Inr t \<and> NewTuple (IPv4Packet (p @ rest)) = Inr t"
proof -
  have p: "IPv4_TotalLength p = Inr (length p)" "packet_wf (IPv4Packet p)" "20 \<le> length p"
    using assms by (cases rule: framed_cases; simp)+
  have ne: "p \<noteq> []" using p(3) by auto
  have tl: "total_len p = length p" using p by (simp add: IPv4_TotalLength_def total_len_def)
  have h0: "20 \<le> header_len p" "header_len p \<le> length p"
    and h1: "p ! 9 = 6 \<longrightarrow> header_len p + 20 \<le> length p" "p ! 9 = 17 \<longrightarrow> header_len p + 8 \<le> length p"
      "p ! 9 = 1 \<longrightarrow> header_len p + 4 \<le> length p" using p(2) tl by simp_all
  have off: "IPv4_PayloadOffset p = Inr (header_len p)" "IPv4_PayloadOffset (p @ rest) = Inr (header_len p)"
    using ne by (simp_all add: IPv4_PayloadOffset_def header_len_def nth_append)
  have icmp: "getICMPProtocolData (IPv4Packet (p @ rest)) = getICMPProtocolData (IPv4Packet p) \<and>
      (\<exists>d. getICMPProtocolData (IPv4Packet p) = Inr d)" if "p ! 9 = 1"
  proof -
    have "Suc 0 < length p - header_len p" "header_len p < length p" using h1(3) that by linarith+
    then show ?thesis using off by (simp add: getICMPProtocolData_def nth_append)
  qed
  show ?thesis
    using p(3) ne h0 h1 icmp
    by (auto simp: NewTuple_def IPv4_Version_def IPv4_Protocol_def IPv4_SourcePort_def IPv4_DestinationPort_def
        IPv4_SourceIP_def IPv4_DestinationIP_def nth_append get16_append_left proto_consts)
qed

lemma splice_self: "i + n \<le> length b \<Longrightarrow> splice b i (take n (drop i b)) = b"
  by (rule nth_equalityI) (auto simp: nth_splice)

lemma map_inbound_ok:
  assumes "framed p" "packet_view p = Inr (IPv4Packet p)" "length p \<le> length buf"
  shows "\<exists>b ct' q. map_inbound xx a now (p @ drop (length p) buf) ct = Inr (b, ct') \<and>
    UpdateChecksum (IPv4Packet b) = Inr (IPv4Packet q) \<and> conveys Destination p (IPv4Packet q) \<and>
    destination_ok xx a a6 p ct (IPv4Packet q)"
proof -
  let ?b0 = "p @ drop (length p) buf"
  obtain t where t: "NewTuple (IPv4Packet p) = Inr t" "NewTuple (IPv4Packet ?b0) = Inr t"
    using NewTuple_append [OF assms(1,2)] by blast
  have lp: "20 \<le> length p" using assms(1) by (simp add: framed_def)
  show ?thesis
  proof (cases "Conntrack_Load xx ct (t\<lparr>t_DestIP := a\<rparr>)")
    case None
    have "take 4 (drop 16 ?b0) = take 4 (drop 16 p)" using lp by simp
    then have "copy_addr ?b0 16 20 (Some (take 4 (drop 16 p))) = Inr ?b0"
      using splice_self [of 16 4 ?b0] lp assms(3) by (simp add: copy_addr_def)
    with rewritten_v4 [OF assms, of Destination 16 20 "Some (take 4 (drop 16 p))"] lp obtain q where
      "UpdateChecksum (IPv4Packet ?b0) = Inr (IPv4Packet q)" "conveys Destination p (IPv4Packet q)"
      "slice q 16 20 = Inr (take 4 (drop 16 p))" by auto
    then show ?thesis using None t lp by (auto simp: map_inbound_def IPv4_DestinationIP_def)
  next
    case (Some x)
    let ?m = "e_InMappedDst (ct_heap ct ! x)"
    show ?thesis
    proof (cases "?m = []")
      case True
      have "copy_addr ?b0 16 20 None = Inr ?b0" using lp assms(3) by (simp add: copy_addr_def splice_def)
      with rewritten_v4 [OF assms, of Destination 16 20 None] obtain q where
        "UpdateChecksum (IPv4Packet ?b0) = Inr (IPv4Packet q)" "conveys Destination p (IPv4Packet q)" by auto
      then show ?thesis using Some t True by (auto simp: map_inbound_def Let_def)
    next
      case False
      from rewritten_v4 [OF assms, of Destination 16 20 "To4 ?m"] obtain b q where
        "IPv4_SetDestinationIP ?b0 ?m = Inr b" "UpdateChecksum (IPv4Packet b) = Inr (IPv4Packet q)"
        "conveys Destination p (IPv4Packet q)" "length ?m = 4 \<longrightarrow> slice q 16 20 = Inr ?m"
        by (auto simp: IPv4_SetDestinationIP_def To4_def)
      then show ?thesis using Some t False by (auto simp: map_inbound_def Let_def IPv4_DestinationIP_def)
    qed
  qed
qed

lemma client_set_destination_ok:
  assumes "framed p" "packet_view p = Inr pkt0" "length p \<le> length buf" "same_version pkt0 pre"
  shows "\<exists>b ct' q. client_set_destination xx a a6 now pre (p @ drop (length p) buf) ct = Inr (b, ct') \<and>
    UpdateChecksum b = Inr q \<and> conveys Destination p q \<and> destination_ok xx a a6 p ct q"
proof (cases pkt0)
  case (IPv4Packet w)
  then have w: "packet_view p = Inr (IPv4Packet p)" and v: "\<exists>v. pre = IPv4Packet v"
    using assms(2,4) by (auto simp: packet_view_iff elim: same_version.elims)
  from map_inbound_ok [OF assms(1) w assms(3), of xx a now ct a6] obtain b ct' q where
    m: "map_inbound xx a now (p @ drop (length p) buf) ct = Inr (b, ct')" "UpdateChecksum (IPv4Packet b) = Inr (IPv4Packet q)"
    "conveys Destination p (IPv4Packet q)" "destination_ok xx a a6 p ct (IPv4Packet q)" by blast
  then have "client_set_destination xx a a6 now pre (p @ drop (length p) buf) ct = Inr (IPv4Packet b, ct')"
    using v by (auto simp: client_set_destination_def)
  with m show ?thesis by blast
next
  case (IPv6Packet w)
  then have w: "packet_view p = Inr (IPv6Packet p)" and v: "\<exists>v. pre = IPv6Packet v"
    using assms(2,4) by (auto simp: packet_view_iff elim: same_version.elims)
  from rewritten_v6 [OF assms(1) w assms(3), of Destination 24 40 "To16 a6"] obtain b q where
    q: "IPv6_SetDestinationIP (p @ drop (length p) buf) a6 = Inr b" "UpdateChecksum (IPv6Packet b) = Inr (IPv6Packet q)"
    "conveys Destination p (IPv6Packet q)" "length a6 = 16 \<longrightarrow> slice q 24 40 = Inr a6"
    by (auto simp: IPv6_SetDestinationIP_def To16_def)
  then have "client_set_destination xx a a6 now pre (p @ drop (length p) buf) ct = Inr (IPv6Packet b, ct)"
    using v by (auto simp: client_set_destination_def)
  moreover have "destination_ok xx a a6 p ct (IPv6Packet q)" using q(4) by (simp add: IPv6_DestinationIP_def)
  ultimately show ?thesis using q(2,3) by blast
qed

lemma client_body_whole:
  assumes good: "client_good mtu p" and inv: "client_inv mtu s"
  shows "\<exists>s'. client_body xx mtu a a6 (pre @ p @ post) (length pre) s = Inr (Some (s', length pre + length p)) \<and>
    client_delivers xx mtu a a6 p s s' \<and> client_inv mtu s'"
proof -
  have p: "framed p" "length p \<le> mtu" "20 \<le> length p" using good by (simp_all add: client_good_def framed_def)
  let ?v = "p @ post"
  from view_front [OF p(1), of ?v] p(3) obtain pkt pkt0 where
    v: "packet_view ?v = Inr pkt" "TotalLength pkt = Inr (length p)" "packet_view p = Inr pkt0" "same_version pkt0 pkt" by auto
  obtain buf room env where env: "next_env (tier_size mtu) (ci_env s) = ((buf, room), env)" by (metis prod.collapse)
  note buf = client_next_env_ok [OF inv env]
  have fill: "fill buf (length p) (take (length p) ?v) = Inr (p @ drop (length p) buf)"
    using p(2) buf(1) fill_ok [of p buf] by (simp add: fill_def)
  from client_set_destination_ok [OF p(1) v(3) _ v(4), of buf xx a a6 "hd (ci_clock s @ [0])" "ci_conntrack s"] p(2) buf(1)
  obtain b ct q where q: "client_set_destination xx a a6 (hd (ci_clock s @ [0])) pkt (p @ drop (length p) buf) (ci_conntrack s) = Inr (b, ct)"
    "UpdateChecksum b = Inr q" "conveys Destination p q" "destination_ok xx a a6 p (ci_conntrack s) q" by auto
  let ?s' = "s\<lparr>ci_env := env, ci_inbound := ci_inbound s @ (if room then [q] else []),
      ci_pool := (if room then [] else [Packet_Bytes q]) @ ci_pool s, ci_conntrack := ct, ci_clock := tl (ci_clock s)\<rparr>"
  have "client_body xx mtu a a6 (pre @ ?v) (length pre) s = Inr (Some (?s', length pre + length p))"
    using v p(2) env fill q(1,2) by (simp add: client_body_def)
  moreover have "client_delivers xx mtu a a6 p s ?s'"
    using q(3,4) env unfolding client_delivers_def by (intro exI [of _ q]) simp
  moreover have "client_inv mtu ?s'" using buf(2) by (simp add: client_inv_def)
  ultimately show ?thesis by blast
qed

lemma client_body_partial:
  assumes "client_good mtu p" "strict_prefix q p" "20 \<le> length q"
  shows "client_body xx mtu a a6 (pre @ q) (length pre) s = Inr None"
proof -
  have p: "framed p" "length p \<le> mtu" using assms(1) by (simp_all add: client_good_def)
  have "take 20 q = take 20 p" using assms(2,3) by (auto simp: strict_prefix_def prefix_def)
  moreover have "length q < length p" using assms(2) by (rule prefix_length_less)
  ultimately show ?thesis
    using view_front [OF p(1) assms(3)] p(2) by (auto simp: client_body_def)
qed

interpretation client_frames: framing "client_body xx mtu a a6" "client_good mtu" "client_inv mtu" "client_delivers xx mtu a a6"
  for xx mtu a a6
proof unfold_locales
  show "20 \<le> length p \<and> length p \<le> readBufferSize" if "client_good mtu p" for p
    using that by (simp add: client_good_def framed_def)
qed (erule (1) client_body_whole, rule client_body_partial)

lemma client_body_advances:
  assumes "client_body xx mtu a a6 u i s = Inr (Some (s', n))" "\<not> zero_header (drop i u)"
  shows "i < n"
proof -
  from assms(1) obtain v pkt l where v: "slice u i (length u) = Inr v" "packet_view v = Inr pkt" "TotalLength pkt = Inr l"
    and n: "n = i + l"
    by (auto simp: client_body_def go_simps Let_def split: if_splits prod.splits)
  have "v = drop i u" using v(1) by (simp add: slice_Inr_iff)
  then show ?thesis using packet_view_positive [OF v(2,3)] assms(2) n by simp
qed

interpretation client_advances: advancing "client_body xx mtu a a6" for xx mtu a a6
  by unfold_locales (rule client_body_advances)

text \<open>
  A packet longer than the adapter allows that has not arrived completely: the index runs past
  the end of the buffer and the slice expression behind the loop panics.
\<close>

lemma client_oversize_panics:
  assumes "packet_view u = Inr pkt" "TotalLength pkt = Inr n" "mtu < n" "length u < n" "20 \<le> length u"
  shows "read_packets (client_body xx mtu a a6) u s = Some (Inl Panic)"
proof -
  have "client_body xx mtu a a6 u 0 s = Inr (Some (s, n))" using assms by (simp add: client_body_def)
  then have "frame_loop (client_body xx mtu a a6) u 0 s = Some (Inr (s, n))"
    using assms(4,5) by (simp add: frame_loop.simps)
  then show ?thesis using assms(4) by (simp add: read_packets_def keep_rest_def slice_def Let_def)
qed

lemma client_body_stuck:
  assumes z: "zero_header u" and u: "20 \<le> length u" and env: "ci_env s = []"
  shows "\<exists>s'. client_body xx mtu a a6 u 0 s = Inr (Some (s', 0)) \<and> ci_env s' = []"
proof -
  let ?z = "replicate (tier_size mtu) 0 :: bytes"
  have view: "packet_view u = Inr (IPv4Packet u)" using z by (simp add: packet_view_iff zero_header_def)
  have l: "TotalLength (IPv4Packet u) = Inr 0" using z by (simp add: zero_header_def)
  have size: "512 \<le> tier_size mtu"
    by (simp add: tier_size_def GetBuffer_def tier_of_def pool_Get_def NewBufferPool_def make_buffer_def tier_sizes_def buffer_sizes)
  then have ne: "?z \<noteq> []" by auto
  obtain t where t: "NewTuple (IPv4Packet ?z) = Inr t"
    using size ne by (auto simp: NewTuple_def IPv4_Version_def IPv4_Protocol_def IPv4_SourceIP_def IPv4_DestinationIP_def proto_consts)
  have "\<exists>b c. map_inbound xx a now ?z ct = Inr (b, c) \<and> length b = length ?z \<and> (\<forall>k < length ?z. k < 16 \<or> 20 \<le> k \<longrightarrow> b ! k = ?z ! k)"
    for now ct
  proof (cases "Conntrack_Load xx ct (t\<lparr>t_DestIP := a\<rparr>)")
    case (Some x)
    from SetDestination_ok [of ?z "e_InMappedDst (ct_heap ct ! x)"] size Some t show ?thesis
      by (auto simp: map_inbound_def Let_def)
  qed (use t in \<open>auto simp: map_inbound_def\<close>)
  then obtain b c where b: "map_inbound xx a (hd (ci_clock s @ [0])) ?z (ci_conntrack s) = Inr (b, c)" "length b = length ?z"
    "\<forall>k < length ?z. k < 16 \<or> 20 \<le> k \<longrightarrow> b ! k = ?z ! k" by blast
  from zero_buffer_checksum [of b] b size obtain q where "UpdateChecksum (IPv4Packet b) = Inr (IPv4Packet q)" by auto
  moreover have "splice ?z 0 [] = ?z" by (simp add: splice_def)
  ultimately show ?thesis
    using view l env b(1) by (simp add: client_body_def next_env_def fill_def client_set_destination_def)
qed

end
