(* ===== verification/Tunnel_Server.thy ===== *)
theory Tunnel_Server
  imports Tunnel_Frame
begin

text \<open>
  The server side of a client connection (\<^verbatim>\<open>pkg/server/handlers.go\<close>, \<^verbatim>\<open>pkg/server/streams.go\<close>):
  inbound bytes are cut into packets, which get the source address the server gave the client;
  outbound packets are collected in batches.

  The buffers of the pool keep the bytes of earlier packets: the environment of the loop lists,
  for every packet, the buffer that the pool hands out and whether the queue has room at that
  moment; behind its end the pool makes new buffers and the queue has room.
\<close>

section \<open>Inbound\<close>

record server_in =
  si_env :: "(bytes \<times> bool) list"
  si_inbound :: "IPPacket list"
  si_pool :: "bytes list"

text \<open>The arguments of the log call for a packet that is too long; they are evaluated, whatever the log level.\<close>

definition describe :: "IPPacket \<Rightarrow> unit result" where
  "describe pkt =
     rbind (Packet_Protocol pkt) (\<lambda>_. rbind (SourcePort pkt) (\<lambda>_. rbind (SourceIP pkt) (\<lambda>_.
     rbind (DestinationIP pkt) (\<lambda>_. rbind (DestinationPort pkt) (\<lambda>_. Inr ())))))"

definition server_set_source :: "ip \<Rightarrow> ip \<Rightarrow> IPPacket \<Rightarrow> bytes \<Rightarrow> IPPacket result" where
  "server_set_source sourceIP sourceIP6 prePkt buf =
     (case prePkt of
        IPv4Packet _ \<Rightarrow> rbind (IPv4_SetSourceIP buf sourceIP) (\<lambda>b. Inr (IPv4Packet b))
      | IPv6Packet _ \<Rightarrow>
          if sourceIP6 \<noteq> [] then rbind (IPv6_SetSourceIP buf sourceIP6) (\<lambda>b. Inr (IPv6Packet b))
          else Inr (IPv6Packet buf))"

definition server_body :: "nat \<Rightarrow> ip \<Rightarrow> ip \<Rightarrow> bytes \<Rightarrow> nat \<Rightarrow> server_in \<Rightarrow> (server_in \<times> nat) option result" where
  "server_body mtu sourceIP sourceIP6 unprocessed processed s =
     rbind (slice unprocessed processed (length unprocessed)) (\<lambda>v.
     rbind (packet_view v) (\<lambda>prePkt.
     rbind (TotalLength prePkt) (\<lambda>totalLen.
       if processed + totalLen > length unprocessed then Inr None
       else if totalLen > mtu then rbind (describe prePkt) (\<lambda>_. Inr (Some (s, processed + totalLen)))
       else
         let ((buf, room), env) = next_env mtu (si_env s)
         in rbind (fill buf totalLen (take totalLen v)) (\<lambda>buf1.
            rbind (server_set_source sourceIP sourceIP6 prePkt buf1) (\<lambda>pkt.
            rbind (UpdateChecksum pkt) (\<lambda>pkt1.
              Inr (Some (s\<lparr>si_env := env,
                  si_inbound := si_inbound s @ (if room then [pkt1] else []),
                  si_pool := (if room then [] else [Packet_Bytes pkt1]) @ si_pool s\<rparr>,
                processed + totalLen))))))))"

definition server_handleInbound ::
  "nat \<Rightarrow> ip \<Rightarrow> ip \<Rightarrow> nat list \<Rightarrow> bytes \<Rightarrow> server_in \<Rightarrow> (server_in \<times> bytes \<times> bytes) result option" where
  "server_handleInbound mtu sourceIP sourceIP6 reads stream s =
     inbound_loop (server_body mtu sourceIP sourceIP6) reads stream [] s"

section \<open>What the body does with a packet\<close>

definition server_good :: "nat \<Rightarrow> bytes \<Rightarrow> bool" where
  "server_good mtu p \<longleftrightarrow> framed p \<and> length p \<le> mtu \<and> length p \<le> readBufferSize"

definition server_inv :: "nat \<Rightarrow> server_in \<Rightarrow> bool" where
  "server_inv mtu s \<longleftrightarrow> list_all (\<lambda>(buf, room). length buf = mtu) (si_env s)"

fun has_source :: "ip \<Rightarrow> ip \<Rightarrow> IPPacket \<Rightarrow> bool" where
  "has_source a a6 (IPv4Packet q) \<longleftrightarrow> (length a = 4 \<longrightarrow> SourceIP (IPv4Packet q) = Inr a)"
| "has_source a a6 (IPv6Packet q) \<longleftrightarrow> (length a6 = 16 \<longrightarrow> SourceIP (IPv6Packet q) = Inr a6)"

definition server_delivers :: "nat \<Rightarrow> ip \<Rightarrow> ip \<Rightarrow> bytes \<Rightarrow> server_in \<Rightarrow> server_in \<Rightarrow> bool" where
  "server_delivers mtu a a6 p s s' \<longleftrightarrow>
     (\<exists>pkt. conveys Source p pkt \<and> has_source a a6 pkt \<and>
        si_env s' = snd (next_env mtu (si_env s)) \<and>
        si_inbound s' = si_inbound s @ (if snd (fst (next_env mtu (si_env s))) then [pkt] else []))"

lemma next_env_ok:
  assumes "server_inv mtu s" "next_env mtu (si_env s) = ((buf, room), env)"
  shows "length buf = mtu" "list_all (\<lambda>(buf, room). length buf = mtu) env"
  using assms by (auto simp: next_env_def server_inv_def split: list.splits)

lemma server_set_source_ok:
  assumes "framed p" "packet_view p = Inr pkt0" "length p \<le> length buf" "same_version pkt0 pre"
  shows "\<exists>b q. server_set_source a a6 pre (p @ drop (length p) buf) = Inr b \<and> UpdateChecksum b = Inr q \<and>
    conveys Source p q \<and> has_source a a6 q"
proof (cases pkt0)
  case (IPv4Packet w)
  then have w: "packet_view p = Inr (IPv4Packet p)" and "\<exists>v. pre = IPv4Packet v"
    using assms(2,4) by (auto simp: packet_view_iff elim: same_version.elims)
  from rewritten_v4 [OF assms(1) w assms(3), of Source 12 16 "To4 a"] this(2) show ?thesis
    by (auto simp: server_set_source_def IPv4_SetSourceIP_def IPv4_SourceIP_def To4_def)
next
  case (IPv6Packet w)
  then have w: "packet_view p = Inr (IPv6Packet p)" and v: "\<exists>v. pre = IPv6Packet v"
    using assms(2,4) by (auto simp: packet_view_iff elim: same_version.elims)
  show ?thesis
  proof (cases "a6 = []")
    case True
    have "splice b 8 [] = b" for b :: bytes by (simp add: splice_def)
    with rewritten_v6 [OF assms(1) w assms(3), of Source 8 24 None] v True show ?thesis
      by (auto simp: server_set_source_def copy_addr_def split: if_splits)
  next
    case False
    from rewritten_v6 [OF assms(1) w assms(3), of Source 8 24 "To16 a6"] v False show ?thesis
      by (auto simp: server_set_source_def IPv6_SetSourceIP_def IPv6_SourceIP_def To16_def)
  qed
qed

lemma server_body_whole:
  assumes good: "server_good mtu p" and inv: "server_inv mtu s"
  shows "\<exists>s'. server_body mtu a a6 (pre @ p @ post) (length pre) s = Inr (Some (s', length pre + length p)) \<and>
    server_delivers mtu a a6 p s s' \<and> server_inv mtu s'"
proof -
  have p: "framed p" "length p \<le> mtu" "20 \<le> length p" using good by (simp_all add: server_good_def framed_def)
  let ?v = "p @ post"
  from view_front [OF p(1), of ?v] p(3) obtain pkt pkt0 where
    v: "packet_view ?v = Inr pkt" "TotalLength pkt = Inr (length p)" "packet_view p = Inr pkt0" "same_version pkt0 pkt" by auto
  obtain buf room env where env: "next_env mtu (si_env s) = ((buf, room), env)" by (metis prod.collapse)
  note buf = next_env_ok [OF inv env]
  have fill: "fill buf (length p) (take (length p) ?v) = Inr (p @ drop (length p) buf)"
    using p(2) buf(1) fill_ok [of p buf] by (simp add: fill_def)
  from server_set_source_ok [OF p(1) v(3) _ v(4), of buf a a6] p(2) buf(1) obtain b q where
    q: "server_set_source a a6 pkt (p @ drop (length p) buf) = Inr b" "UpdateChecksum b = Inr q"
    "conveys Source p q" "has_source a a6 q" by auto
  let ?s' = "s\<lparr>si_env := env, si_inbound := si_inbound s @ (if room then [q] else []),
      si_pool := (if room then [] else [Packet_Bytes q]) @ si_pool s\<rparr>"
  have "server_body mtu a a6 (pre @ ?v) (length pre) s = Inr (Some (?s', length pre + length p))"
    using v p(2) env fill q(1,2) by (simp add: server_body_def)
  moreover have "server_delivers mtu a a6 p s ?s'"
    using q(3,4) env by (auto simp: server_delivers_def)
  moreover have "server_inv mtu ?s'" using buf(2) by (simp add: server_inv_def)
  ultimately show ?thesis by blast
qed

lemma server_body_partial:
  assumes "server_good mtu p" "strict_prefix q p" "20 \<le> length q"
  shows "server_body mtu a a6 (pre @ q) (length pre) s = Inr None"
proof -
  have p: "framed p" using assms(1) by (simp add: server_good_def)
  have "take 20 q = take 20 p" using assms(2,3) by (auto simp: strict_prefix_def prefix_def)
  moreover have "length q < length p" using assms(2) by (rule prefix_length_less)
  ultimately show ?thesis
    using view_front [OF p assms(3)] by (auto simp: server_body_def)
qed

interpretation server_frames: framing "server_body mtu a a6" "server_good mtu" "server_inv mtu" "server_delivers mtu a a6"
  for mtu a a6
proof unfold_locales
  show "20 \<le> length p \<and> length p \<le> readBufferSize" if "server_good mtu p" for p
    using that by (simp add: server_good_def framed_def)
qed (erule (1) server_body_whole, rule server_body_partial)

lemma server_body_advances:
  assumes "server_body mtu a a6 u i s = Inr (Some (s', n))" "\<not> zero_header (drop i u)"
  shows "i < n"
proof -
  from assms(1) obtain v pkt l where v: "slice u i (length u) = Inr v" "packet_view v = Inr pkt" "TotalLength pkt = Inr l"
    and n: "n = i + l"
    by (auto simp: server_body_def go_simps Let_def split: if_splits prod.splits)
  have "v = drop i u" using v(1) by (simp add: slice_Inr_iff)
  then show ?thesis using packet_view_positive [OF v(2,3)] assms(2) n by simp
qed

interpretation server_advances: advancing "server_body mtu a a6" for mtu a a6
  by unfold_locales (rule server_body_advances)

lemma server_body_stuck:
  assumes z: "zero_header u" and u: "20 \<le> length u" and mtu: "20 \<le> mtu" and env: "si_env s = []"
  shows "\<exists>s'. server_body mtu a a6 u 0 s = Inr (Some (s', 0)) \<and> si_env s' = []"
proof -
  let ?z = "replicate mtu 0 :: bytes"
  have view: "packet_view u = Inr (IPv4Packet u)" using z by (simp add: packet_view_iff zero_header_def)
  have l: "TotalLength (IPv4Packet u) = Inr 0" using z by (simp add: zero_header_def)
  from copy_addr_ok [of 12 16 ?z "To4 a"] mtu obtain b where b: "IPv4_SetSourceIP ?z a = Inr b" "length b = mtu"
    "\<forall>k < mtu. k < 12 \<or> 16 \<le> k \<longrightarrow> b ! k = 0" by (auto simp: IPv4_SetSourceIP_def)
  from zero_buffer_checksum [of b] b mtu obtain q where "UpdateChecksum (IPv4Packet b) = Inr (IPv4Packet q)" by auto
  moreover have "splice ?z 0 [] = ?z" by (simp add: splice_def)
  ultimately show ?thesis
    using view l env b(1) by (simp add: server_body_def next_env_def fill_def server_set_source_def)
qed

end
