(* ===== verification/Tunnel_Outbound.thy ===== *)
theory Tunnel_Outbound
  imports Tunnel_Frame Conntrack_Table
begin

text \<open>
  The outbound side of a tunnel without streams: packets from the queue are appended to a batch
  of at most 64 KB, which is written to the connection when it is full and when the queue is
  empty (\<^verbatim>\<open>processOutboundConn\<close> of \<^verbatim>\<open>pkg/client/handlers.go\<close>, \<^verbatim>\<open>handleOutboundConn\<close> of
  \<^verbatim>\<open>pkg/server/streams.go\<close>). The client records its packets in the connection tracker first.

  The answers of the connection to \<^verbatim>\<open>Write\<close> are an argument: how many bytes it took, and with
  which error. Behind the end of the list it takes everything.
\<close>

section \<open>Writing to the connection\<close>

datatype write_error = ErrShortWrite | ErrUnexpectedEOF | ErrConn

record conn_out =
  co_answers :: "(nat \<times> write_error option) list"
  co_written :: "bytes list"

definition conn_Write :: "bytes \<Rightarrow> conn_out \<Rightarrow> (nat \<times> write_error option) \<times> conn_out" where
  "conn_Write b c =
     (case co_answers c of
        [] \<Rightarrow> ((length b, None), c\<lparr>co_written := co_written c @ [b]\<rparr>)
      | (k, e) # as \<Rightarrow>
          (let n = min k (length b)
           in ((n, e), c\<lparr>co_answers := as, co_written := co_written c @ [take n b]\<rparr>)))"

text \<open>The loop of \<^verbatim>\<open>flushOutboundBatch\<close>.\<close>

function flush_bytes :: "bytes \<Rightarrow> conn_out \<Rightarrow> write_error option \<times> conn_out" where
  "flush_bytes batch c =
     (if batch = [] then (None, c)
      else let r = conn_Write batch c; n = fst (fst r); e = snd (fst r); c' = snd r
           in if e \<noteq> None \<and> e \<noteq> Some ErrShortWrite then (e, c') else flush_bytes (drop n batch) c')"
  by pat_completeness auto

termination
  by (relation "measure (\<lambda>(batch, c). length (co_answers c) + (if batch = [] then 0 else 1))")
    (auto simp: conn_Write_def Let_def split: list.splits prod.splits if_splits)

declare flush_bytes.simps [simp del]

text \<open>The total length that the front of a batch announces; \<open>None\<close> for an unknown version.\<close>

definition front_length :: "bytes \<Rightarrow> nat option result" where
  "front_length batch =
     rbind (IPv4_Version batch) (\<lambda>version.
       if version = 4 then rbind (IPv4_TotalLength batch) (\<lambda>n. Inr (Some n))
       else if version = 6 then rbind (IPv6_TotalLength batch) (\<lambda>n. Inr (Some n))
       else Inr None)"

function flushBatchAsPackets :: "bytes \<Rightarrow> conn_out \<Rightarrow> (write_error option \<times> conn_out) result" where
  "flushBatchAsPackets batch c =
     (if batch = [] then Inr (None, c)
      else if length batch < 20 then Inr (Some ErrUnexpectedEOF, c)
      else rbind (front_length batch) (\<lambda>r.
        case r of
          None \<Rightarrow> Inr (Some ErrUnexpectedEOF, c)
        | Some totalLen \<Rightarrow>
            if totalLen < 20 \<or> totalLen > length batch then Inr (Some ErrUnexpectedEOF, c)
            else let w = conn_Write (take totalLen batch) c; n = fst (fst w); e = snd (fst w); c' = snd w
                 in if e \<noteq> None \<and> e \<noteq> Some ErrShortWrite then Inr (e, c')
                    else if n < totalLen then Inr (Some ErrShortWrite, c')
                    else flushBatchAsPackets (drop totalLen batch) c'))"
  by pat_completeness auto

termination
  by (relation "measure (\<lambda>(batch, c). length batch)") auto

declare flushBatchAsPackets.simps [simp del]

definition flushOutboundBatch :: "bool \<Rightarrow> bytes \<Rightarrow> conn_out \<Rightarrow> (write_error option \<times> conn_out) result" where
  "flushOutboundBatch atomic batch c =
     (if atomic then flushBatchAsPackets batch c else Inr (flush_bytes batch c))"

section \<open>Batches\<close>

record outbound =
  ob_batch :: bytes
  ob_conn :: conn_out
  ob_pool :: "bytes list"

definition maxBatchSize :: nat where
  "maxBatchSize = 64 * 1024"

definition PutBuffer :: "IPPacket \<Rightarrow> 'a outbound_scheme \<Rightarrow> 'a outbound_scheme" where
  "PutBuffer pkt b = b\<lparr>ob_pool := Packet_Bytes pkt # ob_pool b\<rparr>"

text \<open>The client resets the batch in any case, the server only after a successful write.\<close>

definition client_writeBatch :: "bool \<Rightarrow> 'a outbound_scheme \<Rightarrow> (write_error option \<times> 'a outbound_scheme) result" where
  "client_writeBatch atomic b =
     rbind (flushOutboundBatch atomic (ob_batch b) (ob_conn b)) (\<lambda>(e, c).
       Inr (e, b\<lparr>ob_conn := c, ob_batch := []\<rparr>))"

definition server_writeBatch :: "bool \<Rightarrow> 'a outbound_scheme \<Rightarrow> (write_error option \<times> 'a outbound_scheme) result" where
  "server_writeBatch atomic b =
     rbind (flushOutboundBatch atomic (ob_batch b) (ob_conn b)) (\<lambda>(e, c).
       Inr (e, if e \<noteq> None then b\<lparr>ob_conn := c\<rparr> else b\<lparr>ob_conn := c, ob_batch := []\<rparr>))"

text \<open>
  Appending a packet of a valid length. After the packet has been copied its buffer goes back
  to the pool; the server gives it back a second time when the write behind it fails
  (\<open>again\<close>).
\<close>

definition append_packet ::
  "('a outbound_scheme \<Rightarrow> (write_error option \<times> 'a outbound_scheme) result) \<Rightarrow> bool \<Rightarrow> IPPacket \<Rightarrow> nat \<Rightarrow>
   'a outbound_scheme \<Rightarrow> (write_error option \<times> 'a outbound_scheme) result" where
  "append_packet writeBatch again pkt totalLen b0 =
     rbind (if length (ob_batch b0) + totalLen > maxBatchSize then writeBatch b0 else Inr (None, b0)) (\<lambda>(e, b1).
       if e \<noteq> None then Inr (e, PutBuffer pkt b1)
       else let b2 = PutBuffer pkt (b1\<lparr>ob_batch := ob_batch b1 @ take totalLen (Packet_Bytes pkt)\<rparr>)
            in if length (ob_batch b2) \<ge> maxBatchSize
               then rbind (writeBatch b2) (\<lambda>(e, b3). Inr (e, if e \<noteq> None \<and> again then PutBuffer pkt b3 else b3))
               else Inr (None, b2))"

definition server_processPacket :: "bool \<Rightarrow> IPPacket \<Rightarrow> outbound \<Rightarrow> (write_error option \<times> outbound) result" where
  "server_processPacket atomic pkt b =
     rbind (TotalLength pkt) (\<lambda>totalLen.
       if totalLen = 0 \<or> totalLen > length (Packet_Bytes pkt) then Inr (None, PutBuffer pkt b)
       else append_packet (server_writeBatch atomic) True pkt totalLen b)"

record client_outbound = outbound +
  cb_conntrack :: Conntrack
  cb_clock :: "int list"

definition client_processPacket :: "(bytes \<Rightarrow> u64) \<Rightarrow> ip \<Rightarrow> bool \<Rightarrow> IPPacket \<Rightarrow> client_outbound \<Rightarrow>
    (write_error option \<times> client_outbound) result" where
  "client_processPacket xx adapterIP atomic pkt b =
     rbind (TotalLength pkt) (\<lambda>totalLen.
       if totalLen = 0 \<or> totalLen > length (Packet_Bytes pkt) then Inr (None, PutBuffer pkt b)
       else rbind (track_outbound xx adapterIP (hd (cb_clock b @ [0])) pkt (cb_conntrack b)) (\<lambda>ct.
         append_packet (client_writeBatch atomic) False pkt totalLen
           (b\<lparr>cb_conntrack := ct, cb_clock := tl (cb_clock b)\<rparr>)))"

section \<open>The outbound loop\<close>

text \<open>
  What the queue answers: packets at once, nothing at first and then packets or the end, or that
  it was closed with packets left in it.
\<close>

datatype popped = Packets "IPPacket list" | Waited "IPPacket list option" | Closed "IPPacket list"

fun process_all :: "(IPPacket \<Rightarrow> 'b \<Rightarrow> (write_error option \<times> 'b) result) \<Rightarrow> IPPacket list \<Rightarrow> 'b \<Rightarrow>
    (write_error option \<times> 'b) result" where
  "process_all process [] b = Inr (None, b)"
| "process_all process (pkt # pkts) b =
     rbind (process pkt b) (\<lambda>(e, b'). if e \<noteq> None then Inr (e, b') else process_all process pkts b')"

text \<open>The result says whether the loop goes on (waits for the queue) or has returned.\<close>

fun outbound_loop :: "(IPPacket \<Rightarrow> 'a outbound_scheme \<Rightarrow> (write_error option \<times> 'a outbound_scheme) result) \<Rightarrow>
    ('a outbound_scheme \<Rightarrow> (write_error option \<times> 'a outbound_scheme) result) \<Rightarrow> popped list \<Rightarrow> 'a outbound_scheme \<Rightarrow>
    (bool \<times> 'a outbound_scheme) result" where
  "outbound_loop process writeBatch [] b = Inr (True, b)"
| "outbound_loop process writeBatch (Closed pkts # qs) b = Inr (False, fold PutBuffer pkts b)"
| "outbound_loop process writeBatch (Packets pkts # qs) b =
     rbind (process_all process pkts b) (\<lambda>(e, b').
       if e \<noteq> None then Inr (False, b') else outbound_loop process writeBatch qs b')"
| "outbound_loop process writeBatch (Waited r # qs) b =
     rbind (writeBatch b) (\<lambda>(e, b1).
       if e \<noteq> None then Inr (False, b1)
       else case r of
              None \<Rightarrow> Inr (False, b1)
            | Some pkts \<Rightarrow> rbind (process_all process pkts b1) (\<lambda>(e, b').
                if e \<noteq> None then Inr (False, b') else outbound_loop process writeBatch qs b'))"

definition server_handleOutboundConn :: "bool \<Rightarrow> popped list \<Rightarrow> outbound \<Rightarrow> (bool \<times> outbound) result" where
  "server_handleOutboundConn atomic qs b =
     outbound_loop (server_processPacket atomic) (server_writeBatch atomic) qs b"

definition processOutboundConn :: "(bytes \<Rightarrow> u64) \<Rightarrow> ip \<Rightarrow> bool \<Rightarrow> popped list \<Rightarrow> client_outbound \<Rightarrow>
    (bool \<times> client_outbound) result" where
  "processOutboundConn xx adapterIP atomic qs b =
     outbound_loop (client_processPacket xx adapterIP atomic) (client_writeBatch atomic) qs b"

section \<open>What is written\<close>

text \<open>The bytes of a packet on the wire; a packet with an invalid length is dropped.\<close>

definition wire :: "IPPacket \<Rightarrow> bytes" where
  "wire pkt =
     (case TotalLength pkt of
        Inl _ \<Rightarrow> []
      | Inr n \<Rightarrow> if n = 0 \<or> n > length (Packet_Bytes pkt) then [] else take n (Packet_Bytes pkt))"

definition written :: "'a outbound_scheme \<Rightarrow> bytes" where
  "written b = concat (co_written (ob_conn b))"

fun popped_packets :: "popped \<Rightarrow> IPPacket list" where
  "popped_packets (Packets pkts) = pkts"
| "popped_packets (Waited r) = (case r of None \<Rightarrow> [] | Some pkts \<Rightarrow> pkts)"
| "popped_packets (Closed pkts) = []"

fun queue_open :: "popped \<Rightarrow> bool" where
  "queue_open (Packets pkts) = True"
| "queue_open (Waited r) = (r \<noteq> None)"
| "queue_open (Closed pkts) = False"

text \<open>
  The contract of the two functions the loop is made of, while the connection works (\<open>quiet\<close>)
  and for packets that can be processed (\<open>ok\<close>): nothing is lost, repeated or reordered.
\<close>

locale batching =
  fixes process :: "IPPacket \<Rightarrow> 'a outbound_scheme \<Rightarrow> (write_error option \<times> 'a outbound_scheme) result"
    and writeBatch :: "'a outbound_scheme \<Rightarrow> (write_error option \<times> 'a outbound_scheme) result"
    and quiet :: "'a outbound_scheme \<Rightarrow> bool"
    and ok :: "IPPacket \<Rightarrow> bool"
  assumes write_all: "quiet b \<Longrightarrow>
      \<exists>b'. writeBatch b = Inr (None, b') \<and> quiet b' \<and> ob_batch b' = [] \<and> written b' = written b @ ob_batch b"
    and process_one: "quiet b \<Longrightarrow> ok pkt \<Longrightarrow>
      \<exists>b'. process pkt b = Inr (None, b') \<and> quiet b' \<and> written b' @ ob_batch b' = written b @ ob_batch b @ wire pkt"
begin

lemma process_all_sent:
  "quiet b \<Longrightarrow> list_all ok pkts \<Longrightarrow>
   \<exists>b'. process_all process pkts b = Inr (None, b') \<and> quiet b' \<and>
     written b' @ ob_batch b' = written b @ ob_batch b @ concat (map wire pkts)"
proof (induction pkts arbitrary: b)
  case (Cons pkt pkts)
  from process_one [of b pkt] Cons.prems obtain b1 where b1: "process pkt b = Inr (None, b1)" "quiet b1"
    "written b1 @ ob_batch b1 = written b @ ob_batch b @ wire pkt" by auto
  from Cons.IH [OF b1(2)] Cons.prems(2) obtain b2 where "process_all process pkts b1 = Inr (None, b2)" "quiet b2"
    "written b2 @ ob_batch b2 = written b1 @ ob_batch b1 @ concat (map wire pkts)" by auto
  with b1 show ?case by (auto simp flip: append_assoc)
qed simp

lemma loop_sent:
  "quiet b \<Longrightarrow> list_all queue_open qs \<Longrightarrow> list_all ok (concat (map popped_packets qs)) \<Longrightarrow>
   \<exists>b'. outbound_loop process writeBatch qs b = Inr (True, b') \<and> quiet b' \<and>
     written b' @ ob_batch b' = written b @ ob_batch b @ concat (map wire (concat (map popped_packets qs)))"
proof (induction qs arbitrary: b)
  case (Cons q qs)
  show ?case
  proof (cases q)
    case (Packets pkts)
    from process_all_sent [of b pkts] Cons.prems Packets obtain b1 where b1: "process_all process pkts b = Inr (None, b1)" "quiet b1"
      "written b1 @ ob_batch b1 = written b @ ob_batch b @ concat (map wire pkts)" by auto
    from Cons.IH [OF b1(2)] Cons.prems b1 Packets show ?thesis by (auto simp flip: append_assoc)
  next
    case (Waited r)
    with Cons.prems obtain pkts where r: "r = Some pkts" by auto
    from write_all [OF Cons.prems(1)] obtain b0 where b0: "writeBatch b = Inr (None, b0)" "quiet b0" "ob_batch b0 = []"
      "written b0 = written b @ ob_batch b" by auto
    from process_all_sent [of b0 pkts] Cons.prems Waited r b0(2) obtain b1 where b1: "process_all process pkts b0 = Inr (None, b1)" "quiet b1"
      "written b1 @ ob_batch b1 = written b0 @ ob_batch b0 @ concat (map wire pkts)" by auto
    from Cons.IH [OF b1(2)] Cons.prems b0 b1 Waited r show ?thesis by (auto simp flip: append_assoc)
  qed (use Cons.prems in simp)
qed simp

text \<open>Once the queue has been found empty, everything popped so far is on the wire.\<close>

lemma loop_flushed:
  assumes "quiet b" "list_all queue_open qs" "list_all ok (concat (map popped_packets qs))" "written b @ ob_batch b = []"
  shows "\<exists>b'. outbound_loop process writeBatch (qs @ [Waited (Some [])]) b = Inr (True, b') \<and>
    written b' = concat (map wire (concat (map popped_packets qs))) \<and> ob_batch b' = []"
proof -
  have app: "outbound_loop process writeBatch (qs @ rs) b =
      rbind (outbound_loop process writeBatch qs b) (\<lambda>(t, b'). if t then outbound_loop process writeBatch rs b' else Inr (t, b'))"
    if "list_all queue_open qs" for qs rs b
    using that
  proof (induction qs arbitrary: b)
    case (Cons q qs)
    then show ?case by (cases q) (auto simp: rbind_def split: sum.splits prod.splits option.splits)
  qed simp
  from loop_sent [OF assms(1-3)] obtain b1 where b1: "outbound_loop process writeBatch qs b = Inr (True, b1)" "quiet b1"
    "written b1 @ ob_batch b1 = written b @ ob_batch b @ concat (map wire (concat (map popped_packets qs)))" by auto
  from write_all [OF b1(2)] obtain b2 where "writeBatch b1 = Inr (None, b2)" "ob_batch b2 = []" "written b2 = written b1 @ ob_batch b1"
    by auto
  with b1 assms(4) show ?thesis by (simp add: app [OF assms(2)])
qed

end

section \<open>Client and server keep the contract\<close>

text \<open>
  A connection that takes bytes may take any part of a write; one that takes whole datagrams
  (\<open>atomic\<close>) takes them all, and the batch consists of packets.
\<close>

definition quiet_conn :: "bool \<Rightarrow> bytes \<Rightarrow> conn_out \<Rightarrow> bool" where
  "quiet_conn atomic batch c \<longleftrightarrow>
     (if atomic then co_answers c = [] \<and> (\<exists>ps. list_all framed ps \<and> batch = concat ps)
      else list_all (\<lambda>(n, e). e = None \<or> e = Some ErrShortWrite) (co_answers c))"

abbreviation quiet_out :: "bool \<Rightarrow> 'a outbound_scheme \<Rightarrow> bool" where
  "quiet_out atomic b \<equiv> quiet_conn atomic (ob_batch b) (ob_conn b)"

lemma flush_bytes_all:
  "list_all (\<lambda>(n, e). e = None \<or> e = Some ErrShortWrite) (co_answers c) \<Longrightarrow>
   \<exists>c'. flush_bytes batch c = (None, c') \<and> concat (co_written c') = concat (co_written c) @ batch \<and>
     list_all (\<lambda>(n, e). e = None \<or> e = Some ErrShortWrite) (co_answers c')"
proof (induction batch c rule: flush_bytes.induct)
  case (1 batch c)
  show ?case
  proof (cases "batch = []")
    case False
    obtain n e c' where w: "conn_Write batch c = ((n, e), c')" by (metis surj_pair)
    have c': "e = None \<or> e = Some ErrShortWrite" "concat (co_written c') = concat (co_written c) @ take n batch"
      "list_all (\<lambda>(n, e). e = None \<or> e = Some ErrShortWrite) (co_answers c')"
      using w "1.prems" by (auto simp: conn_Write_def Let_def split: list.splits prod.splits)
    have "flush_bytes batch c = flush_bytes (drop n batch) c'"
      using False w c'(1) by (auto simp: flush_bytes.simps [of batch c])
    with "1.IH" [OF False refl refl refl refl] w c' show ?thesis by auto
  qed (simp add: flush_bytes.simps "1.prems")
qed

lemma front_length_framed:
  assumes "framed p"
  shows "front_length (p @ rest) = Inr (Some (length p))"
proof -
  have "20 \<le> length p" using assms by (simp add: framed_def)
  with view_front [OF assms, of "p @ rest"] show ?thesis
    by (auto simp: front_length_def packet_view_iff)
qed

text \<open>One datagram per packet.\<close>

lemma flush_packets_all:
  assumes "list_all framed ps" "co_answers c = []"
  shows "flushBatchAsPackets (concat ps) c = Inr (None, c\<lparr>co_written := co_written c @ ps\<rparr>)"
  using assms
proof (induction ps arbitrary: c)
  case Nil
  then show ?case by (simp add: flushBatchAsPackets.simps)
next
  case (Cons p ps)
  have p: "framed p" "20 \<le> length p" using Cons.prems by (auto simp: framed_def)
  then have ne: "p \<noteq> []" by auto
  have "flushBatchAsPackets (concat (p # ps)) c =
      flushBatchAsPackets (concat ps) (c\<lparr>co_written := co_written c @ [p]\<rparr>)"
    using p ne front_length_framed [OF p(1), of "concat ps"] Cons.prems(2)
    by (subst flushBatchAsPackets.simps) (simp add: conn_Write_def Let_def)
  with Cons.IH [of "c\<lparr>co_written := co_written c @ [p]\<rparr>"] Cons.prems show ?case by simp
qed

lemma flush_all:
  assumes "quiet_conn atomic batch c"
  shows "\<exists>c'. flushOutboundBatch atomic batch c = Inr (None, c') \<and> quiet_conn atomic [] c' \<and>
    concat (co_written c') = concat (co_written c) @ batch"
proof (cases atomic)
  case True
  with assms obtain ps where "co_answers c = []" "list_all framed ps" "batch = concat ps" by (auto simp: quiet_conn_def)
  with flush_packets_all [of ps c] True show ?thesis
    by (auto simp: flushOutboundBatch_def quiet_conn_def intro: exI [of _ "[]"])
next
  case False
  with flush_bytes_all [of c batch] assms show ?thesis by (auto simp: flushOutboundBatch_def quiet_conn_def)
qed

lemma client_write_all:
  assumes "quiet_out atomic b"
  shows "\<exists>b'. client_writeBatch atomic b = Inr (None, b') \<and> quiet_out atomic b' \<and> ob_batch b' = [] \<and> written b' = written b @ ob_batch b"
  using flush_all [OF assms] by (auto simp: client_writeBatch_def written_def)

lemma server_write_all:
  assumes "quiet_out atomic b"
  shows "\<exists>b'. server_writeBatch atomic b = Inr (None, b') \<and> quiet_out atomic b' \<and> ob_batch b' = [] \<and> written b' = written b @ ob_batch b"
  using flush_all [OF assms] by (auto simp: server_writeBatch_def written_def)

lemma quiet_append:
  "quiet_conn atomic batch c \<Longrightarrow> framed p \<Longrightarrow> quiet_conn atomic (batch @ p) c"
proof (cases atomic)
  case True
  assume "quiet_conn atomic batch c" "framed p"
  with True obtain ps where "co_answers c = []" "list_all framed ps" "batch = concat ps" by (auto simp: quiet_conn_def)
  with True \<open>framed p\<close> show ?thesis by (auto simp: quiet_conn_def intro!: exI [of _ "ps @ [p]"])
qed (simp add: quiet_conn_def)

lemma append_sent:
  assumes wb: "\<And>b. quiet_out atomic b \<Longrightarrow>
      \<exists>b'. wb b = Inr (None, b') \<and> quiet_out atomic b' \<and> ob_batch b' = [] \<and> written b' = written b @ ob_batch b"
    and b: "quiet_out atomic b" and p: "framed (take n (Packet_Bytes pkt))"
  shows "\<exists>b'. append_packet wb again pkt n b = Inr (None, b') \<and> quiet_out atomic b' \<and>
    written b' @ ob_batch b' = written b @ ob_batch b @ take n (Packet_Bytes pkt)"
proof -
  have "\<exists>b1. (if length (ob_batch b) + n > maxBatchSize then wb b else Inr (None, b)) = Inr (None, b1) \<and> quiet_out atomic b1 \<and>
      written b1 @ ob_batch b1 = written b @ ob_batch b"
    using wb [OF b] b by auto
  then obtain b1 where b1: "(if length (ob_batch b) + n > maxBatchSize then wb b else Inr (None, b)) = Inr (None, b1)"
    "quiet_out atomic b1" "written b1 @ ob_batch b1 = written b @ ob_batch b" by blast
  let ?b2 = "PutBuffer pkt (b1\<lparr>ob_batch := ob_batch b1 @ take n (Packet_Bytes pkt)\<rparr>)"
  have b2: "quiet_out atomic ?b2" "written ?b2 @ ob_batch ?b2 = written b @ ob_batch b @ take n (Packet_Bytes pkt)"
    using quiet_append [OF b1(2) p] b1(3) by (simp_all add: PutBuffer_def written_def flip: append_assoc)
  show ?thesis
  proof (cases "length (ob_batch ?b2) \<ge> maxBatchSize")
    case True
    from wb [OF b2(1)] obtain b3 where "wb ?b2 = Inr (None, b3)" "quiet_out atomic b3" "ob_batch b3 = []"
      "written b3 = written ?b2 @ ob_batch ?b2" by blast
    then show ?thesis using True b1(1) b2(2) by (simp add: append_packet_def Let_def)
  qed (use b1(1) b2 in \<open>simp add: append_packet_def Let_def\<close>)
qed

definition sendable :: "IPPacket \<Rightarrow> bool" where
  "sendable pkt \<longleftrightarrow> TotalLength pkt \<noteq> Inl Panic \<and> (wire pkt = [] \<or> framed (wire pkt))"

lemma sendable_cases:
  assumes "sendable pkt"
  obtains n where "TotalLength pkt = Inr n" "n = 0 \<or> n > length (Packet_Bytes pkt)" "wire pkt = []"
  | n where "TotalLength pkt = Inr n" "\<not> (n = 0 \<or> n > length (Packet_Bytes pkt))"
      "wire pkt = take n (Packet_Bytes pkt)" "framed (take n (Packet_Bytes pkt))"
proof -
  have "TotalLength pkt \<noteq> Inl Panic \<Longrightarrow> \<exists>n. TotalLength pkt = Inr n"
    by (cases pkt) (auto simp: IPv4_TotalLength_def IPv6_TotalLength_def at16_def at_def split: if_splits)
  with assms obtain n where n: "TotalLength pkt = Inr n" by (auto simp: sendable_def)
  show thesis
  proof (cases "n = 0 \<or> n > length (Packet_Bytes pkt)")
    case True
    with n that(1) show thesis by (simp add: wire_def)
  next
    case False
    then have w: "wire pkt = take n (Packet_Bytes pkt)" "take n (Packet_Bytes pkt) \<noteq> []" using n by (auto simp: wire_def)
    with n False that(2) assms show thesis by (auto simp: sendable_def)
  qed
qed

lemma server_process_one:
  assumes "quiet_out atomic b" "sendable pkt"
  shows "\<exists>b'. server_processPacket atomic pkt b = Inr (None, b') \<and> quiet_out atomic b' \<and>
    written b' @ ob_batch b' = written b @ ob_batch b @ wire pkt"
  using assms(2)
proof (cases rule: sendable_cases)
  case (1 n)
  then show ?thesis using assms(1) by (auto simp: server_processPacket_def PutBuffer_def written_def)
next
  case (2 n)
  from append_sent [where wb = "server_writeBatch atomic", OF server_write_all assms(1) 2(4)] 2 show ?thesis
    by (simp add: server_processPacket_def)
qed

text \<open>The client also needs the tuple of an IPv4 packet.\<close>

fun trackable :: "IPPacket \<Rightarrow> bool" where
  "trackable (IPv4Packet p) \<longleftrightarrow> (\<exists>t. NewTuple (IPv4Packet p) = Inr t)"
| "trackable (IPv6Packet p) \<longleftrightarrow> True"

lemma client_process_one:
  assumes "quiet_out atomic b" "sendable pkt" "trackable pkt"
  shows "\<exists>b'. client_processPacket xx a atomic pkt b = Inr (None, b') \<and> quiet_out atomic b' \<and>
    written b' @ ob_batch b' = written b @ ob_batch b @ wire pkt"
  using assms(2)
proof (cases rule: sendable_cases)
  case (1 n)
  then show ?thesis using assms(1) by (auto simp: client_processPacket_def PutBuffer_def written_def)
next
  case (2 n)
  with assms(3) have "\<exists>ct. track_outbound xx a (hd (cb_clock b @ [0])) pkt (cb_conntrack b) = Inr ct"
    by (cases pkt) (auto simp: Let_def split: option.splits prod.splits)
  then obtain ct where ct: "track_outbound xx a (hd (cb_clock b @ [0])) pkt (cb_conntrack b) = Inr ct" ..
  let ?b = "b\<lparr>cb_conntrack := ct, cb_clock := tl (cb_clock b)\<rparr>"
  have "quiet_out atomic ?b" using assms(1) by simp
  from append_sent [where wb = "client_writeBatch atomic", OF client_write_all this 2(4)] 2 ct show ?thesis
    by (simp add: client_processPacket_def written_def)
qed

interpretation server_batches: batching "server_processPacket atomic" "server_writeBatch atomic" "quiet_out atomic" sendable
  for atomic
  by unfold_locales (fact server_write_all, rule server_process_one)

interpretation client_batches: batching "client_processPacket xx a atomic" "client_writeBatch atomic" "quiet_out atomic"
    "\<lambda>pkt. sendable pkt \<and> trackable pkt"
  for xx a atomic
  by unfold_locales (fact client_write_all, use client_process_one in blast)

text \<open>
  When the write behind a full batch fails, the server returns the buffer of the packet to the
  pool twice, so that two later packets share it.
\<close>

lemma server_returns_buffer_twice:
  assumes "TotalLength pkt = Inr n" "0 < n" "n \<le> length (Packet_Bytes pkt)" "length (ob_batch b) + n = maxBatchSize"
    and "server_writeBatch atomic (PutBuffer pkt (b\<lparr>ob_batch := ob_batch b @ take n (Packet_Bytes pkt)\<rparr>)) = Inr (Some e, b3)"
  shows "\<exists>b'. server_processPacket atomic pkt b = Inr (Some e, b') \<and>
    ob_pool b' = Packet_Bytes pkt # Packet_Bytes pkt # ob_pool b"
proof -
  have "ob_pool b3 = Packet_Bytes pkt # ob_pool b"
    using assms(5) by (auto simp: server_writeBatch_def PutBuffer_def go_simps split: if_splits)
  then show ?thesis
    using assms by (auto simp: server_processPacket_def append_packet_def Let_def PutBuffer_def)
qed

end
