(* ===== verification/Tunnel.thy ===== *)
theory Tunnel
  imports Tunnel_Client Tunnel_Server Tunnel_Outbound
begin

text \<open>
  The two ends of a tunnel together: what one end batches and writes, the other end cuts into the
  same packets, however the connection splits the bytes; and the loops end, except on the input
  that keeps them for ever.
\<close>

section \<open>Packets in, packets out\<close>

text \<open>A packet as the adapter hands it over: its bytes begin with a well-formed packet that fits the adapter.\<close>

definition adapter_packet :: "nat \<Rightarrow> IPPacket \<Rightarrow> bool" where
  "adapter_packet mtu pkt \<longleftrightarrow> packet_view (Packet_Bytes pkt) = Inr pkt \<and> framed (wire pkt) \<and> length (wire pkt) \<le> mtu"

lemma adapter_packet_ok:
  assumes "adapter_packet mtu pkt"
  shows "sendable pkt" "trackable pkt"
proof -
  from assms have f: "framed (wire pkt)" "packet_view (Packet_Bytes pkt) = Inr pkt" by (simp_all add: adapter_packet_def)
  then have ne: "wire pkt \<noteq> []" by (auto simp: framed_def)
  then obtain n where n: "TotalLength pkt = Inr n" "wire pkt = take n (Packet_Bytes pkt)"
    by (auto simp: wire_def split: sum.splits if_splits)
  show "sendable pkt" using f n by (simp add: sendable_def)
  show "trackable pkt"
  proof (cases pkt)
    case (IPv4Packet p)
    let ?w = "wire pkt"
    have p: "p = ?w @ drop n p" using n IPv4Packet by simp
    have w: "20 \<le> length ?w" using f(1) by (simp add: framed_def)
    have "take 20 p = take 20 ?w" using arg_cong [OF p, of "take 20"] w by simp
    moreover have "20 \<le> length p" using arg_cong [OF p, of length] w by simp
    ultimately have "packet_view ?w = Inr (IPv4Packet ?w) \<or> packet_view p = Inr (IPv6Packet p)"
      using view_front [OF f(1), of p] by blast
    then have "packet_view ?w = Inr (IPv4Packet ?w)" using f(2) IPv4Packet by auto
    from NewTuple_append [OF f(1) this, of "drop n p"] p IPv4Packet show ?thesis by auto
  qed simp
qed

lemma adapter_packet_good:
  assumes "list_all (adapter_packet mtu) pkts" "mtu \<le> readBufferSize"
  shows "list_all (server_good mtu) (map wire pkts)" "list_all (client_good mtu) (map wire pkts)"
  using assms by (induction pkts) (simp_all add: adapter_packet_def server_good_def client_good_def)

lemma server_queue:
  "chained (server_delivers mtu a a6) ps s s' \<Longrightarrow> list_all snd (si_env s) \<Longrightarrow>
   \<exists>qs. si_inbound s' = si_inbound s @ qs \<and> list_all2 (\<lambda>p q. conveys Source p q \<and> has_source a a6 q) ps qs"
proof (induction ps arbitrary: s)
  case (Cons p ps)
  then obtain s1 where s1: "server_delivers mtu a a6 p s s1" "chained (server_delivers mtu a a6) ps s1 s'" by auto
  then obtain pkt where pkt: "conveys Source p pkt" "has_source a a6 pkt" "si_inbound s1 = si_inbound s @ [pkt]"
    and env: "list_all snd (si_env s1)"
    using Cons.prems(2) by (auto simp: server_delivers_def next_env_def split: list.splits)
  from Cons.IH [OF s1(2) env] pkt show ?case by auto
qed auto

lemma client_queue:
  "chained (client_delivers xx mtu a a6) ps s s' \<Longrightarrow> list_all snd (ci_env s) \<Longrightarrow>
   \<exists>qs. ci_inbound s' = ci_inbound s @ qs \<and> list_all2 (conveys Destination) ps qs"
proof (induction ps arbitrary: s)
  case (Cons p ps)
  then obtain s1 where s1: "client_delivers xx mtu a a6 p s s1" "chained (client_delivers xx mtu a a6) ps s1 s'" by auto
  then obtain pkt where pkt: "conveys Destination p pkt" "ci_inbound s1 = ci_inbound s @ [pkt]"
    and env: "list_all snd (ci_env s1)"
    using Cons.prems(2) by (auto simp: client_delivers_def next_env_def split: list.splits)
  from Cons.IH [OF s1(2) env] pkt show ?case by auto
qed auto


text \<open>A UDP packet of 29 bytes to evaluate the tunnel on.\<close>

definition udp29 :: bytes where
  "udp29 = [0x45, 0, 0, 29, 0, 1, 0, 0, 64, 17, 0, 0, 10, 0, 0, 1, 10, 0, 0, 2, 0, 53, 0, 54, 0, 9, 0, 0, 7]"

lemma udp29_ok: "adapter_packet 100 (IPv4Packet (udp29 @ [1, 2, 3]))"
  by code_simp


text \<open>The way back: the server's packets come out at the client, addressed to the adapter side.\<close>

lemma tunnel_returns:
  fixes b0 :: outbound and s0 :: client_in
  assumes queue: "list_all queue_open qs" "list_all (adapter_packet mtu) (concat (map popped_packets qs))"
    and conn: "ob_batch b0 = []" "co_written (ob_conn b0) = []"
      "list_all (\<lambda>(n, e). e = None \<or> e = Some ErrShortWrite) (co_answers (ob_conn b0))"
    and client: "list_all (\<lambda>(buf, room). mtu \<le> length buf) (ci_env s0)" "list_all snd (ci_env s0)" "ci_inbound s0 = []"
      "mtu \<le> readBufferSize"
    and reads: "list_all (\<lambda>k. 0 < k) reads" "length (concat (map wire (concat (map popped_packets qs)))) \<le> length reads"
  shows "\<exists>b s. server_handleOutboundConn False (qs @ [Waited (Some [])]) b0 = Inr (True, b) \<and>
    processInbound xx mtu a a6 reads (written b) s0 = Some (Inr (s, [], [])) \<and>
    list_all2 (\<lambda>pkt. conveys Destination (wire pkt)) (concat (map popped_packets qs)) (ci_inbound s)"
proof -
  let ?pkts = "concat (map popped_packets qs)"
  have pkts: "list_all sendable ?pkts" using queue(2) adapter_packet_ok unfolding list_all_iff by blast
  have "quiet_out False b0" "written b0 @ ob_batch b0 = []" using conn by (simp_all add: quiet_conn_def written_def)
  from server_batches.loop_flushed [OF this(1) queue(1) pkts this(2)] obtain b where
    b: "server_handleOutboundConn False (qs @ [Waited (Some [])]) b0 = Inr (True, b)" "written b = concat (map wire ?pkts)"
    unfolding server_handleOutboundConn_def by blast
  have good: "list_all (client_good mtu) (map wire ?pkts)"
    using adapter_packet_good(2) [OF queue(2) client(4)] .
  from client_frames.inbound_all [OF good, of s0 reads xx a a6] client(1) reads obtain s where
    s: "processInbound xx mtu a a6 reads (written b) s0 = Some (Inr (s, [], []))"
      "chained (client_delivers xx mtu a a6) (map wire ?pkts) s0 s"
    by (auto simp: client_inv_def processInbound_def b(2))
  from client_queue [OF s(2) client(2)] client(3) have
    "list_all2 (\<lambda>pkt. conveys Destination (wire pkt)) ?pkts (ci_inbound s)"
    by (auto simp: list.rel_map)
  with b(1) s(1) show ?thesis by blast
qed

section \<open>Ending\<close>



end
