(* ===== verification/Tunnel_Icmp.thy ===== *)
theory Tunnel_Icmp
  imports Tunnel Icmp_System
begin

text \<open>
  The tunnel over the ICMP transport: the batches of the client are the bytes that an application
  writes to the transport, and the server reads what the transport delivers.
\<close>



end
