(* ===== verification/Queue_Wred.thy ===== *)
theory Queue_Wred
  imports Prelude Complex_Main
begin

text \<open>
  Weighted random early detection (\<^verbatim>\<open>pkg/queue/wred/wred.go\<close>). The floating-point numbers of the
  code are real numbers here, so rounding is left out; the random numbers are an argument.
\<close>

record WRED =
  wr_avgQueueLen :: real
  wr_factor :: real
  wr_maxDP :: real
  wr_minT :: real
  wr_maxT :: real
  wr_w :: real

text \<open>\<^verbatim>\<open>math.Round\<close> rounds half away from zero; its argument here is not negative.\<close>

definition Round :: "real \<Rightarrow> real" where
  "Round x = (if x \<ge> 0 then of_int \<lfloor>x + 1 / 2\<rfloor> else of_int \<lceil>x - 1 / 2\<rceil>)"

definition NewWRED :: "int \<Rightarrow> real \<Rightarrow> real \<Rightarrow> real \<Rightarrow> real \<Rightarrow> WRED result" where
  "NewWRED qlen weight dropProbability minThPercent maxThPercent =
     (if weight \<le> 0 then Inl (Err ''weight must be greater than 0'')
      else if dropProbability < 0 \<or> dropProbability > 1 then Inl (Err ''drop probability must be between 0 and 1'')
      else if maxThPercent < 0 \<or> maxThPercent > 1 then Inl (Err ''threshold must be between 0 and 1'')
      else if qlen \<le> 0 then Inl (Err ''wred's queue length must be > 0'')
      else
        let maxT = maxThPercent * of_int qlen;
            minT0 = Round (maxT * (1 / 2) * 100) / (1 / 2);
            minT1 = (if minThPercent > 0 \<and> minThPercent < maxThPercent then minThPercent * of_int qlen else minT0);
            minT = (if minT1 \<ge> maxT then maxT else minT1)
        in Inr \<lparr>wr_avgQueueLen = 0, wr_factor = weight, wr_maxDP = dropProbability, wr_minT = minT, wr_maxT = maxT,
             wr_w = 2 powr (- weight)\<rparr>)"

definition WRED_Update :: "real \<Rightarrow> WRED \<Rightarrow> WRED" where
  "WRED_Update queueLen w =
     w\<lparr>wr_avgQueueLen := (1 - wr_w w) * wr_avgQueueLen w + wr_w w * queueLen\<rparr>"

text \<open>\<open>r\<close> is what \<^verbatim>\<open>rand.Float64\<close> returns.\<close>

definition IsDrop :: "real \<Rightarrow> WRED \<Rightarrow> bool" where
  "IsDrop r w =
     (if wr_maxDP w = 0 then False
      else let avg = wr_avgQueueLen w
      in if avg < wr_minT w then False
         else if avg \<ge> wr_maxT w then r < wr_maxDP w
         else r < wr_maxDP w * (avg - wr_minT w) / (wr_maxT w - wr_minT w))"

section \<open>Bounds\<close>

definition wred_ok :: "real \<Rightarrow> WRED \<Rightarrow> bool" where
  "wred_ok qlen w \<longleftrightarrow> 0 < wr_w w \<and> wr_w w < 1 \<and> 0 \<le> wr_avgQueueLen w \<and> wr_avgQueueLen w \<le> qlen \<and>
     0 \<le> wr_maxDP w \<and> wr_maxDP w \<le> 1 \<and> wr_minT w \<le> wr_maxT w \<and> wr_maxT w \<le> qlen"

lemma NewWRED_ok:
  assumes "NewWRED qlen weight dp minT maxT = Inr w"
  shows "wred_ok (of_int qlen) w" "wr_avgQueueLen w = 0"
proof -
  have q: "0 < qlen" "0 < weight" "0 \<le> dp" "dp \<le> 1" "0 \<le> maxT" "maxT \<le> 1"
    using assms by (auto simp: NewWRED_def split: if_splits)
  have "maxT * real_of_int qlen \<le> 1 * real_of_int qlen" using q by (intro mult_right_mono) auto
  moreover have "0 < (2 :: real) powr (- weight)" "(2 :: real) powr (- weight) < 1"
    using q powr_less_mono [of "- weight" 0 "2 :: real"] by simp_all
  ultimately show "wred_ok (of_int qlen) w" "wr_avgQueueLen w = 0"
    using assms q by (auto simp: NewWRED_def wred_ok_def Let_def split: if_splits)
qed

text \<open>The average is a weighted mean of the old average and the sample.\<close>

lemma WRED_Update_ok:
  assumes "wred_ok qlen w" "0 \<le> l" "l \<le> qlen"
  shows "wred_ok qlen (WRED_Update l w)"
    "min (wr_avgQueueLen w) l \<le> wr_avgQueueLen (WRED_Update l w)" "wr_avgQueueLen (WRED_Update l w) \<le> max (wr_avgQueueLen w) l"
proof -
  let ?a = "wr_avgQueueLen w" let ?w = "wr_w w"
  have w: "0 < ?w" "?w < 1" using assms(1) by (simp_all add: wred_ok_def)
  have lo: "min ?a l \<le> (1 - ?w) * ?a + ?w * l"
  proof -
    have "(1 - ?w) * min ?a l + ?w * min ?a l \<le> (1 - ?w) * ?a + ?w * l"
      using w by (intro add_mono mult_left_mono) auto
    then show ?thesis by (simp add: algebra_simps)
  qed
  have hi: "(1 - ?w) * ?a + ?w * l \<le> max ?a l"
  proof -
    have "(1 - ?w) * ?a + ?w * l \<le> (1 - ?w) * max ?a l + ?w * max ?a l"
      using w by (intro add_mono mult_left_mono) auto
    then show ?thesis by (simp add: algebra_simps)
  qed
  show "min ?a l \<le> wr_avgQueueLen (WRED_Update l w)" "wr_avgQueueLen (WRED_Update l w) \<le> max ?a l"
    using lo hi by (simp_all add: WRED_Update_def)
  then show "wred_ok qlen (WRED_Update l w)"
    using assms by (auto simp: wred_ok_def WRED_Update_def)
qed

text \<open>A packet is dropped at most with the configured probability, and never below the lower threshold.\<close>

lemma IsDrop_bound:
  assumes "wred_ok qlen w" "IsDrop r w"
  shows "r < wr_maxDP w" "wr_minT w \<le> wr_avgQueueLen w"
proof -
  let ?a = "wr_avgQueueLen w"
  show min: "wr_minT w \<le> ?a" using assms(2) by (auto simp: IsDrop_def Let_def split: if_splits)
  have dp: "0 \<le> wr_maxDP w" using assms(1) by (simp add: wred_ok_def)
  show "r < wr_maxDP w"
  proof (cases "?a \<ge> wr_maxT w")
    case True
    then show ?thesis using assms(2) min by (auto simp: IsDrop_def Let_def split: if_splits)
  next
    case False
    then have "wr_maxDP w * (?a - wr_minT w) / (wr_maxT w - wr_minT w) \<le> wr_maxDP w * 1"
      unfolding times_divide_eq_right [symmetric] using min dp by (intro mult_left_mono) auto
    moreover have "r < wr_maxDP w * (?a - wr_minT w) / (wr_maxT w - wr_minT w)"
      using assms(2) False min by (auto simp: IsDrop_def Let_def split: if_splits)
    ultimately show ?thesis by simp
  qed
qed

text \<open>
  The comment on the default of the lower threshold says that it is half of the upper one; the
  code multiplies by a hundred and divides by a half, and then caps at the upper threshold.
\<close>

lemma default_threshold_is_upper:
  assumes "NewWRED qlen weight dp 0 maxT = Inr w" "1 \<le> maxT * of_int qlen"
  shows "wr_minT w = wr_maxT w"
proof -
  let ?m = "maxT * real_of_int qlen"
  have "?m \<le> Round (?m * (1 / 2) * 100) / (1 / 2)"
  proof -
    have "50 * ?m - 1 < of_int \<lfloor>50 * ?m + 1 / 2\<rfloor>" by linarith
    then show ?thesis using assms(2) by (simp add: Round_def)
  qed
  then show ?thesis using assms(1) by (auto simp: NewWRED_def Let_def split: if_splits)
qed

end
