(* ===== verification/Queue_Fifo.thy ===== *)
theory Queue_Fifo
  imports Queue_Wred
begin

text \<open>
  The packet queue (\<^verbatim>\<open>pkg/queue/fifo.go\<close>, \<^verbatim>\<open>pkg/queue/util.go\<close>): a ring of a fixed length with read
  and write cursors, tail drop, early detection and closing. A call that has to wait answers
  \<open>Wait\<close>; the mutex is held for the whole of every operation.
\<close>

datatype fifo_error = ErrClosed | ErrDropped | ErrWREDDropped

text \<open>The zero value of the element type is \<open>None\<close>.\<close>

record 'a FIFO =
  f_queue :: "'a option list"
  f_length :: nat
  f_elems :: nat
  f_rCursor :: nat
  f_wCursor :: nat
  f_wred :: "WRED option"
  f_closed :: bool

definition NewFIFO :: "nat \<Rightarrow> 'a FIFO" where
  "NewFIFO n = \<lparr>f_queue = replicate n None, f_length = n, f_elems = 0, f_rCursor = 0, f_wCursor = 0,
     f_wred = None, f_closed = False\<rparr>"

definition WithWRED :: "real \<Rightarrow> real \<Rightarrow> real \<Rightarrow> real \<Rightarrow> 'a FIFO \<Rightarrow> 'a FIFO result" where
  "WithWRED factor dropProbability minThPercent maxThPercent f =
     (case NewWRED (int (f_length f)) factor dropProbability minThPercent maxThPercent of
        Inl _ \<Rightarrow> Inl Panic
      | Inr w \<Rightarrow> Inr (f\<lparr>f_wred := Some w\<rparr>))"

text \<open>An index outside of the ring panics, as does the remainder by a length of 0.\<close>

definition put_item :: "'a \<Rightarrow> 'a FIFO \<Rightarrow> 'a FIFO result" where
  "put_item item f =
     (if f_wCursor f < length (f_queue f) \<and> f_length f \<noteq> 0
      then Inr (f\<lparr>f_queue := (f_queue f)[f_wCursor f := Some item],
             f_wCursor := (f_wCursor f + 1) mod f_length f, f_elems := f_elems f + 1\<rparr>)
      else Inl Panic)"

definition Push :: "'a \<Rightarrow> real \<Rightarrow> 'a FIFO \<Rightarrow> ('a FIFO \<times> fifo_error option) result" where
  "Push item r f =
     (if f_closed f then Inr (f, Some ErrClosed)
      else if f_elems f = f_length f then Inr (f, Some ErrDropped)
      else case f_wred f of
             None \<Rightarrow> rbind (put_item item f) (\<lambda>f'. Inr (f', None))
           | Some w \<Rightarrow>
               let w' = WRED_Update (of_nat (f_elems f)) w; f1 = f\<lparr>f_wred := Some w'\<rparr>
               in if IsDrop r w' then Inr (f1, Some ErrWREDDropped)
                  else rbind (put_item item f1) (\<lambda>f'. Inr (f', None)))"

definition take_item :: "'a FIFO \<Rightarrow> ('a FIFO \<times> 'a option) result" where
  "take_item f =
     (if f_rCursor f < length (f_queue f) \<and> f_length f \<noteq> 0
      then Inr (f\<lparr>f_queue := (f_queue f)[f_rCursor f := None], f_rCursor := (f_rCursor f + 1) mod f_length f\<rparr>,
             f_queue f ! f_rCursor f)
      else Inl Panic)"

datatype 'b outcome = Ret 'b | Wait

definition FIFO_Pop :: "'a FIFO \<Rightarrow> ('a FIFO \<times> 'a option outcome) result" where
  "FIFO_Pop f =
     (if f_elems f = 0 then Inr (f, if f_closed f then Ret None else Wait)
      else rbind (take_item f) (\<lambda>(f', item). Inr (f'\<lparr>f_elems := f_elems f' - 1\<rparr>, Ret item)))"

primrec take_items :: "nat \<Rightarrow> 'a FIFO \<Rightarrow> ('a FIFO \<times> 'a option list) result" where
  "take_items 0 f = Inr (f, [])"
| "take_items (Suc n) f =
     rbind (take_item f) (\<lambda>(f1, item). rbind (take_items n f1) (\<lambda>(f2, items). Inr (f2, item # items)))"

text \<open>The nil slice that a closed queue returns is \<open>Ret None\<close>.\<close>

definition FIFO_PopAll :: "'a FIFO \<Rightarrow> ('a FIFO \<times> 'a option list option outcome) result" where
  "FIFO_PopAll f =
     (if f_elems f = 0 then Inr (f, if f_closed f then Ret None else Wait)
      else rbind (take_items (f_elems f) f) (\<lambda>(f', items). Inr (f'\<lparr>f_elems := 0\<rparr>, Ret (Some items))))"

text \<open>\<^verbatim>\<open>TryPop\<close> reports the queue as empty when it has taken the last item.\<close>

definition TryPop :: "'a FIFO \<Rightarrow> ('a FIFO \<times> 'a option \<times> bool \<times> bool) result" where
  "TryPop f =
     (if f_elems f = 0 then Inr (f, None, True, f_closed f)
      else rbind (FIFO_Pop f) (\<lambda>(f', r). Inr (f', (case r of Ret v \<Rightarrow> v | Wait \<Rightarrow> None), f_elems f' = 0, f_closed f)))"

definition TryPopAll :: "'a FIFO \<Rightarrow> ('a FIFO \<times> 'a option list \<times> bool \<times> bool) result" where
  "TryPopAll f =
     (if f_elems f = 0 then Inr (f, [], True, f_closed f)
      else rbind (FIFO_PopAll f) (\<lambda>(f', r).
        let vals = (case r of Ret (Some v) \<Rightarrow> v | _ \<Rightarrow> []) in Inr (f', vals, vals = [], f_closed f)))"

definition FIFO_Close :: "'a FIFO \<Rightarrow> 'a FIFO" where
  "FIFO_Close f = f\<lparr>f_closed := True\<rparr>"

definition DrainQueue :: "('a option \<Rightarrow> 's \<Rightarrow> 's) \<Rightarrow> 'a FIFO \<Rightarrow> 's \<Rightarrow> ('a FIFO \<times> 's) result" where
  "DrainQueue fn f s = rbind (TryPopAll f) (\<lambda>(f', pkts, empty, _). Inr (f', if empty then s else fold fn pkts s))"

section \<open>A bounded queue\<close>

text \<open>The specification: a list of items with a capacity.\<close>

record 'a bounded_queue =
  bq_items :: "'a list"
  bq_cap :: nat
  bq_wred :: "WRED option"
  bq_closed :: bool

datatype 'a fifo_op = OPush 'a real | OPop | OPopAll | OTryPop | OTryPopAll | OClose

datatype 'a fifo_answer = APush "fifo_error option" | APop "'a option outcome" | APopAll "'a option list option outcome"
  | ATryPop "'a option" bool bool | ATryPopAll "'a option list" bool bool | AClose

fun fifo_step :: "'a fifo_op \<Rightarrow> 'a FIFO \<Rightarrow> ('a FIFO \<times> 'a fifo_answer) result" where
  "fifo_step (OPush x r) f = rbind (Push x r f) (\<lambda>(f', e). Inr (f', APush e))"
| "fifo_step OPop f = rbind (FIFO_Pop f) (\<lambda>(f', v). Inr (f', APop v))"
| "fifo_step OPopAll f = rbind (FIFO_PopAll f) (\<lambda>(f', v). Inr (f', APopAll v))"
| "fifo_step OTryPop f = rbind (TryPop f) (\<lambda>(f', v, e, c). Inr (f', ATryPop v e c))"
| "fifo_step OTryPopAll f = rbind (TryPopAll f) (\<lambda>(f', v, e, c). Inr (f', ATryPopAll v e c))"
| "fifo_step OClose f = Inr (FIFO_Close f, AClose)"

fun bq_step :: "'a fifo_op \<Rightarrow> 'a bounded_queue \<Rightarrow> 'a bounded_queue \<times> 'a fifo_answer" where
  "bq_step (OPush x r) q =
     (if bq_closed q then (q, APush (Some ErrClosed))
      else if length (bq_items q) = bq_cap q then (q, APush (Some ErrDropped))
      else let w = map_option (WRED_Update (of_nat (length (bq_items q)))) (bq_wred q)
      in if (\<exists>v. w = Some v \<and> IsDrop r v) then (q\<lparr>bq_wred := w\<rparr>, APush (Some ErrWREDDropped))
         else (q\<lparr>bq_wred := w, bq_items := bq_items q @ [x]\<rparr>, APush None))"
| "bq_step OPop q =
     (case bq_items q of
        [] \<Rightarrow> (q, APop (if bq_closed q then Ret None else Wait))
      | x # xs \<Rightarrow> (q\<lparr>bq_items := xs\<rparr>, APop (Ret (Some x))))"
| "bq_step OPopAll q =
     (if bq_items q = [] then (q, APopAll (if bq_closed q then Ret None else Wait))
      else (q\<lparr>bq_items := []\<rparr>, APopAll (Ret (Some (map Some (bq_items q))))))"
| "bq_step OTryPop q =
     (case bq_items q of
        [] \<Rightarrow> (q, ATryPop None True (bq_closed q))
      | x # xs \<Rightarrow> (q\<lparr>bq_items := xs\<rparr>, ATryPop (Some x) (xs = []) (bq_closed q)))"
| "bq_step OTryPopAll q = (q\<lparr>bq_items := []\<rparr>, ATryPopAll (map Some (bq_items q)) (bq_items q = []) (bq_closed q))"
| "bq_step OClose q = (q\<lparr>bq_closed := True\<rparr>, AClose)"

text \<open>The \<open>k\<close> cells of a ring of length \<open>n\<close> from index \<open>r\<close> on.\<close>

definition ring_at :: "'b list \<Rightarrow> nat \<Rightarrow> nat \<Rightarrow> nat \<Rightarrow> 'b list" where
  "ring_at q n r k = map (\<lambda>i. q ! ((r + i) mod n)) [0..<k]"

definition ring_items :: "'a FIFO \<Rightarrow> 'a option list" where
  "ring_items f = ring_at (f_queue f) (f_length f) (f_rCursor f) (f_elems f)"

definition fifo_inv :: "'a FIFO \<Rightarrow> bool" where
  "fifo_inv f \<longleftrightarrow> length (f_queue f) = f_length f \<and> f_elems f \<le> f_length f \<and>
     (0 < f_length f \<longrightarrow> f_rCursor f < f_length f \<and> f_wCursor f = (f_rCursor f + f_elems f) mod f_length f) \<and>
     None \<notin> set (ring_items f)"

definition fifo_abs :: "'a FIFO \<Rightarrow> 'a bounded_queue" where
  "fifo_abs f = \<lparr>bq_items = map the (ring_items f), bq_cap = f_length f, bq_wred = f_wred f, bq_closed = f_closed f\<rparr>"

lemma length_ring_at [simp]: "length (ring_at q n r k) = k"
  by (simp add: ring_at_def)

lemma length_ring_items [simp]: "length (ring_items f) = f_elems f"
  by (simp add: ring_items_def)

lemma ring_items_fields [simp]:
  "ring_items (f\<lparr>f_wred := w\<rparr>) = ring_items f" "ring_items (f\<lparr>f_closed := b\<rparr>) = ring_items f"
  "ring_items (f\<lparr>f_wCursor := n\<rparr>) = ring_items f"
  by (simp_all add: ring_items_def)

lemma mod_add_inj:
  assumes "i < n" "j < n" "(r + i) mod n = (r + j) mod (n :: nat)"
  shows "i = j"
proof -
  from assms(3) have "i mod n = j mod n" by (simp add: nat_mod_eq_iff)
  then show ?thesis using assms(1,2) by simp
qed

lemma ring_at_Suc: "ring_at q n r (Suc k) = q ! (r mod n) # ring_at q n ((r + 1) mod n) k"
proof -
  have "[0..<Suc k] = 0 # map Suc [0..<k]" by (simp add: map_Suc_upt upt_conv_Cons)
  then show ?thesis by (simp add: ring_at_def mod_simps)
qed

lemma ring_at_snoc: "ring_at q n r (Suc k) = ring_at q n r k @ [q ! ((r + k) mod n)]"
  by (simp add: ring_at_def)

lemma ring_at_update: "\<forall>i < k. (r + i) mod n \<noteq> j \<Longrightarrow> ring_at (q[j := x]) n r k = ring_at q n r k"
  by (auto simp: ring_at_def)

lemma put_item_ok:
  assumes "fifo_inv f" "f_elems f < f_length f"
  shows "\<exists>f'. put_item x f = Inr f' \<and> fifo_inv f' \<and> ring_items f' = ring_items f @ [Some x] \<and>
    f_length f' = f_length f \<and> f_wred f' = f_wred f \<and> f_closed f' = f_closed f"
proof -
  let ?n = "f_length f" let ?w = "f_wCursor f"
  have n: "0 < ?n" "length (f_queue f) = ?n" "f_rCursor f < ?n" and w: "?w = (f_rCursor f + f_elems f) mod ?n"
    using assms by (auto simp: fifo_inv_def)
  have wn: "?w < ?n" using n w by simp
  let ?f = "f\<lparr>f_queue := (f_queue f)[?w := Some x], f_wCursor := (?w + 1) mod ?n, f_elems := f_elems f + 1\<rparr>"
  have free: "\<forall>i < f_elems f. (f_rCursor f + i) mod ?n \<noteq> ?w"
  proof (intro allI impI notI)
    fix i assume i: "i < f_elems f" "(f_rCursor f + i) mod ?n = ?w"
    then have "i = f_elems f" using assms(2) w by (intro mod_add_inj [of i ?n "f_elems f" "f_rCursor f"]) simp_all
    then show False using i(1) by simp
  qed
  have items: "ring_items ?f = ring_items f @ [Some x]"
    using ring_at_update [OF free] wn n by (simp add: ring_items_def ring_at_snoc w)
  have "fifo_inv ?f"
    using assms n w items by (auto simp: fifo_inv_def mod_simps)
  moreover have "put_item x f = Inr ?f" using n wn by (simp add: put_item_def)
  ultimately show ?thesis using items by simp
qed

text \<open>Taking \<open>k\<close> items from the front of the ring.\<close>

lemma take_items_ok:
  assumes "length (f_queue f) = f_length f" "0 < f_length f" "f_rCursor f < f_length f" "k \<le> f_length f"
  shows "\<exists>q. take_items k f = Inr (f\<lparr>f_queue := q, f_rCursor := (f_rCursor f + k) mod f_length f\<rparr>,
      ring_at (f_queue f) (f_length f) (f_rCursor f) k) \<and> length q = length (f_queue f) \<and>
    (\<forall>i. k \<le> i \<longrightarrow> i < f_length f \<longrightarrow> q ! ((f_rCursor f + i) mod f_length f) = f_queue f ! ((f_rCursor f + i) mod f_length f))"
  using assms
proof (induction k arbitrary: f)
  case 0
  then show ?case by (intro exI [of _ "f_queue f"]) (simp add: ring_at_def)
next
  case (Suc k)
  let ?n = "f_length f" let ?r = "f_rCursor f"
  let ?f = "f\<lparr>f_queue := (f_queue f)[?r := None], f_rCursor := (?r + 1) mod ?n\<rparr>"
  have t: "take_item f = Inr (?f, f_queue f ! ?r)" using Suc.prems by (simp add: take_item_def)
  have other: "(?r + 1 + i) mod ?n \<noteq> ?r" if "i + 1 < ?n" for i
    using mod_add_inj [of "i + 1" ?n 0 ?r] that Suc.prems(3) by (auto simp: add.assoc)
  then have r: "ring_at ((f_queue f)[?r := None]) ?n ((?r + 1) mod ?n) k = ring_at (f_queue f) ?n ((?r + 1) mod ?n) k"
    using Suc.prems(4) by (intro ring_at_update) (simp add: mod_simps)
  from Suc.IH [of ?f] Suc.prems obtain q where q: "take_items k ?f = Inr (?f\<lparr>f_queue := q, f_rCursor := ((?r + 1) mod ?n + k) mod ?n\<rparr>,
      ring_at ((f_queue f)[?r := None]) ?n ((?r + 1) mod ?n) k)" "length q = length (f_queue f)"
    "\<forall>i. k \<le> i \<longrightarrow> i < ?n \<longrightarrow> q ! (((?r + 1) mod ?n + i) mod ?n) = (f_queue f)[?r := None] ! (((?r + 1) mod ?n + i) mod ?n)" by auto
  have keep: "q ! ((?r + i) mod ?n) = f_queue f ! ((?r + i) mod ?n)" if i: "Suc k \<le> i" "i < ?n" for i
  proof -
    obtain j where j: "i = j + 1" "k \<le> j" using i(1) by (metis Suc_le_D Suc_le_mono add.commute plus_1_eq_Suc)
    then have "q ! ((?r + 1 + j) mod ?n) = (f_queue f)[?r := None] ! ((?r + 1 + j) mod ?n)"
      using q(3) i(2) by (simp add: mod_simps)
    then show ?thesis using other [of j] j i(2) by (simp add: ac_simps)
  qed
  have "take_items (Suc k) f = Inr (f\<lparr>f_queue := q, f_rCursor := (?r + Suc k) mod ?n\<rparr>, ring_at (f_queue f) ?n ?r (Suc k))"
    using t q(1) r Suc.prems(3) by (simp add: ring_at_Suc mod_simps)
  then show ?case using q(2) keep by blast
qed

lemma take_item_items: "take_items (Suc 0) f = rbind (take_item f) (\<lambda>(f', x). Inr (f', [x]))"
  by (simp add: rbind_def split: sum.splits)

lemma Pop_ok:
  assumes inv: "fifo_inv f" and e: "f_elems f \<noteq> 0"
  shows "\<exists>f' x. FIFO_Pop f = Inr (f', Ret (Some x)) \<and> fifo_inv f' \<and> ring_items f = Some x # ring_items f' \<and>
    f_length f' = f_length f \<and> f_wred f' = f_wred f \<and> f_closed f' = f_closed f"
proof -
  let ?n = "f_length f" let ?r = "f_rCursor f"
  have n: "0 < ?n" "length (f_queue f) = ?n" "?r < ?n" "f_elems f \<le> ?n" "f_wCursor f = (?r + f_elems f) mod ?n"
    using assms by (auto simp: fifo_inv_def)
  obtain k where k: "f_elems f = Suc k" using e by (cases "f_elems f") auto
  let ?f = "f\<lparr>f_queue := (f_queue f)[?r := None], f_rCursor := (?r + 1) mod ?n, f_elems := k\<rparr>"
  have "(?r + 1 + i) mod ?n \<noteq> ?r" if "i < k" for i
    using mod_add_inj [of "i + 1" ?n 0 ?r] that n k by (auto simp: add.assoc)
  then have "ring_items ?f = ring_at (f_queue f) ?n ((?r + 1) mod ?n) k"
    unfolding ring_items_def by (simp add: ring_at_update mod_simps)
  then have items: "ring_items f = f_queue f ! ?r # ring_items ?f"
    using k n by (simp add: ring_items_def ring_at_Suc)
  then obtain x where x: "f_queue f ! ?r = Some x" using inv by (cases "f_queue f ! ?r") (auto simp: fifo_inv_def)
  have "fifo_inv ?f" using inv n k items by (auto simp: fifo_inv_def mod_simps)
  moreover have "FIFO_Pop f = Inr (?f, Ret (Some x))" using e n k x by (simp add: FIFO_Pop_def take_item_def)
  ultimately show ?thesis using items x by auto
qed

lemma PopAll_ok:
  assumes inv: "fifo_inv f" and e: "f_elems f \<noteq> 0"
  shows "\<exists>f'. FIFO_PopAll f = Inr (f', Ret (Some (ring_items f))) \<and> fifo_inv f' \<and> ring_items f' = [] \<and>
    f_length f' = f_length f \<and> f_wred f' = f_wred f \<and> f_closed f' = f_closed f"
proof -
  have n: "0 < f_length f" "length (f_queue f) = f_length f" "f_rCursor f < f_length f" "f_elems f \<le> f_length f"
    "f_wCursor f = (f_rCursor f + f_elems f) mod f_length f"
    using assms by (auto simp: fifo_inv_def)
  from take_items_ok [OF n(2,1,3,4)] obtain q where
    q: "take_items (f_elems f) f = Inr (f\<lparr>f_queue := q, f_rCursor := (f_rCursor f + f_elems f) mod f_length f\<rparr>, ring_items f)"
      "length q = length (f_queue f)" by (auto simp: ring_items_def)
  then show ?thesis using e n by (simp add: FIFO_PopAll_def fifo_inv_def ring_items_def ring_at_def)
qed

lemma abs_cong:
  "f_length f' = f_length f \<Longrightarrow> f_wred f' = f_wred f \<Longrightarrow> f_closed f' = f_closed f \<Longrightarrow>
   fifo_abs f' = (fifo_abs f)\<lparr>bq_items := map the (ring_items f')\<rparr>"
  by (simp add: fifo_abs_def)

lemma abs_items [simp]: "length (bq_items (fifo_abs f)) = f_elems f"
  "bq_closed (fifo_abs f) = f_closed f" "bq_wred (fifo_abs f) = f_wred f" "bq_cap (fifo_abs f) = f_length f"
  by (simp_all add: fifo_abs_def)

lemma abs_empty: "bq_items (fifo_abs f) = [] \<longleftrightarrow> f_elems f = 0"
  by (metis abs_items(1) length_0_conv)

lemma inv_wred: "fifo_inv (f\<lparr>f_wred := w\<rparr>) = fifo_inv f"
  by (simp add: fifo_inv_def)

lemma map_Some_the: "None \<notin> set xs \<Longrightarrow> map Some (map the xs) = xs"
  by (induction xs) auto

lemma Push_refines:
  assumes inv: "fifo_inv f"
  shows "\<exists>f'. fifo_step (OPush x r) f = Inr (f', snd (bq_step (OPush x r) (fifo_abs f))) \<and> fifo_inv f' \<and>
    fifo_abs f' = fst (bq_step (OPush x r) (fifo_abs f))"
proof (cases "f_closed f \<or> f_elems f = f_length f")
  case True
  then show ?thesis using inv by (auto simp: Push_def)
next
  case False
  then have room: "f_elems f < f_length f" using inv by (auto simp: fifo_inv_def)
  let ?w = "map_option (WRED_Update (of_nat (f_elems f))) (f_wred f)"
  let ?f = "f\<lparr>f_wred := ?w\<rparr>"
  from put_item_ok [of ?f x] inv room obtain f' where f': "put_item x ?f = Inr f'" "fifo_inv f'"
    "ring_items f' = ring_items f @ [Some x]" "f_length f' = f_length f" "f_wred f' = ?w" "f_closed f' = f_closed f"
    by (auto simp: inv_wred)
  have abs: "fifo_abs f' = (fifo_abs f)\<lparr>bq_wred := ?w, bq_items := bq_items (fifo_abs f) @ [x]\<rparr>"
    using f'(3-6) by (simp add: fifo_abs_def)
  show ?thesis
  proof (cases "f_wred f")
    case None
    then have "?f = f" by simp
    with f'(1) have "put_item x f = Inr f'" by (simp only:)
    then show ?thesis using None False f'(2) abs by (simp add: Push_def)
  next
    case (Some v)
    have abs1: "fifo_abs ?f = (fifo_abs f)\<lparr>bq_wred := ?w\<rparr>" by (simp add: fifo_abs_def)
    show ?thesis
      using Some False f'(1,2) abs abs1 inv by (auto simp: Push_def Let_def inv_wred)
  qed
qed

lemma Pop_refines:
  assumes inv: "fifo_inv f"
  shows "\<exists>f'. fifo_step OPop f = Inr (f', snd (bq_step OPop (fifo_abs f))) \<and> fifo_inv f' \<and> fifo_abs f' = fst (bq_step OPop (fifo_abs f))"
    and "\<exists>f'. fifo_step OTryPop f = Inr (f', snd (bq_step OTryPop (fifo_abs f))) \<and> fifo_inv f' \<and> fifo_abs f' = fst (bq_step OTryPop (fifo_abs f))"
proof -
  consider "f_elems f = 0" "bq_items (fifo_abs f) = []" | (item) "f_elems f \<noteq> 0" using abs_empty by auto
  then have "(\<exists>f'. fifo_step OPop f = Inr (f', snd (bq_step OPop (fifo_abs f))) \<and> fifo_inv f' \<and> fifo_abs f' = fst (bq_step OPop (fifo_abs f))) \<and>
    (\<exists>f'. fifo_step OTryPop f = Inr (f', snd (bq_step OTryPop (fifo_abs f))) \<and> fifo_inv f' \<and> fifo_abs f' = fst (bq_step OTryPop (fifo_abs f)))"
  proof cases
    case 1
    then show ?thesis using inv by (simp add: FIFO_Pop_def TryPop_def)
  next
    case item
    from Pop_ok [OF inv item] obtain f' x where f': "FIFO_Pop f = Inr (f', Ret (Some x))" "fifo_inv f'"
      "ring_items f = Some x # ring_items f'" "f_length f' = f_length f" "f_wred f' = f_wred f" "f_closed f' = f_closed f" by blast
    have "bq_items (fifo_abs f) = x # bq_items (fifo_abs f')" using f'(3) by (simp add: fifo_abs_def)
    moreover have "fifo_abs f' = (fifo_abs f)\<lparr>bq_items := bq_items (fifo_abs f')\<rparr>"
      using f'(4-6) by (simp add: fifo_abs_def)
    ultimately show ?thesis using f'(1,2) item by (simp add: TryPop_def abs_empty)
  qed
  then show "\<exists>f'. fifo_step OPop f = Inr (f', snd (bq_step OPop (fifo_abs f))) \<and> fifo_inv f' \<and> fifo_abs f' = fst (bq_step OPop (fifo_abs f))"
    "\<exists>f'. fifo_step OTryPop f = Inr (f', snd (bq_step OTryPop (fifo_abs f))) \<and> fifo_inv f' \<and> fifo_abs f' = fst (bq_step OTryPop (fifo_abs f))"
    by blast+
qed

lemma PopAll_refines:
  assumes inv: "fifo_inv f"
  shows "\<exists>f'. fifo_step OPopAll f = Inr (f', snd (bq_step OPopAll (fifo_abs f))) \<and> fifo_inv f' \<and> fifo_abs f' = fst (bq_step OPopAll (fifo_abs f))"
    and "\<exists>f'. fifo_step OTryPopAll f = Inr (f', snd (bq_step OTryPopAll (fifo_abs f))) \<and> fifo_inv f' \<and> fifo_abs f' = fst (bq_step OTryPopAll (fifo_abs f))"
proof -
  consider "f_elems f = 0" "bq_items (fifo_abs f) = []" | (items) "f_elems f \<noteq> 0" using abs_empty by auto
  then have "(\<exists>f'. fifo_step OPopAll f = Inr (f', snd (bq_step OPopAll (fifo_abs f))) \<and> fifo_inv f' \<and> fifo_abs f' = fst (bq_step OPopAll (fifo_abs f))) \<and>
    (\<exists>f'. fifo_step OTryPopAll f = Inr (f', snd (bq_step OTryPopAll (fifo_abs f))) \<and> fifo_inv f' \<and> fifo_abs f' = fst (bq_step OTryPopAll (fifo_abs f)))"
  proof cases
    case 1
    then have "(fifo_abs f)\<lparr>bq_items := []\<rparr> = fifo_abs f" by simp
    then show ?thesis using 1 inv by (simp add: FIFO_PopAll_def TryPopAll_def)
  next
    case items
    from PopAll_ok [OF inv items] obtain f' where f': "FIFO_PopAll f = Inr (f', Ret (Some (ring_items f)))" "fifo_inv f'"
      "ring_items f' = []" "f_length f' = f_length f" "f_wred f' = f_wred f" "f_closed f' = f_closed f" by blast
    have "map Some (bq_items (fifo_abs f)) = ring_items f"
      using inv map_Some_the [of "ring_items f"] by (simp add: fifo_abs_def fifo_inv_def del: map_map)
    moreover have "fifo_abs f' = (fifo_abs f)\<lparr>bq_items := []\<rparr>" using f'(3-6) by (simp add: fifo_abs_def)
    moreover have "ring_items f \<noteq> []" using items by (metis length_0_conv length_ring_items)
    ultimately show ?thesis using f'(1,2) items by (simp add: TryPopAll_def abs_empty)
  qed
  then show "\<exists>f'. fifo_step OPopAll f = Inr (f', snd (bq_step OPopAll (fifo_abs f))) \<and> fifo_inv f' \<and> fifo_abs f' = fst (bq_step OPopAll (fifo_abs f))"
    "\<exists>f'. fifo_step OTryPopAll f = Inr (f', snd (bq_step OTryPopAll (fifo_abs f))) \<and> fifo_inv f' \<and> fifo_abs f' = fst (bq_step OTryPopAll (fifo_abs f))"
    by blast+
qed

interpretation fifo_refines: data_refinement fifo_step bq_step fifo_inv fifo_abs "\<lambda>_. True"
proof
  fix f :: "'a FIFO" and op :: "'a fifo_op"
  assume inv: "fifo_inv f"
  show "\<exists>f'. fifo_step op f = Inr (f', snd (bq_step op (fifo_abs f))) \<and> fifo_inv f' \<and> fifo_abs f' = fst (bq_step op (fifo_abs f))"
  proof (cases op)
    case OClose
    then show ?thesis using inv by (simp add: FIFO_Close_def fifo_inv_def fifo_abs_def)
  qed (use Push_refines [OF inv] Pop_refines [OF inv] PopAll_refines [OF inv] in blast)+
qed

text \<open>
  C19. The packet queue behaves as a bounded first-in first-out queue under every sequence of
  pushes, blocking and non-blocking pops and closes, with and without early detection: it never
  panics, gives the answers of the specification, and never holds more than its length.
\<close>

theorem fifo_history:
  "\<exists>f. run_ops fifo_step ops ((NewFIFO n)\<lparr>f_wred := w\<rparr>) =
      Inr (f, snd (spec_run bq_step ops \<lparr>bq_items = [], bq_cap = n, bq_wred = w, bq_closed = False\<rparr>)) \<and>
    fifo_abs f = fst (spec_run bq_step ops \<lparr>bq_items = [], bq_cap = n, bq_wred = w, bq_closed = False\<rparr>) \<and>
    f_elems f \<le> f_length f \<and> length (f_queue f) = f_length f"
proof -
  let ?f = "(NewFIFO n)\<lparr>f_wred := w\<rparr> :: 'a FIFO"
  have "fifo_inv ?f" by (simp add: fifo_inv_def NewFIFO_def ring_items_def ring_at_def)
  moreover have "fifo_abs ?f = \<lparr>bq_items = [], bq_cap = n, bq_wred = w, bq_closed = False\<rparr>"
    by (simp add: fifo_abs_def NewFIFO_def ring_items_def ring_at_def)
  ultimately show ?thesis
    using fifo_refines.run_refines [of ?f ops] by (auto simp: fifo_inv_def list_all_iff)
qed

end
