(* ===== verification/Server_IPPool.thy ===== *)
theory Server_IPPool
  imports Net_Prefix
begin

text \<open>
  The address pool of the server (\<^verbatim>\<open>pkg/server/ippool.go\<close>). Addresses are big integers in the
  code and natural numbers here; the table of used addresses has pairs of 64-bit words as keys.
\<close>

type_synonym uint128 = "u64 \<times> u64"

datatype family = AF_INET | AF_INET6

record IPPool =
  ip_network :: IPNet
  ip_family :: family
  ip_maxHosts :: int
  ip_used :: "uint128 set"

text \<open>\<^verbatim>\<open>big.Int.Bytes\<close>: big-endian without leading zero bytes.\<close>

fun Bytes :: "nat \<Rightarrow> bytes" where
  "Bytes n = (if n = 0 then [] else Bytes (n div 256) @ [of_nat (n mod 256)])"

declare Bytes.simps [simp del]

text \<open>A mask that is not canonical has size \<open>(0, 0)\<close>, which makes one address.\<close>

definition maxHosts :: "IPNet \<Rightarrow> int" where
  "maxHosts n = (let (ones, bits) = Mask_Size (net_Mask n); hostBits = bits - ones in 2 ^ hostBits)"

definition newIPPool :: "IPNet \<Rightarrow> IPPool" where
  "newIPPool network =
     \<lparr>ip_network = network,
      ip_family = (if To4 (net_IP network) = None \<and> To16 (net_IP network) \<noteq> None then AF_INET6 else AF_INET),
      ip_maxHosts = maxHosts network - 2, ip_used = {}\<rparr>"

definition pool_key :: "nat \<Rightarrow> uint128" where
  "pool_key n = (if n < 2 ^ 64 then (0, of_nat n) else (of_nat (n div 2 ^ 64), of_nat (n mod 2 ^ 64)))"

definition ipToBigInt :: "IPPool \<Rightarrow> ip \<Rightarrow> nat" where
  "ipToBigInt p a =
     (case ip_family p of
        AF_INET \<Rightarrow> SetBytes (case To4 a of None \<Rightarrow> [] | Some b \<Rightarrow> b)
      | AF_INET6 \<Rightarrow> SetBytes (case To16 a of None \<Rightarrow> [] | Some b \<Rightarrow> b))"

text \<open>The loop of \<^verbatim>\<open>Allocate\<close>; \<open>n\<close> is the number of rounds that are left.\<close>

fun allocate_from :: "nat \<Rightarrow> nat \<Rightarrow> IPPool \<Rightarrow> (ip \<times> IPPool) result" where
  "allocate_from 0 addr p = Inl (Err ''no available IPs in pool'')"
| "allocate_from (Suc n) addr p =
     (if pool_key addr \<notin> ip_used p then Inr (Bytes addr, p\<lparr>ip_used := insert (pool_key addr) (ip_used p)\<rparr>)
      else allocate_from n (addr + 1) p)"

definition Allocate :: "IPPool \<Rightarrow> (ip \<times> IPPool) result" where
  "Allocate p = allocate_from (nat (ip_maxHosts p)) (ipToBigInt p (net_IP (ip_network p)) + 1) p"

definition SetUsed :: "ip \<Rightarrow> IPPool \<Rightarrow> IPPool" where
  "SetUsed a p = p\<lparr>ip_used := insert (pool_key (ipToBigInt p a)) (ip_used p)\<rparr>"

definition Release :: "ip \<Rightarrow> IPPool \<Rightarrow> IPPool" where
  "Release a p = p\<lparr>ip_used := ip_used p - {pool_key (ipToBigInt p a)}\<rparr>"

section \<open>Numbers and addresses\<close>

lemma SetBytes_append: "SetBytes (xs @ ys) = SetBytes xs * 256 ^ length ys + SetBytes ys"
  by (induction xs) (simp_all add: algebra_simps power_add)

lemma SetBytes_Bytes: "SetBytes (Bytes n) = n"
proof (induction n rule: Bytes.induct)
  case (1 n)
  show ?case
  proof (cases "n = 0")
    case False
    have "n mod 256 < 2 ^ LENGTH(8)" by simp
    then have "unat (of_nat (n mod 256) :: byte) = n mod 256" by (rule unat_of_nat_eq)
    then show ?thesis using 1 [OF False] False by (simp add: Bytes.simps [of n] SetBytes_append del: of_nat_mod)
  qed (simp add: Bytes.simps)
qed

lemma length_Bytes: "256 ^ k \<le> n \<Longrightarrow> n < 256 ^ Suc k \<Longrightarrow> length (Bytes n) = Suc k"
proof (induction k arbitrary: n)
  case 0
  then show ?case by (simp add: Bytes.simps)
next
  case (Suc k)
  have "256 ^ k \<le> n div 256" "n div 256 < 256 ^ Suc k"
    using Suc.prems by (simp_all add: less_eq_div_iff_mult_less_eq div_less_iff_less_mult mult.commute)
  from Suc.IH [OF this] Suc.prems show ?case by (auto simp: Bytes.simps [of n])
qed

lemma pool_key_inj:
  assumes "m < 2 ^ 128" "n < 2 ^ 128" "pool_key m = pool_key n"
  shows "m = n"
proof -
  have key: "pool_key k = (of_nat (k div 2 ^ 64), of_nat (k mod 2 ^ 64))" for k :: nat
    by (simp add: pool_key_def)
  have b: "k div 2 ^ 64 < 2 ^ LENGTH(64)" "k mod 2 ^ 64 < 2 ^ LENGTH(64)" if "k < 2 ^ 128" for k :: nat
    using that by (simp_all add: div_less_iff_less_mult)
  have "(of_nat (m div 2 ^ 64) :: u64) = of_nat (n div 2 ^ 64)" "(of_nat (m mod 2 ^ 64) :: u64) = of_nat (n mod 2 ^ 64)"
    using assms(3) unfolding key by simp_all
  then have "m div 2 ^ 64 = n div 2 ^ 64" "m mod 2 ^ 64 = n mod 2 ^ 64"
    using b [OF assms(1)] b [OF assms(2)] by (metis unat_of_nat_eq)+
  then show ?thesis by (metis div_mult_mod_eq)
qed

section \<open>Leases\<close>

text \<open>
  A network the pool can serve: a canonical mask, a base address with no host bits and no leading
  zero byte. (An address with a leading zero byte loses it in \<^verbatim>\<open>big.Int.Bytes\<close>.)
\<close>

definition host_bits :: "IPNet \<Rightarrow> nat" where
  "host_bits n = snd (Mask_Size (net_Mask n)) - fst (Mask_Size (net_Mask n))"

definition net_ok :: "IPNet \<Rightarrow> bool" where
  "net_ok n \<longleftrightarrow> (length (net_IP n) = 4 \<or> length (net_IP n) = 16) \<and> length (net_Mask n) = length (net_IP n) \<and>
     0 < snd (Mask_Size (net_Mask n)) \<and> hd (net_IP n) \<noteq> 0 \<and> 2 ^ host_bits n dvd SetBytes (net_IP n)"

definition host_of :: "IPNet \<Rightarrow> nat \<Rightarrow> bool" where
  "host_of n a \<longleftrightarrow> SetBytes (net_IP n) < a \<and> a < SetBytes (net_IP n) + 2 ^ host_bits n - 1"

lemma Mask_Size_snd: "0 < snd (Mask_Size m) \<Longrightarrow> snd (Mask_Size m) = 8 * length m"
  by (auto simp: Mask_Size_def Let_def split: if_splits)

lemma Mask_Size_le: "fst (Mask_Size m) \<le> 8 * length m"
  by (auto simp: Mask_Size_def Let_def intro: order_trans [OF length_takeWhile_le])

lemma net_bounds:
  assumes "net_ok n"
  shows "256 ^ (length (net_IP n) - 1) \<le> SetBytes (net_IP n)" "SetBytes (net_IP n) + 2 ^ host_bits n \<le> 256 ^ length (net_IP n)"
proof -
  obtain b bs where a: "net_IP n = b # bs" using assms by (cases "net_IP n") (auto simp: net_ok_def)
  have "b \<noteq> 0" using assms a by (simp add: net_ok_def)
  then have "1 \<le> unat b" by (simp add: unat_gt_0 Suc_le_eq)
  then have "1 * 256 ^ length bs \<le> unat b * 256 ^ length bs" by (rule mult_right_mono) simp
  then have "256 ^ length bs \<le> unat b * 256 ^ length bs + SetBytes bs" by linarith
  then show "256 ^ (length (net_IP n) - 1) \<le> SetBytes (net_IP n)" unfolding a by simp
  let ?h = "host_bits n" let ?w = "8 * length (net_IP n)"
  have h: "?h \<le> ?w" using assms Mask_Size_snd [of "net_Mask n"] by (simp add: host_bits_def net_ok_def)
  have eq: "(256 :: nat) ^ length (net_IP n) = 2 ^ ?h * 2 ^ (?w - ?h)"
    using h by (simp add: power_mult flip: power_add)
  obtain k where k: "SetBytes (net_IP n) = 2 ^ ?h * k" using assms by (auto simp: net_ok_def)
  have "2 ^ ?h * k < 2 ^ ?h * 2 ^ (?w - ?h)" using SetBytes_less [of "net_IP n"] k eq by simp
  then have "k + 1 \<le> 2 ^ (?w - ?h)" by simp
  then have "2 ^ ?h * (k + 1) \<le> 2 ^ ?h * 2 ^ (?w - ?h)" by (rule mult_left_mono) simp
  then show "SetBytes (net_IP n) + 2 ^ ?h \<le> 256 ^ length (net_IP n)" using k eq by simp
qed

lemma host_address:
  assumes "net_ok n" "host_of n a"
  shows "length (Bytes a) = length (net_IP n)" "a < 2 ^ 128"
proof -
  note b = net_bounds [OF assms(1)]
  obtain k where k: "length (net_IP n) = Suc k" "k = 3 \<or> k = 15" using assms(1) by (auto simp: net_ok_def)
  have a: "256 ^ k \<le> a" "a < 256 ^ Suc k" using b assms(2) k by (auto simp: host_of_def)
  show "length (Bytes a) = length (net_IP n)" using length_Bytes [OF a] k by simp
  have "(256 :: nat) ^ Suc k \<le> 2 ^ 128" using k(2) by auto
  then show "a < 2 ^ 128" using a(2) by linarith
qed

lemma net_not_mapped:
  assumes "net_ok n"
  shows "take 12 (net_IP n) \<noteq> v4InV6Prefix"
proof
  assume *: "take 12 (net_IP n) = v4InV6Prefix"
  have "net_IP n \<noteq> []" using assms by (auto simp: net_ok_def)
  then show False using assms arg_cong [OF *, of hd] by (simp add: net_ok_def hd_take v4InV6Prefix_def numeral_eq_Suc)
qed

lemma pool_number:
  assumes "net_ok (ip_network p)" "ip_family p = ip_family (newIPPool (ip_network p))" "length a = length (net_IP (ip_network p))"
    "length a = 16 \<longrightarrow> take 12 a \<noteq> v4InV6Prefix"
  shows "ipToBigInt p a = SetBytes a"
proof -
  have "take 12 (net_IP (ip_network p)) \<noteq> v4InV6Prefix" by (rule net_not_mapped [OF assms(1)])
  then show ?thesis using assms by (auto simp: ipToBigInt_def newIPPool_def To4_def To16_def net_ok_def)
qed

lemma host_not_mapped:
  assumes "net_ok n" "host_of n a" "length (Bytes a) = 16"
  shows "take 12 (Bytes a) \<noteq> v4InV6Prefix"
proof
  assume m: "take 12 (Bytes a) = v4InV6Prefix"
  have k: "length (net_IP n) = 16" using host_address [OF assms(1,2)] assms(3) by simp
  obtain b bs where c: "Bytes a = b # bs" "length bs = 15" using assms(3) by (cases "Bytes a") auto
  then have "b = 0" using arg_cong [OF m, of hd] by (simp add: v4InV6Prefix_def numeral_eq_Suc)
  then have "SetBytes (Bytes a) < 256 ^ 15" using c SetBytes_less [of bs] by simp
  then have "a < 256 ^ 15" by (simp add: SetBytes_Bytes)
  then show False using net_bounds(1) [OF assms(1)] assms(2) k by (simp add: host_of_def)
qed

lemma allocate_from_result:
  "(\<exists>i. a \<le> i \<and> i < a + n \<and> pool_key i \<notin> ip_used p \<and> (\<forall>j. a \<le> j \<longrightarrow> j < i \<longrightarrow> pool_key j \<in> ip_used p) \<and>
      allocate_from n a p = Inr (Bytes i, p\<lparr>ip_used := insert (pool_key i) (ip_used p)\<rparr>)) \<or>
   (\<forall>i. a \<le> i \<longrightarrow> i < a + n \<longrightarrow> pool_key i \<in> ip_used p) \<and> allocate_from n a p = Inl (Err ''no available IPs in pool'')"
proof (induction n arbitrary: a)
  case (Suc n)
  show ?case
  proof (cases "pool_key a \<in> ip_used p")
    case True
    then have step: "pool_key j \<in> ip_used p" if "a \<le> j" "a + 1 \<le> j \<longrightarrow> pool_key j \<in> ip_used p" for j
      using that by (cases "j = a") auto
    from Suc [of "a + 1"] show ?thesis
    proof (elim disjE exE conjE)
      fix i assume i: "a + 1 \<le> i" "i < a + 1 + n" "pool_key i \<notin> ip_used p"
        "\<forall>j. a + 1 \<le> j \<longrightarrow> j < i \<longrightarrow> pool_key j \<in> ip_used p"
        "allocate_from n (a + 1) p = Inr (Bytes i, p\<lparr>ip_used := insert (pool_key i) (ip_used p)\<rparr>)"
      then show ?thesis using True step by (intro disjI1 exI [of _ i]) auto
    qed (use True step in auto)
  qed auto
qed simp

text \<open>A host number is an address inside of the network, other than its first and last one.\<close>

lemma host_contained:
  assumes "net_ok n" "host_of n a"
  shows "IPNet_Contains n (Bytes a)"
proof -
  let ?m = "net_Mask n" let ?h = "host_bits n" let ?b = "SetBytes (net_IP n)"
  have len: "length (Bytes a) = length (net_IP n)" by (rule host_address [OF assms])
  obtain ones w where m: "Mask_Size ?m = (ones, w)" by force
  have w: "0 < w" "length ?m = length (net_IP n)" "?h = w - ones" using assms(1) m by (auto simp: net_ok_def host_bits_def)
  obtain k where k: "?b = 2 ^ ?h * k" using assms(1) by (auto simp: net_ok_def)
  have "a div 2 ^ ?h = k"
  proof -
    have "a = ?b + (a - ?b)" "a - ?b < 2 ^ ?h" using assms(2) unfolding host_of_def by linarith+
    then have "a = 2 ^ ?h * k + (a - ?b)" using k by simp
    then show ?thesis using \<open>a - ?b < 2 ^ ?h\<close> by (metis div_mult_self4 div_less power_not_zero zero_neq_numeral add.right_neutral add.commute)
  qed
  then have "drop_bit (w - ones) ?b = drop_bit (w - ones) (SetBytes (Bytes a))"
    using k w(3) by (simp add: SetBytes_Bytes drop_bit_eq_div)
  then have eq: "map2 (AND) (net_IP n) ?m = map2 (AND) (Bytes a) ?m"
    using masked_eq_iff [OF m w(1), of "net_IP n" "Bytes a"] w(2) len by simp
  consider "length (net_IP n) = 4" | "length (net_IP n) = 16" using assms(1) by (auto simp: net_ok_def)
  then show ?thesis
  proof cases
    case 1
    then show ?thesis using eq len w(2) by (simp add: IPNet_Contains_def networkNumberAndMask_def To4_def Let_def)
  next
    case 2
    then show ?thesis using eq len w(2) net_not_mapped [OF assms(1)] host_not_mapped [OF assms]
      by (simp add: IPNet_Contains_def networkNumberAndMask_def To4_def Let_def)
  qed
qed

lemma pool_hosts:
  assumes "net_ok n"
  shows "nat (maxHosts n - 2) = 2 ^ host_bits n - 2"
proof -
  have "maxHosts n = 2 ^ host_bits n" by (simp add: maxHosts_def host_bits_def Let_def split: prod.splits)
  then show ?thesis by (simp add: nat_diff_distrib' nat_power_eq)
qed

text \<open>What the pool of a good network keeps.\<close>

definition pool_of :: "IPNet \<Rightarrow> IPPool \<Rightarrow> bool" where
  "pool_of n p \<longleftrightarrow> ip_network p = n \<and> ip_family p = ip_family (newIPPool n) \<and> ip_maxHosts p = maxHosts n - 2"

lemma pool_of_ops [simp]:
  "pool_of n (newIPPool n)" "pool_of n (SetUsed a p) = pool_of n p" "pool_of n (Release a p) = pool_of n p"
  "pool_of n (p\<lparr>ip_used := u\<rparr>) = pool_of n p"
  by (auto simp: pool_of_def newIPPool_def SetUsed_def Release_def)

lemma pool_base:
  assumes "net_ok n" "pool_of n p"
  shows "ipToBigInt p (net_IP (ip_network p)) = SetBytes (net_IP n)"
proof -
  have n: "ip_network p = n" using assms(2) by (simp add: pool_of_def)
  show ?thesis using pool_number [of p "net_IP n"] net_not_mapped [OF assms(1)] assms n by (simp add: pool_of_def)
qed

lemma pool_host_number:
  assumes "net_ok n" "pool_of n p" "host_of n a"
  shows "ipToBigInt p (Bytes a) = a"
  using pool_number [of p "Bytes a"] host_address(1) [OF assms(1,3)] host_not_mapped [OF assms(1,3)] assms(1,2)
  by (simp add: pool_of_def SetBytes_Bytes)

text \<open>
  \<^verbatim>\<open>Allocate\<close> returns the first free host address of the network, and fails only when there is
  none.
\<close>

lemma Allocate_result:
  assumes "net_ok n" "pool_of n p"
  shows "(\<exists>a. host_of n a \<and> pool_key a \<notin> ip_used p \<and> (\<forall>b. host_of n b \<longrightarrow> b < a \<longrightarrow> pool_key b \<in> ip_used p) \<and>
      Allocate p = Inr (Bytes a, p\<lparr>ip_used := insert (pool_key a) (ip_used p)\<rparr>)) \<or>
    (\<forall>a. host_of n a \<longrightarrow> pool_key a \<in> ip_used p) \<and> Allocate p = Inl (Err ''no available IPs in pool'')"
proof -
  let ?b = "SetBytes (net_IP n)" let ?k = "2 ^ host_bits n - 2"
  have A: "Allocate p = allocate_from ?k (?b + 1) p"
    using pool_base [OF assms] pool_hosts [OF assms(1)] assms(2) by (simp add: Allocate_def pool_of_def)
  have H: "host_of n a \<longleftrightarrow> ?b + 1 \<le> a \<and> a < ?b + 1 + ?k" for a
    unfolding host_of_def by linarith
  from allocate_from_result [of "?b + 1" ?k p] show ?thesis
  proof (elim disjE exE conjE)
    fix i assume "?b + 1 \<le> i" "i < ?b + 1 + ?k" "pool_key i \<notin> ip_used p"
      "\<forall>j. ?b + 1 \<le> j \<longrightarrow> j < i \<longrightarrow> pool_key j \<in> ip_used p"
      "allocate_from ?k (?b + 1) p = Inr (Bytes i, p\<lparr>ip_used := insert (pool_key i) (ip_used p)\<rparr>)"
    then show ?thesis unfolding A by (intro disjI1 exI [of _ i], simp only: H simp_thms, blast)
  qed (simp add: A H)
qed

end
