(* ===== verification/Server_Clients.thy ===== *)
theory Server_Clients
  imports Server_IPPool
begin

text \<open>
  The life of the clients of a server (\<^verbatim>\<open>pkg/server/server.go\<close>, \<^verbatim>\<open>pkg/server/client.go\<close>): addresses
  are allocated, the client is entered in the table that routes packets, and both are undone when
  it closes. Every client runs in goroutines of its own, so the calls of different clients
  interleave; a step below is one call on a pool or on the table, each of which holds a lock.
\<close>

datatype phase = Fresh | Allocated | Stored | Serving | Released | Released6 | Deleted | Closed

record ClientTunnel =
  cl_sourceIP :: ip
  cl_sourceIP6 :: "ip option"
  cl_phase :: phase

text \<open>The key of the client table is the text of an address; an IPv4 address has the same text in both forms.\<close>

definition addr_text :: "ip \<Rightarrow> ip" where
  "addr_text a = (case To4 a of None \<Rightarrow> a | Some b \<Rightarrow> b)"

text \<open>A pool the adapter has no network for is nil, and a call on it panics at its lock.\<close>

record Server =
  sv_ipPool :: "IPPool option"
  sv_ipPool6 :: "IPPool option"
  sv_clients :: "ip \<rightharpoonup> nat"
  sv_tunnels :: "ClientTunnel list"

definition buildIPPool :: "(IPNet \<times> ip) option \<Rightarrow> (IPNet \<times> ip) option \<Rightarrow> Server" where
  "buildIPPool net4 net6 =
     \<lparr>sv_ipPool = map_option (\<lambda>(ipNet, ip). SetUsed ip (newIPPool ipNet)) net4,
      sv_ipPool6 = map_option (\<lambda>(ipNet6, ip6). SetUsed ip6 (newIPPool ipNet6)) net6,
      sv_clients = Map.empty, sv_tunnels = []\<rparr>"

datatype client_step =
    AllocateIP | AllocateIP6 nat | Store nat | Store6 nat
  | ReleaseIP nat | ReleaseIP6 nat | Delete nat | Delete6 nat

definition in_phase :: "Server \<Rightarrow> nat \<Rightarrow> phase \<Rightarrow> bool" where
  "in_phase s i ph \<longleftrightarrow> i < length (sv_tunnels s) \<and> cl_phase (sv_tunnels s ! i) = ph"

definition set_phase :: "nat \<Rightarrow> phase \<Rightarrow> Server \<Rightarrow> Server" where
  "set_phase i ph s = s\<lparr>sv_tunnels := (sv_tunnels s)[i := (sv_tunnels s ! i)\<lparr>cl_phase := ph\<rparr>]\<rparr>"

text \<open>
  The calls of \<^verbatim>\<open>handleNewClient\<close>: a client with no IPv4 address is turned away, one with no IPv6
  address is served without it.
\<close>

definition allocate_ip :: "Server \<Rightarrow> Server result" where
  "allocate_ip s =
     (case sv_ipPool s of
        None \<Rightarrow> Inl Panic
      | Some p \<Rightarrow>
          (case Allocate p of
             Inl _ \<Rightarrow> Inr s
           | Inr (sourceIP, p') \<Rightarrow> Inr (s\<lparr>sv_ipPool := Some p',
               sv_tunnels := sv_tunnels s @ [\<lparr>cl_sourceIP = sourceIP, cl_sourceIP6 = None, cl_phase = Fresh\<rparr>]\<rparr>)))"

definition allocate_ip6 :: "nat \<Rightarrow> Server \<Rightarrow> Server result" where
  "allocate_ip6 i s =
     (case sv_ipPool6 s of
        None \<Rightarrow> Inl Panic
      | Some p \<Rightarrow>
          (let (sourceIP6, p') = (case Allocate p of Inl _ \<Rightarrow> (None, p) | Inr (a, p') \<Rightarrow> (Some a, p'))
           in Inr (s\<lparr>sv_ipPool6 := Some p',
                sv_tunnels := (sv_tunnels s)[i := (sv_tunnels s ! i)\<lparr>cl_sourceIP6 := sourceIP6, cl_phase := Allocated\<rparr>]\<rparr>)))"

text \<open>The steps of one client in the order of the code; a step out of order does not happen (\<open>Inr s\<close>).\<close>

fun client_do :: "client_step \<Rightarrow> Server \<Rightarrow> Server result" where
  "client_do AllocateIP s = allocate_ip s"
| "client_do (AllocateIP6 i) s = (if in_phase s i Fresh then allocate_ip6 i s else Inr s)"
| "client_do (Store i) s =
     (if in_phase s i Allocated
      then Inr (set_phase i Stored (s\<lparr>sv_clients := (sv_clients s)(addr_text (cl_sourceIP (sv_tunnels s ! i)) \<mapsto> i)\<rparr>))
      else Inr s)"
| "client_do (Store6 i) s =
     (if in_phase s i Stored
      then Inr (set_phase i Serving (s\<lparr>sv_clients :=
        (case cl_sourceIP6 (sv_tunnels s ! i) of None \<Rightarrow> sv_clients s | Some a \<Rightarrow> (sv_clients s)(addr_text a \<mapsto> i))\<rparr>))
      else Inr s)"
| "client_do (ReleaseIP i) s =
     (if in_phase s i Serving
      then (case sv_ipPool s of
              None \<Rightarrow> Inl Panic
            | Some p \<Rightarrow> Inr (set_phase i Released (s\<lparr>sv_ipPool := Some (Release (cl_sourceIP (sv_tunnels s ! i)) p)\<rparr>)))
      else Inr s)"
| "client_do (ReleaseIP6 i) s =
     (if in_phase s i Released
      then (case sv_ipPool6 s of
              None \<Rightarrow> Inl Panic
            | Some p \<Rightarrow> Inr (set_phase i Released6 (s\<lparr>sv_ipPool6 :=
                Some (Release (case cl_sourceIP6 (sv_tunnels s ! i) of None \<Rightarrow> [] | Some a \<Rightarrow> a) p)\<rparr>)))
      else Inr s)"
| "client_do (Delete i) s =
     (if in_phase s i Released6
      then Inr (set_phase i Deleted (s\<lparr>sv_clients := (sv_clients s)(addr_text (cl_sourceIP (sv_tunnels s ! i)) := None)\<rparr>))
      else Inr s)"
| "client_do (Delete6 i) s =
     (if in_phase s i Deleted
      then Inr (set_phase i Closed (s\<lparr>sv_clients :=
        (case cl_sourceIP6 (sv_tunnels s ! i) of None \<Rightarrow> sv_clients s | Some a \<Rightarrow> (sv_clients s)(addr_text a := None))\<rparr>))
      else Inr s)"

fun client_run :: "client_step list \<Rightarrow> Server \<Rightarrow> Server result" where
  "client_run [] s = Inr s"
| "client_run (e # es) s = rbind (client_do e s) (client_run es)"

section \<open>What the server relies on of a pool\<close>

text \<open>The addresses that clients hold are marked as used, differ from each other and from the adapter's own.\<close>

definition leases :: "'a set \<Rightarrow> 'a \<Rightarrow> (nat \<rightharpoonup> 'a) \<Rightarrow> bool" where
  "leases used own held \<longleftrightarrow> own \<in> used \<and> ran held \<subseteq> used - {own} \<and> inj_on held (dom held)"

locale address_pool =
  fixes allocate :: "'p \<Rightarrow> ('a \<times> 'p) result" and release :: "'a \<Rightarrow> 'p \<Rightarrow> 'p"
    and nil :: 'a and wf :: "'n \<Rightarrow> 'p \<Rightarrow> bool" and used :: "'p \<Rightarrow> 'a set"
  assumes fresh: "wf n p \<Longrightarrow> allocate p = Inr (a, p') \<Longrightarrow> wf n p' \<and> a \<notin> used p \<and> used p' = insert a (used p)"
    and freed: "wf n p \<Longrightarrow> a \<in> used p \<Longrightarrow> wf n (release a p) \<and> used (release a p) = used p - {a}"
    and freed_nil: "wf n p \<Longrightarrow> wf n (release nil p) \<and> used (release nil p) = used p"
begin

lemma lease_new:
  assumes "wf n p" "leases (used p) own held" "allocate p = Inr (a, p')" "held i = None"
  shows "wf n p' \<and> leases (used p') own (held(i \<mapsto> a))"
proof -
  have a: "wf n p'" "a \<notin> used p" "used p' = insert a (used p)" using fresh assms(1,3) by blast+
  have "a \<notin> ran held" "own \<noteq> a" using assms(2) a(2) by (auto simp: leases_def)
  then have "inj_on (held(i \<mapsto> a)) (insert i (dom held))"
    using assms(2,4) by (auto simp: leases_def inj_on_def ran_def dom_def)
  then show ?thesis using a assms(2) \<open>own \<noteq> a\<close> by (auto simp: leases_def ran_def split: if_splits)
qed

lemma lease_end:
  assumes "wf n p" "leases (used p) own held" "held i = Some a"
  shows "wf n (release a p) \<and> leases (used (release a p)) own (held(i := None))"
proof -
  have a: "a \<in> used p" "a \<noteq> own" using assms(2,3) by (auto simp: leases_def ran_def)
  have "b \<noteq> a" if "held j = Some b" "j \<noteq> i" for j b
    using that assms(2,3) by (auto simp: leases_def inj_on_def dom_def)
  then show ?thesis
    using freed [OF assms(1) a(1)] a(2) assms(2) by (auto simp: leases_def ran_def inj_on_def dom_def)
qed

lemma lease_nil: "wf n p \<Longrightarrow> leases (used p) own held \<Longrightarrow> wf n (release nil p) \<and> leases (used (release nil p)) own held"
  using freed_nil by simp

end

text \<open>The pools of the model keep that contract, for the host addresses of a network.\<close>

definition ippool_wf :: "IPNet \<Rightarrow> IPPool \<Rightarrow> bool" where
  "ippool_wf n p \<longleftrightarrow> net_ok n \<and> pool_of n p"

definition pool_used :: "IPPool \<Rightarrow> ip set" where
  "pool_used p = {Bytes h |h. host_of (ip_network p) h \<and> pool_key h \<in> ip_used p}"

lemma host_key_inj: "net_ok n \<Longrightarrow> host_of n a \<Longrightarrow> host_of n b \<Longrightarrow> pool_key a = pool_key b \<longleftrightarrow> a = b"
  using pool_key_inj host_address(2) by blast

lemma Bytes_inj: "Bytes a = Bytes b \<longleftrightarrow> a = b"
  by (metis SetBytes_Bytes)

lemma nil_number: "ipToBigInt p [] = 0"
  by (simp add: ipToBigInt_def To4_def To16_def split: family.splits)

lemma pool_network: "pool_of n p \<Longrightarrow> ip_network p = n"
  by (simp add: pool_of_def)

lemma Allocate_used:
  assumes "ippool_wf n p" "Allocate p = Inr (a, p')"
  shows "ippool_wf n p' \<and> a \<notin> pool_used p \<and> pool_used p' = insert a (pool_used p)"
proof -
  have p: "net_ok n" "pool_of n p" "ip_network p = n" using assms(1) by (auto simp: ippool_wf_def pool_network)
  from Allocate_result [OF p(1,2)] assms(2) obtain h where h: "host_of n h" "pool_key h \<notin> ip_used p" "a = Bytes h"
    "p' = p\<lparr>ip_used := insert (pool_key h) (ip_used p)\<rparr>" by auto
  show ?thesis
    using p h by (auto simp: ippool_wf_def pool_used_def Bytes_inj host_key_inj [OF p(1) _ h(1)])
qed

lemma Release_used:
  assumes "ippool_wf n p" "a \<in> pool_used p"
  shows "ippool_wf n (Release a p) \<and> pool_used (Release a p) = pool_used p - {a}"
proof -
  have p: "net_ok n" "pool_of n p" "ip_network p = n" using assms(1) by (auto simp: ippool_wf_def pool_network)
  from assms(2) p(3) obtain h where h: "host_of n h" "a = Bytes h" by (auto simp: pool_used_def)
  have r: "Release a p = p\<lparr>ip_used := ip_used p - {pool_key h}\<rparr>"
    using pool_host_number [OF p(1,2) h(1)] h(2) by (simp add: Release_def)
  show ?thesis unfolding r
    using p h by (auto simp: ippool_wf_def pool_used_def Bytes_inj host_key_inj [OF p(1) _ h(1)])
qed

lemma Release_nil_used:
  assumes "ippool_wf n p"
  shows "ippool_wf n (Release [] p) \<and> pool_used (Release [] p) = pool_used p"
proof -
  have p: "net_ok n" "pool_of n p" "ip_network p = n" using assms(1) by (auto simp: ippool_wf_def pool_network)
  have "pool_key h \<noteq> pool_key 0" if "host_of n h" for h
    using pool_key_inj [of h 0] host_address(2) [OF p(1) that] that by (auto simp: host_of_def)
  then show ?thesis using p by (auto simp: ippool_wf_def pool_used_def Release_def nil_number)
qed

interpretation ip_pool: address_pool Allocate Release "[]" ippool_wf pool_used
  by unfold_locales (blast intro: Allocate_used Release_used Release_nil_used dest: Allocate_used Release_used Release_nil_used)+

section \<open>Live clients have addresses of their own\<close>

text \<open>The addresses held by the clients that have been given one and have not released it.\<close>

definition held4 :: "ClientTunnel list \<Rightarrow> nat \<rightharpoonup> ip" where
  "held4 ts i = (if i < length ts \<and> cl_phase (ts ! i) \<in> {Fresh, Allocated, Stored, Serving}
     then Some (cl_sourceIP (ts ! i)) else None)"

definition held6 :: "ClientTunnel list \<Rightarrow> nat \<rightharpoonup> ip" where
  "held6 ts i = (if i < length ts \<and> cl_phase (ts ! i) \<in> {Allocated, Stored, Serving, Released}
     then cl_sourceIP6 (ts ! i) else None)"

lemma held_length: "held4 ts (length ts) = None"
  by (simp add: held4_def)

lemma held_new:
  assumes "cl_phase c = Fresh"
  shows "held4 (ts @ [c]) = (held4 ts)(length ts \<mapsto> cl_sourceIP c)" "held6 (ts @ [c]) = held6 ts"
  using assms by (auto simp: held4_def held6_def fun_eq_iff nth_append less_Suc_eq)

lemma held_update:
  assumes "i < length ts"
  shows "held4 (ts[i := c]) = (held4 ts)(i := if cl_phase c \<in> {Fresh, Allocated, Stored, Serving} then Some (cl_sourceIP c) else None)"
    "held6 (ts[i := c]) = (held6 ts)(i := if cl_phase c \<in> {Allocated, Stored, Serving, Released} then cl_sourceIP6 c else None)"
  using assms by (auto simp: held4_def held6_def fun_eq_iff nth_list_update)

definition pool_inv :: "IPNet \<Rightarrow> ip \<Rightarrow> IPPool option \<Rightarrow> (nat \<rightharpoonup> ip) \<Rightarrow> bool" where
  "pool_inv n own p held \<longleftrightarrow> (\<exists>q. p = Some q \<and> ippool_wf n q \<and> leases (pool_used q) own held)"

definition clients_inv :: "IPNet \<Rightarrow> ip \<Rightarrow> IPNet \<Rightarrow> ip \<Rightarrow> Server \<Rightarrow> bool" where
  "clients_inv n own n6 own6 s \<longleftrightarrow>
     pool_inv n own (sv_ipPool s) (held4 (sv_tunnels s)) \<and> pool_inv n6 own6 (sv_ipPool6 s) (held6 (sv_tunnels s))"

lemma pool_inv_new:
  assumes "net_ok n" "host_of n h"
  shows "pool_inv n (Bytes h) (Some (SetUsed (Bytes h) (newIPPool n))) Map.empty"
proof -
  have "ipToBigInt (newIPPool n) (Bytes h) = h" using pool_host_number [OF assms(1) _ assms(2)] by simp
  moreover have "ippool_wf n (SetUsed (Bytes h) (newIPPool n))" using assms by (simp add: ippool_wf_def)
  ultimately show ?thesis
    using assms pool_network [of n "newIPPool n"] by (auto simp: pool_inv_def leases_def pool_used_def SetUsed_def)
qed

lemma held_phase:
  assumes "in_phase s i ph"
  shows "held4 (sv_tunnels (set_phase i ph' s)) = (held4 (sv_tunnels s))
      (i := if ph' \<in> {Fresh, Allocated, Stored, Serving} then Some (cl_sourceIP (sv_tunnels s ! i)) else None)"
    "held6 (sv_tunnels (set_phase i ph' s)) = (held6 (sv_tunnels s))
      (i := if ph' \<in> {Allocated, Stored, Serving, Released} then cl_sourceIP6 (sv_tunnels s ! i) else None)"
  using assms by (simp_all add: in_phase_def set_phase_def held_update)

lemma held_in_phase:
  assumes "in_phase s i ph"
  shows "held4 (sv_tunnels s) i = (if ph \<in> {Fresh, Allocated, Stored, Serving} then Some (cl_sourceIP (sv_tunnels s ! i)) else None)"
    "held6 (sv_tunnels s) i = (if ph \<in> {Allocated, Stored, Serving, Released} then cl_sourceIP6 (sv_tunnels s ! i) else None)"
  using assms by (simp_all add: in_phase_def held4_def held6_def)

text \<open>The steps that do not touch a pool only move a client to a phase that holds the same addresses.\<close>

lemma set_phase_pools [simp]:
  "sv_ipPool (set_phase i ph s) = sv_ipPool s" "sv_ipPool6 (set_phase i ph s) = sv_ipPool6 s"
  by (simp_all add: set_phase_def)

lemma clients_irrelevant:
  "set_phase i ph (s\<lparr>sv_clients := m\<rparr>) = (set_phase i ph s)\<lparr>sv_clients := m\<rparr>"
  "clients_inv n own n6 own6 (s\<lparr>sv_clients := m\<rparr>) = clients_inv n own n6 own6 s"
  by (simp_all add: set_phase_def clients_inv_def)

lemma phase_keeps:
  assumes "clients_inv n own n6 own6 s" "in_phase s i ph"
    "ph \<in> {Fresh, Allocated, Stored, Serving} \<longleftrightarrow> ph' \<in> {Fresh, Allocated, Stored, Serving}"
    "ph \<in> {Allocated, Stored, Serving, Released} \<longleftrightarrow> ph' \<in> {Allocated, Stored, Serving, Released}"
  shows "clients_inv n own n6 own6 (set_phase i ph' s)"
proof -
  have "held4 (sv_tunnels (set_phase i ph' s)) = held4 (sv_tunnels s)"
    unfolding held_phase [OF assms(2)] using held_in_phase(1) [OF assms(2)] assms(3) by (auto simp: fun_eq_iff)
  moreover have "held6 (sv_tunnels (set_phase i ph' s)) = held6 (sv_tunnels s)"
    unfolding held_phase [OF assms(2)] using held_in_phase(2) [OF assms(2)] assms(4) by (auto simp: fun_eq_iff)
  ultimately show ?thesis using assms(1) by (simp add: clients_inv_def)
qed

lemma allocate_ip_inv:
  assumes "clients_inv n own n6 own6 s"
  shows "\<exists>s'. allocate_ip s = Inr s' \<and> clients_inv n own n6 own6 s'"
proof -
  from assms obtain q where q: "sv_ipPool s = Some q" "ippool_wf n q" "leases (pool_used q) own (held4 (sv_tunnels s))"
    by (auto simp: clients_inv_def pool_inv_def)
  show ?thesis
  proof (cases "Allocate q")
    case (Inr r)
    then obtain a q' where r: "Allocate q = Inr (a, q')" by (cases r) auto
    show ?thesis
      using ip_pool.lease_new [OF q(2,3) r held_length] assms
      by (simp add: allocate_ip_def q(1) r clients_inv_def pool_inv_def held_new)
  qed (use assms q(1) in \<open>simp add: allocate_ip_def\<close>)
qed

lemma allocate_ip6_inv:
  assumes "clients_inv n own n6 own6 s" "in_phase s i Fresh"
  shows "\<exists>s'. allocate_ip6 i s = Inr s' \<and> clients_inv n own n6 own6 s'"
proof -
  from assms(1) obtain q where q: "sv_ipPool6 s = Some q" "ippool_wf n6 q" "leases (pool_used q) own6 (held6 (sv_tunnels s))"
    by (auto simp: clients_inv_def pool_inv_def)
  have i: "i < length (sv_tunnels s)" "held6 (sv_tunnels s) i = None"
    "held4 (sv_tunnels s) i = Some (cl_sourceIP (sv_tunnels s ! i))"
    using assms(2) held_in_phase [OF assms(2)] by (simp_all add: in_phase_def)
  have h4: "(held4 (sv_tunnels s))(i \<mapsto> cl_sourceIP (sv_tunnels s ! i)) = held4 (sv_tunnels s)"
    "(held6 (sv_tunnels s))(i := None) = held6 (sv_tunnels s)"
    using i by auto
  show ?thesis
  proof (cases "Allocate q")
    case (Inl e)
    then show ?thesis
      using assms(1) q by (simp add: allocate_ip6_def clients_inv_def pool_inv_def held_update i(1) h4)
  next
    case (Inr r)
    then obtain a q' where r: "Allocate q = Inr (a, q')" by (cases r) auto
    show ?thesis
      using ip_pool.lease_new [OF q(2,3) r i(2)] assms(1)
      by (simp add: allocate_ip6_def q(1) r clients_inv_def pool_inv_def held_update i(1) h4)
  qed
qed

lemma release_inv:
  assumes "clients_inv n own n6 own6 s" "in_phase s i Serving"
  shows "\<exists>s'. client_do (ReleaseIP i) s = Inr s' \<and> clients_inv n own n6 own6 s'"
proof -
  let ?a = "cl_sourceIP (sv_tunnels s ! i)"
  from assms(1) obtain q where q: "sv_ipPool s = Some q" "ippool_wf n q" "leases (pool_used q) own (held4 (sv_tunnels s))"
    by (auto simp: clients_inv_def pool_inv_def)
  note i = held_in_phase [OF assms(2), simplified]
  let ?s = "s\<lparr>sv_ipPool := Some (Release ?a q)\<rparr>"
  have p: "in_phase ?s i Serving" using assms(2) by (simp add: in_phase_def)
  have "clients_inv n own n6 own6 (set_phase i Released ?s)"
    using ip_pool.lease_end [OF q(2,3) i(1)] assms(1) i(2)
    by (simp add: clients_inv_def pool_inv_def held_phase [OF p] fun_upd_idem)
  then show ?thesis using assms(2) q(1) by simp
qed

lemma release6_inv:
  assumes "clients_inv n own n6 own6 s" "in_phase s i Released"
  shows "\<exists>s'. client_do (ReleaseIP6 i) s = Inr s' \<and> clients_inv n own n6 own6 s'"
proof -
  let ?a = "case cl_sourceIP6 (sv_tunnels s ! i) of None \<Rightarrow> [] | Some a \<Rightarrow> a"
  from assms(1) obtain q where q: "sv_ipPool6 s = Some q" "ippool_wf n6 q" "leases (pool_used q) own6 (held6 (sv_tunnels s))"
    by (auto simp: clients_inv_def pool_inv_def)
  note i = held_in_phase [OF assms(2), simplified]
  let ?s = "s\<lparr>sv_ipPool6 := Some (Release ?a q)\<rparr>"
  have p: "in_phase ?s i Released" using assms(2) by (simp add: in_phase_def)
  have "ippool_wf n6 (Release ?a q) \<and> leases (pool_used (Release ?a q)) own6 ((held6 (sv_tunnels s))(i := None))"
  proof (cases "cl_sourceIP6 (sv_tunnels s ! i)")
    case None
    then show ?thesis using ip_pool.lease_nil [OF q(2,3)] i(2) by (simp add: fun_upd_idem)
  next
    case (Some a)
    then show ?thesis using ip_pool.lease_end [OF q(2,3), of i a] i(2) by simp
  qed
  then have "clients_inv n own n6 own6 (set_phase i Released6 ?s)"
    using assms(1) i(1) by (simp add: clients_inv_def pool_inv_def held_phase [OF p] fun_upd_idem)
  then show ?thesis using assms(2) q(1) by simp
qed

lemma client_do_inv:
  assumes "clients_inv n own n6 own6 s"
  shows "\<exists>s'. client_do e s = Inr s' \<and> clients_inv n own n6 own6 s'"
proof (cases e)
  case AllocateIP
  then show ?thesis using allocate_ip_inv [OF assms] by simp
next
  case (AllocateIP6 i)
  then show ?thesis using allocate_ip6_inv [OF assms, of i] assms by simp
next
  case (ReleaseIP i)
  then show ?thesis using release_inv [OF assms, of i] assms by (cases "in_phase s i Serving") simp_all
next
  case (ReleaseIP6 i)
  then show ?thesis using release6_inv [OF assms, of i] assms by (cases "in_phase s i Released") simp_all
qed (use assms in \<open>auto simp: clients_irrelevant intro: phase_keeps\<close>)

lemma client_run_inv:
  "clients_inv n own n6 own6 s \<Longrightarrow> \<exists>s'. client_run es s = Inr s' \<and> clients_inv n own n6 own6 s'"
proof (induction es arbitrary: s)
  case (Cons e es)
  from client_do_inv [OF Cons.prems, of e] obtain s' where "client_do e s = Inr s'" "clients_inv n own n6 own6 s'" by blast
  then show ?case using Cons.IH by simp
qed simp

lemma leased_address:
  assumes "pool_inv n own p held" "held i = Some a"
  shows "IPNet_Contains n a" "a \<noteq> own" "held j = Some a \<Longrightarrow> j = i"
proof -
  from assms obtain q h where q: "ippool_wf n q" "host_of (ip_network q) h" "a = Bytes h" "a \<noteq> own" "inj_on held (dom held)"
    by (auto simp: pool_inv_def leases_def pool_used_def ran_def subset_iff)
  have "ip_network q = n" using q(1) by (simp add: ippool_wf_def pool_network)
  then show "IPNet_Contains n a" using host_contained q(1-3) by (simp add: ippool_wf_def)
  show "a \<noteq> own" by (rule q(4))
  show "j = i" if "held j = Some a" using inj_onD [OF q(5), of j i] that assms(2) by auto
qed

text \<open>
  C18. Whatever the order in which the goroutines of the clients run, no call of theirs panics when the
  adapter has both networks, and clients that hold addresses never share them: each has an IPv4
  address, and an IPv6 address if it got one, that lies in the network of the adapter and is
  neither that of another client nor the one of the adapter itself.
\<close>

theorem clients_own_addresses:
  assumes "net_ok n" "net_ok n6" "host_of n h" "host_of n6 h6"
  shows "\<exists>s. client_run es (buildIPPool (Some (n, Bytes h)) (Some (n6, Bytes h6))) = Inr s \<and>
    (\<forall>i a. held4 (sv_tunnels s) i = Some a \<longrightarrow> IPNet_Contains n a \<and> a \<noteq> Bytes h \<and>
       (\<forall>j. held4 (sv_tunnels s) j = Some a \<longrightarrow> j = i)) \<and>
    (\<forall>i a. held6 (sv_tunnels s) i = Some a \<longrightarrow> IPNet_Contains n6 a \<and> a \<noteq> Bytes h6 \<and>
       (\<forall>j. held6 (sv_tunnels s) j = Some a \<longrightarrow> j = i))"
proof -
  have "held4 [] = Map.empty" "held6 [] = Map.empty" by (auto simp: held4_def held6_def)
  then have "clients_inv n (Bytes h) n6 (Bytes h6) (buildIPPool (Some (n, Bytes h)) (Some (n6, Bytes h6)))"
    using pool_inv_new assms by (simp add: clients_inv_def buildIPPool_def)
  from client_run_inv [OF this, of es] obtain s where
    "client_run es (buildIPPool (Some (n, Bytes h)) (Some (n6, Bytes h6))) = Inr s"
    "pool_inv n (Bytes h) (sv_ipPool s) (held4 (sv_tunnels s))" "pool_inv n6 (Bytes h6) (sv_ipPool6 s) (held6 (sv_tunnels s))"
    by (auto simp: clients_inv_def)
  then show ?thesis using leased_address by blast
qed

text \<open>An address that is given back at once is the next one to be handed out.\<close>

lemma Release_Allocate:
  assumes "ippool_wf n p" "Allocate p = Inr (a, p')"
  shows "Release a p' = p"
proof -
  have p: "net_ok n" "pool_of n p" using assms(1) by (auto simp: ippool_wf_def)
  from Allocate_result [OF p] assms(2) obtain h where h: "host_of n h" "pool_key h \<notin> ip_used p" "a = Bytes h"
    "p' = p\<lparr>ip_used := insert (pool_key h) (ip_used p)\<rparr>" by auto
  have "ipToBigInt p' a = h" using pool_host_number [OF p(1) _ h(1), of p'] p(2) h(3,4) by simp
  then show ?thesis using h(2,4) by (simp add: Release_def)
qed

lemma free_host:
  assumes "net_ok n" "host_of n h" "host_of n g" "g \<noteq> h"
  obtains a p' where "Allocate (SetUsed (Bytes h) (newIPPool n)) = Inr (a, p')"
    "Release a p' = SetUsed (Bytes h) (newIPPool n)"
proof -
  let ?p = "SetUsed (Bytes h) (newIPPool n)"
  have "ipToBigInt (newIPPool n) (Bytes h) = h" using pool_host_number [OF assms(1) _ assms(2)] by simp
  then have "pool_key g \<notin> ip_used ?p"
    using host_key_inj [OF assms(1,3,2)] assms(4) by (simp add: SetUsed_def newIPPool_def)
  then obtain a p' where "Allocate ?p = Inr (a, p')" using Allocate_result [OF assms(1), of ?p] assms(3) by auto
  moreover have "ippool_wf n ?p" using assms(1) by (simp add: ippool_wf_def)
  ultimately show thesis using Release_Allocate that by blast
qed

text \<open>
  \<^verbatim>\<open>Close\<close> gives the addresses back before it takes the client out of the table. This is the order in
  which a second client gets them in between and is then taken out in place of the first.
\<close>

definition late_delete :: "client_step list" where
  "late_delete = [AllocateIP, AllocateIP6 0, Store 0, Store6 0, ReleaseIP 0, ReleaseIP6 0,
     AllocateIP, AllocateIP6 1, Store 1, Store6 1, Delete 0, Delete6 0]"

text \<open>
  C39. Closing a client can cut off another one: \<^verbatim>\<open>Close\<close> releases the addresses first and deletes the table
  entries of these addresses afterwards. On every network with a free address there is an order
  of the calls of two clients after which the second is being served, holds its address, and is
  not found in the table under it, so that no packet reaches it.
\<close>

theorem late_delete_unroutes_client:
  assumes "net_ok n" "host_of n h" "host_of n g" "g \<noteq> h"
    and "net_ok n6" "host_of n6 h6" "host_of n6 g6" "g6 \<noteq> h6"
  shows "\<exists>s a. client_run late_delete (buildIPPool (Some (n, Bytes h)) (Some (n6, Bytes h6))) = Inr s \<and>
    in_phase s 1 Serving \<and> held4 (sv_tunnels s) 1 = Some a \<and> sv_clients s (addr_text a) = None"
proof -
  from free_host [OF assms(1-4)] obtain a p where p: "Allocate (SetUsed (Bytes h) (newIPPool n)) = Inr (a, p)"
    "Release a p = SetUsed (Bytes h) (newIPPool n)" .
  from free_host [OF assms(5-8)] obtain b q where q: "Allocate (SetUsed (Bytes h6) (newIPPool n6)) = Inr (b, q)"
    "Release b q = SetUsed (Bytes h6) (newIPPool n6)" .
  show ?thesis
    by (simp add: late_delete_def buildIPPool_def allocate_ip_def allocate_ip6_def in_phase_def set_phase_def p q held4_def)
qed

section \<open>An example\<close>

definition net29 :: IPNet where
  "net29 = \<lparr>net_IP = [10, 0, 0, 0], net_Mask = [255, 255, 255, 248]\<rparr>"

definition net125 :: IPNet where
  "net125 = \<lparr>net_IP = [253, 0, 0, 0, 0, 0, 0, 0, 0, 0, 0, 0, 0, 0, 0, 0],
     net_Mask = replicate 15 255 @ [248]\<rparr>"

definition own29 :: nat where "own29 = SetBytes [10, 0, 0, 1]"
definition own125 :: nat where "own125 = SetBytes [253, 0, 0, 0, 0, 0, 0, 0, 0, 0, 0, 0, 0, 0, 0, 1]"

lemma example_masks: "Mask_Size (net_Mask net29) = (29, 32)" "Mask_Size (net_Mask net125) = (125, 128)"
  by code_simp+

lemma example_nets:
  "net_ok net29" "host_of net29 own29" "host_of net29 (own29 + 1)" "net_ok net125" "host_of net125 own125" "host_of net125 (own125 + 1)"
  by (simp_all add: net_ok_def host_of_def host_bits_def example_masks)
   (simp_all add: net29_def own29_def net125_def own125_def SetBytes_def)

theorem clients_own_addresses_witness:
  "\<exists>s. client_run [AllocateIP, AllocateIP6 0, AllocateIP]
      (buildIPPool (Some (net29, Bytes own29)) (Some (net125, Bytes own125))) = Inr s \<and>
      held4 (sv_tunnels s) 0 \<noteq> Some (Bytes own29)"
  using clients_own_addresses [OF example_nets(1,4,2,5), of "[AllocateIP, AllocateIP6 0, AllocateIP]"] by blast

theorem late_delete_unroutes_client_witness:
  "\<exists>s a. client_run late_delete (buildIPPool (Some (net29, Bytes own29)) (Some (net125, Bytes own125))) = Inr s \<and>
    in_phase s 1 Serving \<and> held4 (sv_tunnels s) 1 = Some a \<and> sv_clients s (addr_text a) = None"
  by (rule late_delete_unroutes_client [OF example_nets(1-3) _ example_nets(4-6)]) simp_all

end
