(* ===== verification/Demux_Table.thy ===== *)
theory Demux_Table
  imports Net_Prefix "HOL-Library.Multiset"
begin

text \<open>
  The route table of the demultiplexer (\<^verbatim>\<open>pkg/demux/route_table.go\<close>), which chooses the tunnel of a
  packet. Tunnels are named by numbers. \<^verbatim>\<open>slices.SortFunc\<close> does not promise to be stable, so it is an
  argument that is only known to sort; \<^verbatim>\<open>net.ParseCIDR\<close> is an argument as well.
\<close>

record tunnelRoute =
  tr_network :: IPNet
  tr_tunnel :: nat

record routeTable =
  rt_routes :: "tunnelRoute list"
  rt_defaultTunnel :: "nat option"

definition newRouteTable :: routeTable where
  "newRouteTable = \<lparr>rt_routes = [], rt_defaultTunnel = None\<rparr>"

definition OnesCount8 :: "byte \<Rightarrow> nat" where
  "OnesCount8 b = length (filter id (byte_bits b))"

definition prefixLen :: "bytes \<Rightarrow> int" where
  "prefixLen ipMask = foldl (\<lambda>n b. n + int (OnesCount8 b)) 0 ipMask"

type_synonym sorter = "(tunnelRoute \<Rightarrow> tunnelRoute \<Rightarrow> int) \<Rightarrow> tunnelRoute list \<Rightarrow> tunnelRoute list"

definition addRoutes :: "sorter \<Rightarrow> (string \<Rightarrow> IPNet option) \<Rightarrow> nat \<Rightarrow> string list \<Rightarrow> routeTable \<Rightarrow> routeTable" where
  "addRoutes SortFunc ParseCIDR ta routes rt =
     rt\<lparr>rt_routes := SortFunc (\<lambda>a b. prefixLen (net_Mask (tr_network b)) - prefixLen (net_Mask (tr_network a)))
       (foldl (\<lambda>rs d. case ParseCIDR d of None \<Rightarrow> rs | Some ipNet \<Rightarrow> rs @ [\<lparr>tr_network = ipNet, tr_tunnel = ta\<rparr>])
          (rt_routes rt) routes)\<rparr>"

definition removeRoutes :: "nat \<Rightarrow> routeTable \<Rightarrow> routeTable" where
  "removeRoutes ta rt =
     \<lparr>rt_routes = filter (\<lambda>r. tr_tunnel r \<noteq> ta) (rt_routes rt),
      rt_defaultTunnel = (if rt_defaultTunnel rt = Some ta then None else rt_defaultTunnel rt)\<rparr>"

definition setDefault :: "nat option \<Rightarrow> routeTable \<Rightarrow> routeTable" where
  "setDefault ta rt = rt\<lparr>rt_defaultTunnel := ta\<rparr>"

fun first_match :: "ip \<Rightarrow> tunnelRoute list \<Rightarrow> nat option" where
  "first_match dst [] = None"
| "first_match dst (r # rs) = (if IPNet_Contains (tr_network r) dst then Some (tr_tunnel r) else first_match dst rs)"

definition tunnel_lookup :: "ip \<Rightarrow> routeTable \<Rightarrow> nat option" where
  "tunnel_lookup dst rt = (case first_match dst (rt_routes rt) of Some t \<Rightarrow> Some t | None \<Rightarrow> rt_defaultTunnel rt)"

datatype table_op = AddRoutes nat "string list" | RemoveRoutes nat | SetDefault "nat option"

fun table_do :: "sorter \<Rightarrow> (string \<Rightarrow> IPNet option) \<Rightarrow> table_op \<Rightarrow> routeTable \<Rightarrow> routeTable" where
  "table_do SortFunc ParseCIDR (AddRoutes ta ds) = addRoutes SortFunc ParseCIDR ta ds"
| "table_do SortFunc ParseCIDR (RemoveRoutes ta) = removeRoutes ta"
| "table_do SortFunc ParseCIDR (SetDefault ta) = setDefault ta"

section \<open>Longest prefix first\<close>

text \<open>On the masks that \<^verbatim>\<open>ParseCIDR\<close> makes, the number of ones is the length of the prefix.\<close>

lemma prefixLen_ones: "prefixLen m = int (length (filter id (mask_bits m)))"
proof -
  have "foldl (\<lambda>n b. n + int (OnesCount8 b)) k m = k + int (length (filter id (mask_bits m)))" for k
    by (induction m arbitrary: k) (simp_all add: mask_bits_def OnesCount8_def)
  then show ?thesis by (simp add: prefixLen_def)
qed

lemma prefixLen_canonical:
  assumes "Mask_Size m = (n, w)" "0 < w"
  shows "prefixLen m = int n"
  by (simp add: prefixLen_ones Mask_Size_bits(1) [OF assms])

text \<open>What a sort by a comparison function promises.\<close>

definition sort_ok :: "sorter \<Rightarrow> bool" where
  "sort_ok SortFunc \<longleftrightarrow> (\<forall>cmp xs. mset (SortFunc cmp xs) = mset xs \<and>
     ((\<forall>a b c. cmp a b \<le> 0 \<longrightarrow> cmp b c \<le> 0 \<longrightarrow> cmp a c \<le> 0) \<longrightarrow>
      (\<forall>a b. cmp a b \<le> 0 \<or> cmp b a \<le> 0) \<longrightarrow> sorted_wrt (\<lambda>a b. cmp a b \<le> 0) (SortFunc cmp xs)))"

text \<open>The specification: the routes of the tunnels that are there, and the tunnel for the rest.\<close>

fun table_spec :: "(string \<Rightarrow> IPNet option) \<Rightarrow> table_op \<Rightarrow> tunnelRoute multiset \<times> nat option \<Rightarrow> tunnelRoute multiset \<times> nat option" where
  "table_spec ParseCIDR (AddRoutes ta ds) (live, dflt) =
     (live + mset (map (\<lambda>n. \<lparr>tr_network = n, tr_tunnel = ta\<rparr>) (List.map_filter ParseCIDR ds)), dflt)"
| "table_spec ParseCIDR (RemoveRoutes ta) (live, dflt) =
     (filter_mset (\<lambda>r. tr_tunnel r \<noteq> ta) live, if dflt = Some ta then None else dflt)"
| "table_spec ParseCIDR (SetDefault ta) (live, dflt) = (live, ta)"

definition longer :: "tunnelRoute \<Rightarrow> tunnelRoute \<Rightarrow> bool" where
  "longer a b \<longleftrightarrow> prefixLen (net_Mask (tr_network b)) \<le> prefixLen (net_Mask (tr_network a))"

lemma append_parsed:
  "foldl (\<lambda>rs d. case f d of None \<Rightarrow> rs | Some n \<Rightarrow> rs @ [g n]) rs ds = rs @ map g (List.map_filter f ds)"
  by (induction ds arbitrary: rs) (simp_all add: map_filter_simps split: option.splits)

lemma table_do_spec:
  assumes "sort_ok SortFunc" "mset (rt_routes rt) = live" "sorted_wrt longer (rt_routes rt)" "rt_defaultTunnel rt = dflt"
  shows "(mset (rt_routes (table_do SortFunc ParseCIDR e rt)), rt_defaultTunnel (table_do SortFunc ParseCIDR e rt)) =
      table_spec ParseCIDR e (live, dflt) \<and> sorted_wrt longer (rt_routes (table_do SortFunc ParseCIDR e rt))"
proof (cases e)
  case (AddRoutes ta ds)
  let ?cmp = "\<lambda>a b. prefixLen (net_Mask (tr_network b)) - prefixLen (net_Mask (tr_network a))"
  have "mset (SortFunc ?cmp xs) = mset xs" "sorted_wrt longer (SortFunc ?cmp xs)" for xs
    using assms(1) [unfolded sort_ok_def, rule_format, of ?cmp xs] by (auto simp: longer_def [abs_def])
  then show ?thesis using assms AddRoutes by (simp add: addRoutes_def append_parsed)
qed (use assms in \<open>simp_all add: removeRoutes_def setDefault_def sorted_wrt_filter\<close>)

lemma table_history:
  assumes "sort_ok SortFunc" "sorted_wrt longer (rt_routes rt)"
  shows "(mset (rt_routes (fold (table_do SortFunc ParseCIDR) es rt)), rt_defaultTunnel (fold (table_do SortFunc ParseCIDR) es rt)) =
      fold (table_spec ParseCIDR) es (mset (rt_routes rt), rt_defaultTunnel rt) \<and>
    sorted_wrt longer (rt_routes (fold (table_do SortFunc ParseCIDR) es rt))"
  using assms(2)
proof (induction es arbitrary: rt)
  case (Cons e es)
  let ?rt = "table_do SortFunc ParseCIDR e rt"
  from table_do_spec [OF assms(1) refl Cons.prems refl, of ParseCIDR e]
  have "(mset (rt_routes ?rt), rt_defaultTunnel ?rt) = table_spec ParseCIDR e (mset (rt_routes rt), rt_defaultTunnel rt)"
    "sorted_wrt longer (rt_routes ?rt)" by auto
  with Cons.IH [of ?rt] show ?case by simp
qed simp

lemma first_match_best:
  assumes "sorted_wrt longer rs"
  shows "(\<exists>r \<in> set rs. IPNet_Contains (tr_network r) dst \<and> first_match dst rs = Some (tr_tunnel r) \<and>
      (\<forall>q \<in> set rs. IPNet_Contains (tr_network q) dst \<longrightarrow> longer r q)) \<or>
    (\<forall>r \<in> set rs. \<not> IPNet_Contains (tr_network r) dst) \<and> first_match dst rs = None"
  using assms by (induction rs) (auto simp: longer_def)


text \<open>An insertion sort is such a sort.\<close>

fun insert_by :: "(tunnelRoute \<Rightarrow> tunnelRoute \<Rightarrow> int) \<Rightarrow> tunnelRoute \<Rightarrow> tunnelRoute list \<Rightarrow> tunnelRoute list" where
  "insert_by cmp x [] = [x]"
| "insert_by cmp x (y # ys) = (if cmp x y \<le> 0 then x # y # ys else y # insert_by cmp x ys)"

definition insertion_sort :: sorter where
  "insertion_sort cmp xs = foldr (insert_by cmp) xs []"

lemma mset_insert_by [simp]: "mset (insert_by cmp x ys) = add_mset x (mset ys)"
  by (induction ys) auto

lemma set_insert_by [simp]: "set (insert_by cmp x ys) = insert x (set ys)"
  by (metis mset_insert_by set_mset_add_mset_insert set_mset_mset)

lemma sorted_insert_by:
  assumes "\<forall>a b c. cmp a b \<le> 0 \<longrightarrow> cmp b c \<le> 0 \<longrightarrow> cmp a c \<le> 0" "\<forall>a b. cmp a b \<le> 0 \<or> cmp b a \<le> 0"
  shows "sorted_wrt (\<lambda>a b. cmp a b \<le> 0) ys \<Longrightarrow> sorted_wrt (\<lambda>a b. cmp a b \<le> 0) (insert_by cmp x ys)"
  using assms by (induction ys) auto

lemma insertion_sort_ok: "sort_ok insertion_sort"
proof -
  have "mset (foldr (insert_by cmp) xs []) = mset xs" for cmp xs by (induction xs) simp_all
  moreover have "sorted_wrt (\<lambda>a b. cmp a b \<le> 0) (foldr (insert_by cmp) xs [])"
    if "\<forall>a b c. cmp a b \<le> 0 \<longrightarrow> cmp b c \<le> 0 \<longrightarrow> cmp a c \<le> 0" "\<forall>a b. cmp a b \<le> 0 \<or> cmp b a \<le> 0" for cmp xs
    by (induction xs) (simp_all add: sorted_insert_by [OF that])
  ultimately show ?thesis by (simp add: sort_ok_def insertion_sort_def)
qed

definition example_cidr :: "string \<Rightarrow> IPNet option" where
  "example_cidr d =
     (if d = ''0.0.0.0/0'' then Some \<lparr>net_IP = [0, 0, 0, 0], net_Mask = [0, 0, 0, 0]\<rparr>
      else if d = ''10.0.0.0/24'' then Some \<lparr>net_IP = [10, 0, 0, 0], net_Mask = [255, 255, 255, 0]\<rparr>
      else if d = ''10.0.0.0/29'' then Some \<lparr>net_IP = [10, 0, 0, 0], net_Mask = [255, 255, 255, 248]\<rparr>
      else None)"


end
