(* ===== verification/Demux_Io.thy ===== *)
theory Demux_Io
  imports Demux_Table Net_Packet
begin

text \<open>
  The demultiplexer (\<^verbatim>\<open>pkg/demux/demux.go\<close>, \<^verbatim>\<open>io.go\<close>, \<^verbatim>\<open>adapter.go\<close>): several tunnels share one TUN device. Packets
  from the device go to the queue of the tunnel that the route table names; packets of all
  tunnels go to the device through one queue. A step is one round of a goroutine or one call.
  Buffers are named by numbers; \<open>dx_got\<close> lists those that came in from the pool or a client, \<open>dx_put\<close>
  those that went back to the pool and \<open>dx_taken\<close> those that went to a client.
\<close>

text \<open>A packet of an unknown IP version is a nil interface (\<open>None\<close>) behind its buffer.\<close>

type_synonym queued = "nat \<times> IPPacket option"

definition DefaultQueueSize :: nat where "DefaultQueueSize = 256"
definition demuxQueueSize :: nat where "demuxQueueSize = 1024"

record Adapter =
  ta_outqueue :: "queued list"
  ta_size :: nat
  ta_done :: bool

record Demux =
  dx_inbound :: "queued list"
  dx_outbound :: "queued list"
  dx_routeTable :: routeTable
  dx_adapters :: "Adapter list"
  dx_got :: "nat list"
  dx_put :: "nat list"
  dx_taken :: "nat list"
  dx_written :: "bytes list"

definition NewDemux :: Demux where
  "NewDemux = \<lparr>dx_inbound = [], dx_outbound = [], dx_routeTable = newRouteTable, dx_adapters = [],
     dx_got = [], dx_put = [], dx_taken = [], dx_written = []\<rparr>"

definition NewAdapter :: "int \<Rightarrow> Demux \<Rightarrow> Demux" where
  "NewAdapter queueSize d = d\<lparr>dx_adapters := dx_adapters d @
     [\<lparr>ta_outqueue = [], ta_size = (if queueSize \<le> 0 then DefaultQueueSize else nat queueSize), ta_done = False\<rparr>]\<rparr>"

definition get_buffer :: "nat \<Rightarrow> Demux \<Rightarrow> Demux" where
  "get_buffer b d = d\<lparr>dx_got := b # dx_got d\<rparr>"

definition put_buffer :: "nat \<Rightarrow> Demux \<Rightarrow> Demux" where
  "put_buffer b d = d\<lparr>dx_put := b # dx_put d\<rparr>"

text \<open>One round of \<^verbatim>\<open>readFromAdapter\<close>; \<open>r\<close> is the buffer after the read, \<open>None\<close> when reading failed.\<close>

definition readFromAdapter :: "nat \<Rightarrow> bytes option \<Rightarrow> Demux \<Rightarrow> Demux result" where
  "readFromAdapter b r d0 =
     (let d = get_buffer b d0
      in case r of
           None \<Rightarrow> Inr (put_buffer b d)
         | Some buf \<Rightarrow>
             rbind (IPv4_Version buf) (\<lambda>v.
               let pkt = (if v = 4 then Some (IPv4Packet buf) else if v = 6 then Some (IPv6Packet buf) else None)
               in if length (dx_outbound d) < demuxQueueSize then Inr (d\<lparr>dx_outbound := dx_outbound d @ [(b, pkt)]\<rparr>)
                  else (case pkt of None \<Rightarrow> Inl Panic | Some _ \<Rightarrow> Inr (put_buffer b d))))"

text \<open>One round of \<^verbatim>\<open>readFromOutbound\<close>; it waits when the queue is empty.\<close>

definition enqueue_out :: "nat \<Rightarrow> queued \<Rightarrow> Demux \<Rightarrow> Demux" where
  "enqueue_out t q d =
     (let a = dx_adapters d ! t
      in if length (ta_outqueue a) < ta_size a
         then d\<lparr>dx_adapters := (dx_adapters d)[t := a\<lparr>ta_outqueue := ta_outqueue a @ [q]\<rparr>]\<rparr>
         else put_buffer (fst q) d)"

definition readFromOutbound :: "Demux \<Rightarrow> Demux result" where
  "readFromOutbound d0 =
     (case dx_outbound d0 of
        [] \<Rightarrow> Inr d0
      | (b, None) # rest \<Rightarrow> Inl Panic
      | (b, Some pkt) # rest \<Rightarrow>
          let d = d0\<lparr>dx_outbound := rest\<rparr>
          in rbind (DestinationIP pkt) (\<lambda>dst.
               case tunnel_lookup dst (dx_routeTable d) of
                 None \<Rightarrow> Inr (put_buffer b d)
               | Some t \<Rightarrow> Inr (enqueue_out t (b, Some pkt) d)))"

text \<open>One round of \<^verbatim>\<open>writeToAdapter\<close>.\<close>

definition packet_bytes :: "IPPacket \<Rightarrow> bytes result" where
  "packet_bytes pkt = rbind (TotalLength pkt) (slice (Packet_Bytes pkt) 0)"

definition writeToAdapter :: "Demux \<Rightarrow> Demux result" where
  "writeToAdapter d =
     (case dx_inbound d of
        [] \<Rightarrow> Inr d
      | (b, None) # rest \<Rightarrow> Inl Panic
      | (b, Some pkt) # rest \<Rightarrow>
          rbind (packet_bytes pkt) (\<lambda>bs.
            Inr (put_buffer b (d\<lparr>dx_inbound := rest, dx_written := dx_written d @ [bs]\<rparr>))))"

text \<open>
  \<^verbatim>\<open>Write\<close> of a tunnel's adapter: \<open>buf\<close> is the buffer \<open>b\<close> of the pool. The packet is always given the type
  of an IPv4 packet.
\<close>

definition Adapter_Write :: "nat \<Rightarrow> bytes \<Rightarrow> nat \<Rightarrow> bytes \<Rightarrow> Demux \<Rightarrow> Demux \<times> nat result" where
  "Adapter_Write t bs b buf d0 =
     (if ta_done (dx_adapters d0 ! t) then (d0, Inl (Err ''adapter closed''))
      else let d = get_buffer b d0; pkt = IPv4Packet (splice buf 0 bs)
      in if length (dx_inbound d) < demuxQueueSize
         then (d\<lparr>dx_inbound := dx_inbound d @ [(b, Some pkt)]\<rparr>, Inr (length bs))
         else (put_buffer b d, Inl (Err ''demux outbound channel full, dropping packet'')))"

text \<open>
  \<^verbatim>\<open>Read\<close> into a slice of length \<open>n\<close>; the select takes either branch when the adapter is closed and its
  queue is not empty. The answer \<open>None\<close> means that the call waits.
\<close>

definition Adapter_Read :: "nat \<Rightarrow> nat \<Rightarrow> bool \<Rightarrow> Demux \<Rightarrow> (Demux \<times> bytes result option) result" where
  "Adapter_Read t n pick d =
     (let a = dx_adapters d ! t
      in if ta_done a \<and> (pick \<or> ta_outqueue a = []) then Inr (d, Some (Inl (Err ''adapter closed'')))
         else case ta_outqueue a of
                [] \<Rightarrow> Inr (d, None)
              | (b, None) # rest \<Rightarrow> Inl Panic
              | (b, Some pkt) # rest \<Rightarrow>
                  rbind (packet_bytes pkt) (\<lambda>bs.
                    Inr (put_buffer b (d\<lparr>dx_adapters := (dx_adapters d)[t := a\<lparr>ta_outqueue := rest\<rparr>]\<rparr>),
                         Some (Inr (take n bs)))))"

definition Adapter_Close :: "nat \<Rightarrow> Demux \<Rightarrow> Demux" where
  "Adapter_Close t d = d\<lparr>dx_adapters := (dx_adapters d)[t := (dx_adapters d ! t)\<lparr>ta_done := True\<rparr>]\<rparr>"

text \<open>
  The client at an adapter uses the queues themselves (\<^verbatim>\<open>pkg/client/adapter.go\<close>). It takes a packet, which
  is returned to the pool when its own queue refuses it (\<open>dropped\<close>), and hands packets to the device.
\<close>

definition readFromAdapterOutQueue :: "nat \<Rightarrow> bool \<Rightarrow> Demux \<Rightarrow> Demux result" where
  "readFromAdapterOutQueue t dropped d0 =
     (let a = dx_adapters d0 ! t
      in case ta_outqueue a of
           [] \<Rightarrow> Inr d0
         | (b, p) # rest \<Rightarrow>
             let d = d0\<lparr>dx_adapters := (dx_adapters d0)[t := a\<lparr>ta_outqueue := rest\<rparr>]\<rparr>
             in if \<not> dropped then Inr (d\<lparr>dx_taken := b # dx_taken d\<rparr>)
                else case p of
                       None \<Rightarrow> Inl Panic
                     | Some pkt \<Rightarrow> rbind (TotalLength pkt) (\<lambda>_. Inr (put_buffer b d)))"

definition writeToAdapterInQueue :: "nat \<Rightarrow> IPPacket \<Rightarrow> Demux \<Rightarrow> Demux" where
  "writeToAdapterInQueue b pkt d0 =
     (let d = get_buffer b d0
      in if length (dx_inbound d) < demuxQueueSize then d\<lparr>dx_inbound := dx_inbound d @ [(b, Some pkt)]\<rparr>
         else put_buffer b d)"

text \<open>Events name adapters that exist; an event for another one does not happen.\<close>

datatype demux_event =
    DNew int | DRoutes table_op | DDeviceRead nat "bytes option" | DDispatch | DDeviceWrite
  | DWrite nat bytes nat bytes | DRead nat nat bool | DClose nat | DTake nat bool | DGive nat IPPacket

fun route_target :: "table_op \<Rightarrow> nat option" where
  "route_target (AddRoutes t _) = Some t"
| "route_target (RemoveRoutes t) = Some t"
| "route_target (SetDefault t) = t"

fun demux_do :: "sorter \<Rightarrow> (string \<Rightarrow> IPNet option) \<Rightarrow> demux_event \<Rightarrow> Demux \<Rightarrow> Demux result" where
  "demux_do SF PC (DNew n) d = Inr (NewAdapter n d)"
| "demux_do SF PC (DRoutes e) d =
     (if (case route_target e of None \<Rightarrow> True | Some t \<Rightarrow> t < length (dx_adapters d))
      then Inr (d\<lparr>dx_routeTable := table_do SF PC e (dx_routeTable d)\<rparr>) else Inr d)"
| "demux_do SF PC (DDeviceRead b r) d = readFromAdapter b r d"
| "demux_do SF PC DDispatch d = readFromOutbound d"
| "demux_do SF PC DDeviceWrite d = writeToAdapter d"
| "demux_do SF PC (DWrite t bs b buf) d = (if t < length (dx_adapters d) then Inr (fst (Adapter_Write t bs b buf d)) else Inr d)"
| "demux_do SF PC (DRead t n pick) d =
     (if t < length (dx_adapters d) then rbind (Adapter_Read t n pick d) (\<lambda>(d', _). Inr d') else Inr d)"
| "demux_do SF PC (DClose t) d = (if t < length (dx_adapters d) then Inr (Adapter_Close t d) else Inr d)"
| "demux_do SF PC (DTake t dropped) d = (if t < length (dx_adapters d) then readFromAdapterOutQueue t dropped d else Inr d)"
| "demux_do SF PC (DGive b pkt) d = Inr (writeToAdapterInQueue b pkt d)"

fun demux_run :: "sorter \<Rightarrow> (string \<Rightarrow> IPNet option) \<Rightarrow> demux_event list \<Rightarrow> Demux \<Rightarrow> Demux result" where
  "demux_run SF PC [] d = Inr d"
| "demux_run SF PC (e # es) d = rbind (demux_do SF PC e d) (demux_run SF PC es)"

section \<open>Buffers are conserved\<close>

definition ids :: "queued list \<Rightarrow> nat multiset" where
  "ids q = mset (map fst q)"

definition outqueue_ids :: "Adapter list \<Rightarrow> nat multiset" where
  "outqueue_ids as = sum_list (map (\<lambda>a. ids (ta_outqueue a)) as)"

definition rt_targets :: "nat \<Rightarrow> routeTable \<Rightarrow> bool" where
  "rt_targets n rt \<longleftrightarrow> (\<forall>r \<in> set (rt_routes rt). tr_tunnel r < n) \<and> (\<forall>t. rt_defaultTunnel rt = Some t \<longrightarrow> t < n)"

definition conserved :: "Demux \<Rightarrow> bool" where
  "conserved d \<longleftrightarrow> mset (dx_got d) = mset (dx_put d) + mset (dx_taken d) + ids (dx_inbound d) + ids (dx_outbound d) +
     outqueue_ids (dx_adapters d)"

definition queues_bounded :: "Adapter list \<Rightarrow> bool" where
  "queues_bounded as \<longleftrightarrow> (\<forall>a \<in> set as. length (ta_outqueue a) \<le> ta_size a)"

definition demux_inv :: "Demux \<Rightarrow> bool" where
  "demux_inv d \<longleftrightarrow> conserved d \<and>
     length (dx_inbound d) \<le> demuxQueueSize \<and> length (dx_outbound d) \<le> demuxQueueSize \<and>
     queues_bounded (dx_adapters d) \<and> rt_targets (length (dx_adapters d)) (dx_routeTable d)"

lemma ids_simps [simp]: "ids [] = {#}" "ids (q # qs) = add_mset (fst q) (ids qs)" "ids (qs @ rs) = ids qs + ids rs"
  by (simp_all add: ids_def)

lemma outqueue_ids_update:
  assumes "t < length as"
  shows "outqueue_ids (as[t := a]) + ids (ta_outqueue (as ! t)) = outqueue_ids as + ids (ta_outqueue a)"
  using assms by (induction as arbitrary: t) (auto simp: outqueue_ids_def nth_Cons ac_simps split: nat.split)

lemma outqueue_push:
  "t < length as \<Longrightarrow> outqueue_ids (as[t := (as ! t)\<lparr>ta_outqueue := ta_outqueue (as ! t) @ [q]\<rparr>]) = add_mset (fst q) (outqueue_ids as)"
  using outqueue_ids_update [of t as "(as ! t)\<lparr>ta_outqueue := ta_outqueue (as ! t) @ [q]\<rparr>"] by simp

lemma outqueue_pop:
  "t < length as \<Longrightarrow> ta_outqueue (as ! t) = q # rest \<Longrightarrow>
   add_mset (fst q) (outqueue_ids (as[t := (as ! t)\<lparr>ta_outqueue := rest\<rparr>])) = outqueue_ids as"
  using outqueue_ids_update [of t as "(as ! t)\<lparr>ta_outqueue := rest\<rparr>"] by simp

lemma outqueue_close: "t < length as \<Longrightarrow> outqueue_ids (as[t := (as ! t)\<lparr>ta_done := True\<rparr>]) = outqueue_ids as"
  using outqueue_ids_update [of t as "(as ! t)\<lparr>ta_done := True\<rparr>"] by simp

lemma queues_bounded_update:
  "queues_bounded as \<Longrightarrow> length (ta_outqueue b) \<le> ta_size b \<Longrightarrow> queues_bounded (as[t := b])"
  unfolding queues_bounded_def using set_update_subset_insert [of as t b] by blast

lemma queues_bounded_nth: "queues_bounded as \<Longrightarrow> t < length as \<Longrightarrow> length (ta_outqueue (as ! t)) \<le> ta_size (as ! t)"
  by (simp add: queues_bounded_def)

lemma NewDemux_inv: "demux_inv NewDemux"
  by (simp add: demux_inv_def conserved_def NewDemux_def outqueue_ids_def rt_targets_def newRouteTable_def queues_bounded_def)

lemma tunnel_lookup_target: "rt_targets n rt \<Longrightarrow> tunnel_lookup dst rt = Some t \<Longrightarrow> t < n"
proof -
  have "first_match dst rs = Some t \<Longrightarrow> \<exists>r \<in> set rs. tr_tunnel r = t" for rs
    by (induction rs) (auto split: if_splits)
  then show "rt_targets n rt \<Longrightarrow> tunnel_lookup dst rt = Some t \<Longrightarrow> t < n"
    by (auto simp: rt_targets_def tunnel_lookup_def split: option.splits)
qed

lemma rt_targets_do:
  assumes "sort_ok SF" "rt_targets n rt" "case route_target e of None \<Rightarrow> True | Some t \<Rightarrow> t < n"
  shows "rt_targets n (table_do SF PC e rt)"
proof (cases e)
  case (AddRoutes t ds)
  have "set (SF cmp xs) = set xs" for cmp xs
    using assms(1) by (metis sort_ok_def set_mset_mset)
  then show ?thesis using assms(2,3) AddRoutes by (auto simp: rt_targets_def addRoutes_def append_parsed)
qed (use assms in \<open>auto simp: rt_targets_def removeRoutes_def setDefault_def\<close>)

lemmas demux_defs = get_buffer_def put_buffer_def demux_inv_def conserved_def

lemma readFromAdapter_inv:
  assumes "demux_inv d" "readFromAdapter b r d = Inr d'"
  shows "demux_inv d'"
  using assms by (cases "hd (the r)" ; auto simp: readFromAdapter_def demux_defs Let_def rbind_def split: option.splits if_splits sum.splits)

lemma enqueue_out_inv:
  assumes "demux_inv d" "dx_outbound d = q # rest" "t < length (dx_adapters d)"
  shows "demux_inv (enqueue_out t q (d\<lparr>dx_outbound := rest\<rparr>))"
  using assms by (auto simp: enqueue_out_def demux_defs Let_def outqueue_push intro!: queues_bounded_update)

lemma readFromOutbound_inv:
  assumes "demux_inv d" "readFromOutbound d = Inr d'"
  shows "demux_inv d'"
proof (cases "dx_outbound d")
  case (Cons q rest)
  obtain b pkt where q: "q = (b, Some pkt)" using assms(2) Cons by (cases q; cases "snd q") (auto simp: readFromOutbound_def)
  from assms(2) Cons q obtain dst where dst: "DestinationIP pkt = Inr dst"
    by (cases "DestinationIP pkt") (auto simp: readFromOutbound_def)
  show ?thesis
  proof (cases "tunnel_lookup dst (dx_routeTable d)")
    case None
    then show ?thesis using assms Cons q dst by (auto simp: readFromOutbound_def demux_defs)
  next
    case (Some t)
    then have "d' = enqueue_out t q (d\<lparr>dx_outbound := rest\<rparr>)" using assms(2) Cons q dst by (simp add: readFromOutbound_def)
    then show ?thesis using enqueue_out_inv [OF assms(1) Cons] tunnel_lookup_target [OF _ Some] assms(1) by (simp add: demux_inv_def)
  qed
qed (use assms in \<open>simp add: readFromOutbound_def\<close>)

lemma writeToAdapter_inv:
  assumes "demux_inv d" "writeToAdapter d = Inr d'"
  shows "demux_inv d'"
  using assms by (auto simp: writeToAdapter_def demux_defs rbind_def split: list.splits option.splits sum.splits)

text \<open>An item that leaves the queue of an adapter goes back to the pool or to the client.\<close>

lemma pop_inv:
  assumes "demux_inv d" "t < length (dx_adapters d)" "ta_outqueue (dx_adapters d ! t) = q # rest"
    "dd = d\<lparr>dx_adapters := (dx_adapters d)[t := (dx_adapters d ! t)\<lparr>ta_outqueue := rest\<rparr>]\<rparr>"
  shows "demux_inv (put_buffer (fst q) dd)" "demux_inv (dd\<lparr>dx_taken := fst q # dx_taken dd\<rparr>)"
proof -
  let ?as = "(dx_adapters d)[t := (dx_adapters d ! t)\<lparr>ta_outqueue := rest\<rparr>]"
  have "queues_bounded ?as"
    using assms(1-3) queues_bounded_nth [of "dx_adapters d" t] by (intro queues_bounded_update) (auto simp: demux_inv_def)
  moreover have "outqueue_ids (dx_adapters d) = add_mset (fst q) (outqueue_ids ?as)" using outqueue_pop [OF assms(2,3)] by simp
  ultimately show "demux_inv (put_buffer (fst q) dd)" "demux_inv (dd\<lparr>dx_taken := fst q # dx_taken dd\<rparr>)"
    using assms(1) unfolding assms(4) by (simp_all add: demux_defs)
qed

lemma Adapter_Read_inv:
  assumes "demux_inv d" "t < length (dx_adapters d)" "Adapter_Read t n pick d = Inr (d', r)"
  shows "demux_inv d'"
proof (cases "ta_outqueue (dx_adapters d ! t)")
  case (Cons q rest)
  then show ?thesis
    using pop_inv(1) [OF assms(1,2) Cons refl] assms(1,3)
    by (cases q; cases "snd q") (auto simp: Adapter_Read_def Let_def rbind_def split: if_splits sum.splits)
qed (use assms in \<open>auto simp: Adapter_Read_def Let_def split: if_splits\<close>)

lemma readFromAdapterOutQueue_inv:
  assumes "demux_inv d" "t < length (dx_adapters d)" "readFromAdapterOutQueue t dropped d = Inr d'"
  shows "demux_inv d'"
proof (cases "ta_outqueue (dx_adapters d ! t)")
  case (Cons q rest)
  then show ?thesis
    using pop_inv [OF assms(1,2) Cons refl] assms(3)
    by (cases q; cases "snd q") (auto simp: readFromAdapterOutQueue_def Let_def rbind_def split: if_splits sum.splits)
qed (use assms in \<open>auto simp: readFromAdapterOutQueue_def Let_def\<close>)

lemma NewAdapter_inv: "demux_inv d \<Longrightarrow> demux_inv (NewAdapter n d)"
  by (auto simp: NewAdapter_def demux_defs outqueue_ids_def queues_bounded_def rt_targets_def less_SucI)

lemma Adapter_Write_inv: "demux_inv d \<Longrightarrow> demux_inv (fst (Adapter_Write t bs b buf d))"
  by (auto simp: Adapter_Write_def demux_defs Let_def)

lemma writeToAdapterInQueue_inv: "demux_inv d \<Longrightarrow> demux_inv (writeToAdapterInQueue b pkt d)"
  by (auto simp: writeToAdapterInQueue_def demux_defs Let_def)

lemma Adapter_Close_inv: "demux_inv d \<Longrightarrow> t < length (dx_adapters d) \<Longrightarrow> demux_inv (Adapter_Close t d)"
  by (auto simp: Adapter_Close_def demux_defs outqueue_close queues_bounded_nth intro!: queues_bounded_update)

lemma demux_do_inv:
  assumes "sort_ok SF" "demux_inv d" "demux_do SF PC e d = Inr d'"
  shows "demux_inv d'"
proof (cases e)
  case (DRoutes op)
  then show ?thesis
    using assms rt_targets_do [OF assms(1), of _ _ op PC] by (auto simp: demux_inv_def conserved_def split: if_splits)
next
  case (DRead t n pick)
  then show ?thesis using assms Adapter_Read_inv by (auto simp: rbind_def split: if_splits sum.splits)
qed (use assms in \<open>auto split: if_splits intro: NewAdapter_inv Adapter_Write_inv writeToAdapterInQueue_inv Adapter_Close_inv
  readFromAdapter_inv readFromOutbound_inv writeToAdapter_inv readFromAdapterOutQueue_inv\<close>)

text \<open>
  C17. However packets arrive, tunnels are created, closed and read, and routes change, no buffer is lost
  and none is returned twice while the demultiplexer runs: the buffers that came in are those in
  its queues and those that went to the pool or to a client, each counted as often; and no queue
  exceeds its size.
\<close>

theorem demux_conserves_buffers:
  assumes "sort_ok SF" "demux_run SF PC es NewDemux = Inr d"
  shows "mset (dx_got d) = mset (dx_put d) + mset (dx_taken d) + ids (dx_inbound d) + ids (dx_outbound d) + outqueue_ids (dx_adapters d) \<and>
    length (dx_inbound d) \<le> demuxQueueSize \<and> length (dx_outbound d) \<le> demuxQueueSize \<and>
    (\<forall>a \<in> set (dx_adapters d). length (ta_outqueue a) \<le> ta_size a)"
proof -
  have "demux_inv s \<Longrightarrow> demux_run SF PC es s = Inr d \<Longrightarrow> demux_inv d" for s
    by (induction es arbitrary: s) (auto simp: rbind_def split: sum.splits dest: demux_do_inv [OF assms(1)])
  from this [OF NewDemux_inv assms(2)] show ?thesis by (auto simp: demux_inv_def conserved_def queues_bounded_def)
qed

definition example_events :: "demux_event list" where
  "example_events = [DNew 0, DRoutes (SetDefault (Some 0)), DDeviceRead 7 (Some (0x45 # replicate 19 0)), DDispatch,
     DDeviceRead 8 None, DTake 0 False]"

theorem demux_conserves_buffers_witness:
  "\<exists>d. demux_run insertion_sort example_cidr example_events NewDemux = Inr d \<and> dx_got d = [8, 7] \<and>
    mset (dx_got d) = mset (dx_put d) + mset (dx_taken d) + ids (dx_inbound d) + ids (dx_outbound d) + outqueue_ids (dx_adapters d)"
proof -
  have "(case demux_run insertion_sort example_cidr example_events NewDemux of Inl _ \<Rightarrow> False | Inr d \<Rightarrow> dx_got d = [8, 7])"
    by code_simp
  then obtain d where "demux_run insertion_sort example_cidr example_events NewDemux = Inr d" "dx_got d = [8, 7]"
    by (auto split: sum.splits)
  with demux_conserves_buffers [OF insertion_sort_ok, of example_cidr example_events d] show ?thesis by blast
qed

section \<open>The way of a packet\<close>

text \<open>A packet that is read from the device while the queue is empty is queued at the tunnel the table names, if that has room.\<close>

lemma device_to_tunnel:
  assumes "dx_outbound d = []" "buf \<noteq> []" "unat (drop_bit 4 (hd buf)) = 4" "20 \<le> length buf"
    "tunnel_lookup (take 4 (drop 16 buf)) (dx_routeTable d) = Some t" "length (ta_outqueue (dx_adapters d ! t)) < ta_size (dx_adapters d ! t)"
  shows "rbind (readFromAdapter b (Some buf) d) readFromOutbound = Inr (d\<lparr>dx_got := b # dx_got d,
    dx_adapters := (dx_adapters d)[t := (dx_adapters d ! t)\<lparr>ta_outqueue := ta_outqueue (dx_adapters d ! t) @ [(b, Some (IPv4Packet buf))]\<rparr>]\<rparr>)"
  using assms by (auto simp: readFromAdapter_def readFromOutbound_def enqueue_out_def get_buffer_def Let_def IPv4_Version_def
      IPv4_DestinationIP_def at_def demuxQueueSize_def hd_conv_nth)

text \<open>
  \<^verbatim>\<open>Write\<close> gives every packet the type of an IPv4 packet. Of an IPv6 packet the device then gets as many
  bytes as the low half of the flow label says, and the goroutine panics when this exceeds the
  buffer.
\<close>

lemma ipv6_written_by_flow_label:
  assumes "dx_inbound d = []" "\<not> ta_done (dx_adapters d ! t)" "4 \<le> length bs" "length bs \<le> length buf"
    "Adapter_Write t bs b buf d = (d1, r)" "n = unat (get16 bs 2)"
  shows "r = Inr (length bs)"
    "writeToAdapter d1 = (if n \<le> length buf then Inr (d\<lparr>dx_got := b # dx_got d, dx_put := b # dx_put d,
        dx_written := dx_written d @ [take n (splice buf 0 bs)]\<rparr>) else Inl Panic)"
proof -
  let ?p = "splice buf 0 bs"
  have p: "?p = bs @ drop (length bs) buf" using assms(4) by (simp add: splice_def)
  have len: "length ?p = length buf" by simp
  have "get16 ?p 2 = get16 bs 2" unfolding p using assms(3) by (simp add: be_simps)
  then have n: "IPv4_TotalLength ?p = Inr n" using assms(3,4,6) len by (simp add: IPv4_TotalLength_def)
  have bytes: "packet_bytes (IPv4Packet ?p) = (if n \<le> length buf then Inr (take n ?p) else Inl Panic)"
    by (simp add: packet_bytes_def n slice_def len)
  have d1: "d1 = d\<lparr>dx_got := b # dx_got d, dx_inbound := [(b, Some (IPv4Packet ?p))]\<rparr>" "r = Inr (length bs)"
    using assms(1,2,5) by (auto simp: Adapter_Write_def get_buffer_def demuxQueueSize_def Let_def)
  show "r = Inr (length bs)" by (rule d1(2))
  show "writeToAdapter d1 = (if n \<le> length buf then Inr (d\<lparr>dx_got := b # dx_got d, dx_put := b # dx_put d,
        dx_written := dx_written d @ [take n ?p]\<rparr>) else Inl Panic)"
    using assms(1) by (simp add: writeToAdapter_def d1(1) bytes put_buffer_def)
qed

end
