(* ===== verification/Auth_Claims.thy ===== *)
theory Auth_Claims
  imports Go_Std Complex_Main
begin

text \<open>
  Claim matchers (\<^verbatim>\<open>pkg/auth/oauth/claim_match.go\<close>): the constraints on the claims of a token that a server
  is configured with, and their evaluation. Regular expressions and the formatting of values are
  arguments. The iteration over a Go map has any order: the configuration is a list of its pairs.
\<close>

section \<open>Strings\<close>

text \<open>A string as its runes, each with the bytes it is made of.\<close>

function runes :: "bytes \<Rightarrow> (nat \<times> bytes) list" where
  "runes s = (if s = [] then [] else let w = snd (DecodeRune s) in (fst (DecodeRune s), take w s) # runes (drop w s))"
  by pat_completeness auto

termination runes
proof (relation "measure length", goal_cases)
  case (2 s w)
  then show ?case using DecodeRune_width [of s] by (cases s) auto
qed simp

declare runes.simps [simp del]

definition unrunes :: "(nat \<times> bytes) list \<Rightarrow> bytes" where
  "unrunes rs = concat (map snd rs)"

definition space :: "nat \<times> bytes \<Rightarrow> bool" where
  "space r \<longleftrightarrow> IsSpace (fst r)"

definition TrimSpace :: "bytes \<Rightarrow> bytes" where
  "TrimSpace s = unrunes (rev (dropWhile space (rev (dropWhile space (runes s)))))"

text \<open>The bytes of a literal.\<close>

definition lit :: "string \<Rightarrow> bytes" where
  "lit s = map of_char s"

section \<open>Values and matchers\<close>

text \<open>The dynamic types that the code distinguishes; \<open>OtherV\<close> is any other one.\<close>

datatype any = StringV bytes | StringsV "bytes list" | AnysV "any list" | FloatV real | NilV | OtherV nat

text \<open>\<^verbatim>\<open>fmt.Sprint\<close>, and \<^verbatim>\<open>fmt.Sprintf\<close> with the verbs \<^verbatim>\<open>%.0f\<close> and \<^verbatim>\<open>%g\<close>.\<close>

record formats =
  fm_Sprint :: "any \<Rightarrow> bytes"
  fm_whole :: "real \<Rightarrow> bytes"
  fm_general :: "real \<Rightarrow> bytes"

datatype 're claimMatcher = RegexMatcher 're | ExactMatcher "bytes set"

record 're ClaimRule =
  cr_claim :: bytes
  cr_m :: "'re claimMatcher"

fun Matcher_Match :: "('re \<Rightarrow> bytes \<Rightarrow> bool) \<Rightarrow> 're claimMatcher \<Rightarrow> bytes \<Rightarrow> bool" where
  "Matcher_Match MatchString (RegexMatcher re) v = MatchString re v"
| "Matcher_Match MatchString (ExactMatcher vals) v \<longleftrightarrow> v \<in> vals"

definition newExactMatcher :: "bytes list \<Rightarrow> 're claimMatcher" where
  "newExactMatcher values = ExactMatcher (foldl (\<lambda>m v. insert v m) {} values)"

fun trim_strings :: "bytes list \<Rightarrow> bytes list result" where
  "trim_strings [] = Inr []"
| "trim_strings (s # ss) =
     (if TrimSpace s = [] then Inl (Err ''exact list element is empty'')
      else rbind (trim_strings ss) (\<lambda>out. Inr (TrimSpace s # out)))"

fun trim_anys :: "any list \<Rightarrow> bytes list result" where
  "trim_anys [] = Inr []"
| "trim_anys (x # xs) =
     (case x of
        StringV s \<Rightarrow>
          if TrimSpace s = [] then Inl (Err ''exact list element is empty'')
          else rbind (trim_anys xs) (\<lambda>out. Inr (TrimSpace s # out))
      | _ \<Rightarrow> Inl (Err ''exact list element: want string''))"

definition parseClaimMatcherValue :: "(bytes \<Rightarrow> 're option) \<Rightarrow> any \<Rightarrow> 're claimMatcher result" where
  "parseClaimMatcherValue Compile val =
     (case val of
        StringV v \<Rightarrow>
          let pat = TrimSpace v
          in if pat = [] then Inl (Err ''empty regex pattern'')
             else (case Compile pat of None \<Rightarrow> Inl (Err ''regex'') | Some re \<Rightarrow> Inr (RegexMatcher re))
      | StringsV v \<Rightarrow>
          if v = [] then Inl (Err ''empty exact-value list'') else rbind (trim_strings v) (\<lambda>out. Inr (newExactMatcher out))
      | AnysV v \<Rightarrow>
          if v = [] then Inl (Err ''empty exact-value list'') else rbind (trim_anys v) (\<lambda>out. Inr (newExactMatcher out))
      | _ \<Rightarrow> Inl (Err ''want string (regex) or []string / []any (exact values)''))"

fun ParseClaimMatchers :: "(bytes \<Rightarrow> 're option) \<Rightarrow> (bytes \<times> any) list \<Rightarrow> 're ClaimRule list result" where
  "ParseClaimMatchers Compile [] = Inr []"
| "ParseClaimMatchers Compile ((claim, val) # raw) =
     (if TrimSpace claim = [] then Inl (Err ''oauth: claim_matchers: empty claim name'')
      else rbind (parseClaimMatcherValue Compile val) (\<lambda>m.
        rbind (ParseClaimMatchers Compile raw) (\<lambda>rules. Inr (\<lparr>cr_claim = TrimSpace claim, cr_m = m\<rparr> # rules))))"

text \<open>The comparison with the conversion to \<^verbatim>\<open>int64\<close> holds for the whole numbers in its range.\<close>

definition fmtNumClaim :: "formats \<Rightarrow> real \<Rightarrow> bytes" where
  "fmtNumClaim fm f = (if f = of_int \<lfloor>f\<rfloor> \<and> - (2 ^ 63) \<le> f \<and> f < 2 ^ 63 then fm_whole fm f else fm_general fm f)"

type_synonym MapClaims = "bytes \<rightharpoonup> any"

definition any_string :: "formats \<Rightarrow> any \<Rightarrow> bytes" where
  "any_string fm x = (case x of StringV s \<Rightarrow> s | _ \<Rightarrow> fm_Sprint fm x)"

definition ExtractJWTClaimStrings :: "formats \<Rightarrow> MapClaims \<Rightarrow> bytes \<Rightarrow> bytes list \<times> bool" where
  "ExtractJWTClaimStrings fm claims key =
     (case claims key of
        None \<Rightarrow> ([], False)
      | Some raw \<Rightarrow>
          (case raw of
             StringV v \<Rightarrow> ([v], True)
           | StringsV v \<Rightarrow> (v, True)
           | AnysV v \<Rightarrow> (map (any_string fm) v, True)
           | FloatV v \<Rightarrow> ([fmtNumClaim fm v], True)
           | NilV \<Rightarrow> ([], True)
           | OtherV n \<Rightarrow> ([fm_Sprint fm raw], True)))"

fun valuesMatchRule :: "('re \<Rightarrow> bytes \<Rightarrow> bool) \<Rightarrow> 're claimMatcher \<Rightarrow> bytes list \<Rightarrow> bool" where
  "valuesMatchRule MatchString m [] = False"
| "valuesMatchRule MatchString m (v # candidates) = (if Matcher_Match MatchString m v then True else valuesMatchRule MatchString m candidates)"

text \<open>The source of values may keep a state between the rules, as a cache does.\<close>

fun validateClaimRules :: "('re \<Rightarrow> bytes \<Rightarrow> bool) \<Rightarrow> 're ClaimRule list \<Rightarrow> ('s \<Rightarrow> bytes \<Rightarrow> ('s \<times> bytes list \<times> bool) result) \<Rightarrow> 's \<Rightarrow> unit result" where
  "validateClaimRules MatchString [] resolve s = Inr ()"
| "validateClaimRules MatchString (r # rs) resolve s =
     rbind (resolve s (cr_claim r)) (\<lambda>(s', vals, ok).
       if \<not> ok \<or> vals = [] then Inl (Err ''oauth: invalid token: missing or empty claim'')
       else if \<not> valuesMatchRule MatchString (cr_m r) vals then Inl (Err ''oauth: invalid token: claim rejected by claim_matchers'')
       else validateClaimRules MatchString rs resolve s')"

definition jwt_resolve :: "formats \<Rightarrow> MapClaims \<Rightarrow> unit \<Rightarrow> bytes \<Rightarrow> (unit \<times> bytes list \<times> bool) result" where
  "jwt_resolve fm claims s claim = (let (vals, ok) = ExtractJWTClaimStrings fm claims claim in Inr ((), vals, ok))"

definition ValidateJWTClaimRules :: "('re \<Rightarrow> bytes \<Rightarrow> bool) \<Rightarrow> formats \<Rightarrow> MapClaims \<Rightarrow> 're ClaimRule list \<Rightarrow> unit result" where
  "ValidateJWTClaimRules MatchString fm claims rules = validateClaimRules MatchString rules (jwt_resolve fm claims) ()"

section \<open>What is enforced\<close>

text \<open>The values a configured matcher admits.\<close>

fun admits :: "(bytes \<Rightarrow> 're option) \<Rightarrow> ('re \<Rightarrow> bytes \<Rightarrow> bool) \<Rightarrow> any \<Rightarrow> bytes \<Rightarrow> bool" where
  "admits Compile MatchString (StringV p) x \<longleftrightarrow> (\<exists>re. Compile (TrimSpace p) = Some re \<and> MatchString re x)"
| "admits Compile MatchString (StringsV vs) x \<longleftrightarrow> x \<in> TrimSpace ` set vs"
| "admits Compile MatchString (AnysV vs) x \<longleftrightarrow> (\<exists>s. StringV s \<in> set vs \<and> x = TrimSpace s)"
| "admits Compile MatchString _ x \<longleftrightarrow> False"

lemma newExactMatcher_set: "newExactMatcher vs = ExactMatcher (set vs)"
proof -
  have "foldl (\<lambda>m v. insert v m) A vs = A \<union> set vs" for A by (induction vs arbitrary: A) auto
  then show ?thesis by (simp add: newExactMatcher_def)
qed

lemma trim_strings_set: "trim_strings vs = Inr out \<Longrightarrow> set out = TrimSpace ` set vs"
  by (induction vs arbitrary: out) (auto simp: rbind_def split: if_splits sum.splits)

lemma trim_anys_set: "trim_anys vs = Inr out \<Longrightarrow> set out = {TrimSpace s |s. StringV s \<in> set vs}"
  by (induction vs arbitrary: out) (fastforce simp: rbind_def split: any.splits if_splits sum.splits)+

lemma parse_admits:
  assumes "parseClaimMatcherValue Compile val = Inr m"
  shows "Matcher_Match MatchString m x \<longleftrightarrow> admits Compile MatchString val x"
proof (cases val)
  case (StringsV vs)
  then show ?thesis using assms trim_strings_set
    by (auto simp: parseClaimMatcherValue_def newExactMatcher_set rbind_def split: if_splits sum.splits)
next
  case (AnysV vs)
  then show ?thesis using assms trim_anys_set
    by (auto simp: parseClaimMatcherValue_def newExactMatcher_set rbind_def split: if_splits sum.splits)
qed (use assms in \<open>auto simp: parseClaimMatcherValue_def Let_def split: if_splits option.splits\<close>)

lemma valuesMatchRule_iff: "valuesMatchRule MatchString m vs \<longleftrightarrow> (\<exists>v \<in> set vs. Matcher_Match MatchString m v)"
  by (induction vs) auto

text \<open>A source of claims: what it resolves for a claim depends on the claim only, whatever it keeps.\<close>

locale claim_source =
  fixes resolve :: "'s \<Rightarrow> bytes \<Rightarrow> ('s \<times> bytes list \<times> bool) result"
    and inv :: "'s \<Rightarrow> bool" and vals :: "bytes \<Rightarrow> bytes set"
  assumes resolves: "inv s \<Longrightarrow> (case resolve s c of Inl _ \<Rightarrow> vals c = {}
    | Inr (s', vs, ok) \<Rightarrow> inv s' \<and> vals c = (if ok then set vs else {}))"
begin

lemma accepted:
  "inv s \<Longrightarrow> validateClaimRules MatchString rules resolve s = Inr () \<longleftrightarrow>
     (\<forall>r \<in> set rules. \<exists>v \<in> vals (cr_claim r). Matcher_Match MatchString (cr_m r) v)"
proof (induction rules arbitrary: s)
  case (Cons r rs)
  from resolves [OF Cons.prems, of "cr_claim r"] Cons.IH show ?case
    by (auto simp: rbind_def valuesMatchRule_iff split: sum.splits if_splits)
qed simp

lemma enforced:
  assumes "ParseClaimMatchers Compile raw = Inr rules" "inv s"
  shows "validateClaimRules MatchString rules resolve s = Inr () \<longleftrightarrow>
     (\<forall>(c, v) \<in> set raw. \<exists>x \<in> vals (TrimSpace c). admits Compile MatchString v x)"
proof -
  have "(\<forall>r \<in> set rules. \<exists>v \<in> vals (cr_claim r). Matcher_Match MatchString (cr_m r) v) \<longleftrightarrow>
      (\<forall>(c, v) \<in> set raw. \<exists>x \<in> vals (TrimSpace c). admits Compile MatchString v x)"
    using assms(1)
  proof (induction raw arbitrary: rules)
    case (Cons cv raw)
    obtain c v where cv: "cv = (c, v)" by (cases cv)
    from Cons.prems obtain m rs where m: "parseClaimMatcherValue Compile v = Inr m" "ParseClaimMatchers Compile raw = Inr rs"
      "rules = \<lparr>cr_claim = TrimSpace c, cr_m = m\<rparr> # rs"
      by (auto simp: cv rbind_def split: if_splits sum.splits)
    show ?case using Cons.IH [OF m(2)] parse_admits [OF m(1)] by (simp add: m(3) cv)
  qed simp
  then show ?thesis unfolding accepted [OF assms(2)] .
qed

end

definition jwt_values :: "formats \<Rightarrow> MapClaims \<Rightarrow> bytes \<Rightarrow> bytes set" where
  "jwt_values fm claims c = set (fst (ExtractJWTClaimStrings fm claims c))"

interpretation jwt_claims: claim_source "jwt_resolve fm claims" "\<lambda>_. True" "jwt_values fm claims" for fm claims
  by unfold_locales (auto simp: jwt_resolve_def jwt_values_def ExtractJWTClaimStrings_def split: prod.splits option.splits any.splits)

text \<open>
  C15. A token passes the claim matchers of the configuration exactly when, for every matcher, one of the
  values of its claim is admitted: by the regular expression, or by being one of the listed values
  without surrounding white space. No matcher that was parsed is skipped, and a claim that is missing
  or empty does not pass.
\<close>

theorem jwt_claims_enforced:
  assumes "ParseClaimMatchers Compile raw = Inr rules"
  shows "ValidateJWTClaimRules MatchString fm claims rules = Inr () \<longleftrightarrow>
    (\<forall>(c, v) \<in> set raw. \<exists>x \<in> set (fst (ExtractJWTClaimStrings fm claims (TrimSpace c))). admits Compile MatchString v x)"
  using jwt_claims.enforced [OF assms, where fm = fm and claims = claims and MatchString = MatchString]
  by (simp add: ValidateJWTClaimRules_def jwt_values_def)

text \<open>On ASCII text trimming works on the bytes.\<close>

lemma runes_ascii: "list_all (\<lambda>b. b < 0x80) s \<Longrightarrow> runes s = map (\<lambda>b. (unat b, [b])) s"
proof (induction s)
  case (Cons b s)
  then have "unat b < 128" by (simp add: word_less_nat_alt)
  then have "DecodeRune (b # s) = (unat b, 1)" by (simp add: DecodeRune_def)
  with Cons show ?case by (subst runes.simps) simp
qed (simp add: runes.simps)

lemma TrimSpace_ascii:
  assumes "list_all (\<lambda>b. b < 0x80) s" "s \<noteq> []" "\<not> IsSpace (unat (hd s))" "\<not> IsSpace (unat (last s))"
  shows "TrimSpace s = s"
proof -
  let ?r = "map (\<lambda>b. (unat b, [b])) s"
  have 1: "dropWhile space ?r = ?r" using assms(2,3) by (cases s) (auto simp: space_def)
  obtain ys y where "s = ys @ [y]" using assms(2) by (cases s rule: rev_cases) auto
  then have 2: "dropWhile space (rev ?r) = rev ?r" using assms(4) by (simp add: space_def)
  have "concat (map snd ?r) = s" by (induction s) auto
  then show ?thesis unfolding TrimSpace_def runes_ascii [OF assms(1)] 1 2 by (simp add: unrunes_def)
qed

lemma TrimSpace_nil: "TrimSpace [] = []"
  by (simp add: TrimSpace_def runes.simps unrunes_def)

definition example_raw :: "(bytes \<times> any) list" where
  "example_raw = [(lit '' groups'', AnysV [StringV (lit ''admin ''), StringV (lit ''ops'')])]"

definition example_formats :: formats where
  "example_formats = \<lparr>fm_Sprint = (\<lambda>_. []), fm_whole = (\<lambda>_. []), fm_general = (\<lambda>_. [])\<rparr>"

theorem jwt_claims_enforced_witness:
  "\<exists>rules. ParseClaimMatchers (\<lambda>p. Some p) example_raw = Inr rules \<and>
    ValidateJWTClaimRules (=) example_formats [lit ''groups'' \<mapsto> StringsV [lit ''dev'', lit ''admin'']] rules = Inr () \<and>
    ValidateJWTClaimRules (=) example_formats [lit ''groups'' \<mapsto> StringsV [lit ''dev'']] rules \<noteq> Inr ()"
proof -
  have t: "TrimSpace (lit '' groups'') = lit ''groups''" "TrimSpace (lit ''admin '') = lit ''admin''" "TrimSpace (lit ''ops'') = lit ''ops''"
    "lit ''groups'' \<noteq> []" "lit ''admin'' \<noteq> []" "lit ''ops'' \<noteq> []" "lit ''dev'' \<noteq> lit ''admin''" "lit ''dev'' \<noteq> lit ''ops''"
    by (simp_all add: TrimSpace_def lit_def runes_ascii space_def IsSpace_def unrunes_def)
  obtain rules where rules: "ParseClaimMatchers (\<lambda>p. Some p) example_raw = Inr rules"
    by (simp add: example_raw_def parseClaimMatcherValue_def t)
  show ?thesis
    using rules jwt_claims_enforced [OF rules, of "(=)" example_formats "[lit ''groups'' \<mapsto> StringsV [lit ''dev'', lit ''admin'']]"]
      jwt_claims_enforced [OF rules, of "(=)" example_formats "[lit ''groups'' \<mapsto> StringsV [lit ''dev'']]"] t
    by (auto simp: example_raw_def ExtractJWTClaimStrings_def)
qed

end
