(* ===== verification/Auth_Providers.thy ===== *)
theory Auth_Providers
  imports Auth_Claims
begin

text \<open>
  Access tokens: the frame that carries a token to the server (\<^verbatim>\<open>pkg/auth/jwt/jwt.go\<close>) and the checks of
  the providers whose tokens are opaque (\<^verbatim>\<open>pkg/auth/oauth/google_idp.go\<close>, \<^verbatim>\<open>github_idp.go\<close>). The answers of
  the providers' web services and the clock are arguments.
\<close>

section \<open>The frame of a token\<close>

definition SendToken :: "bytes \<Rightarrow> bytes" where
  "SendToken token = (let tokenLen = length token in [of_nat (tokenLen div 256), of_nat tokenLen] @ token)"

text \<open>The size of the buffer, and what one \<^verbatim>\<open>Read\<close> put into it.\<close>

definition tokenBufferSize :: nat where "tokenBufferSize = 2048"

definition ReadToken :: "bytes result \<Rightarrow> bytes result" where
  "ReadToken r =
     rbind (wrap ''failed to read token length'' r) (\<lambda>buf.
       let n = length buf
       in if n < 2 then Inl (Err ''failed to read token length: short read'')
          else let tokenLen = unat (buf ! 0) * 256 + unat (buf ! 1)
          in if tokenLen > n - 2 then Inl (Err ''failed to read token: short read'')
             else Inr (take tokenLen (drop 2 buf)))"

lemma token_length:
  assumes "length token < 65536"
  shows "unat (of_nat (length token div 256) :: byte) * 256 + unat (of_nat (length token) :: byte) = length token"
  using assms by (simp add: unat_of_nat)



text \<open>The length is sent modulo 65536: of a longer token its first bytes can be accepted as the token.\<close>

lemma long_token_cut:
  assumes "length token = 65536 + m" "m + 2 \<le> tokenBufferSize"
  shows "ReadToken (Inr (take tokenBufferSize (SendToken token))) = Inr (take m token)"
proof -
  have m: "m \<le> 2046" using assms(2) by (simp add: tokenBufferSize_def)
  have "(65536 + m) div 256 = 256 + m div 256" by simp
  then have hi: "unat (of_nat ((65536 + m) div 256) :: byte) = m div 256"
    using m by (simp only: unat_of_nat) simp
  have lo: "unat (of_nat (65536 + m) :: byte) = m mod 256"
    using mod_add_left_eq [of 65536 256 m] by (simp only: unat_of_nat) simp
  define h l :: byte where "h = of_nat ((65536 + m) div 256)" and "l = of_nat (65536 + m)"
  have len: "unat h * 256 + unat l = m" using hi lo by (simp add: h_def l_def)
  have f: "SendToken token = h # l # token" by (simp add: SendToken_def h_def l_def assms(1) Let_def)
  have "take tokenBufferSize (SendToken token) = h # l # take 2046 token"
    unfolding f tokenBufferSize_def by (simp add: take_Cons')
  then show ?thesis using assms(1) m by (simp add: ReadToken_def len Let_def min_def)
qed

section \<open>Google\<close>

text \<open>\<^verbatim>\<open>strconv.ParseInt(s, 10, 64)\<close>.\<close>

definition is_digit :: "byte \<Rightarrow> bool" where
  "is_digit b \<longleftrightarrow> 48 \<le> b \<and> b \<le> 57"

definition ParseInt :: "bytes \<Rightarrow> int option" where
  "ParseInt s =
     (let neg = (s \<noteq> [] \<and> hd s = 45); ds = (if s \<noteq> [] \<and> (hd s = 45 \<or> hd s = 43) then tl s else s);
          v = foldl (\<lambda>n b. 10 * n + (uint b - 48)) 0 ds; i = (if neg then - v else v)
      in if ds = [] \<or> \<not> list_all is_digit ds \<or> i < - (2 ^ 63) \<or> 2 ^ 63 \<le> i then None else Some i)"

text \<open>\<^verbatim>\<open>strings.Fields\<close>.\<close>

fun split_space :: "bytes \<Rightarrow> (nat \<times> bytes) list \<Rightarrow> bytes list" where
  "split_space acc [] = [acc]"
| "split_space acc (r # rs) = (if space r then acc # split_space [] rs else split_space (acc @ snd r) rs)"

definition Fields :: "bytes \<Rightarrow> bytes list" where
  "Fields s = filter (\<lambda>f. f \<noteq> []) (split_space [] (runes s))"

text \<open>\<^verbatim>\<open>strings.ToLower\<close> as far as a comparison with \<^verbatim>\<open>true\<close> and \<^verbatim>\<open>1\<close> needs it: no other letter has one of these as its lower case.\<close>

definition to_lower :: "bytes \<Rightarrow> bytes" where
  "to_lower s = map (\<lambda>b. if 65 \<le> b \<and> b \<le> 90 then b + 32 else b) s"

record googleTokenInfo =
  gi_Azp :: bytes
  gi_Aud :: bytes
  gi_Sub :: bytes
  gi_Scope :: bytes
  gi_Exp :: bytes
  gi_Email :: bytes
  gi_EmailVerified :: bytes
  gi_Error :: bytes

definition googleEmailVerified :: "bytes \<Rightarrow> bool" where
  "googleEmailVerified v = (to_lower (TrimSpace v) \<in> {lit ''true'', lit ''1''})"

text \<open>The answer of the service is whether the status is 200 and the decoded body.\<close>

definition fetchGoogleTokenInfo :: "(bool \<times> googleTokenInfo) result \<Rightarrow> googleTokenInfo result" where
  "fetchGoogleTokenInfo answer =
     rbind answer (\<lambda>(status_ok, info).
       if \<not> status_ok \<or> TrimSpace (gi_Error info) \<noteq> [] then Inl (Err ''oauth: invalid token: google tokeninfo'') else Inr info)"

definition validateGoogleTokenInfo :: "int \<Rightarrow> googleTokenInfo \<Rightarrow> bytes \<Rightarrow> unit result" where
  "validateGoogleTokenInfo now info audience =
     (let exp = TrimSpace (gi_Exp info); aud = TrimSpace audience
      in rbind (if exp = [] then Inr ()
                else case ParseInt exp of
                       None \<Rightarrow> Inl (Err ''oauth: invalid token: google tokeninfo invalid exp'')
                     | Some sec \<Rightarrow> if now \<ge> sec then Inl (Err ''oauth: invalid token: google access token expired'') else Inr ())
         (\<lambda>_. if aud \<noteq> [] \<and> TrimSpace (gi_Aud info) \<noteq> aud \<and> TrimSpace (gi_Azp info) \<noteq> aud
              then Inl (Err ''oauth: invalid token: google tokeninfo aud/azp mismatch'') else Inr ()))"

definition trimmed :: "bytes \<Rightarrow> (unit \<times> bytes list \<times> bool) result" where
  "trimmed f = (let v = TrimSpace f in if v = [] then Inr ((), [], False) else Inr ((), [v], True))"

definition googleTokenInfoClaimValues :: "googleTokenInfo \<Rightarrow> unit \<Rightarrow> bytes \<Rightarrow> (unit \<times> bytes list \<times> bool) result" where
  "googleTokenInfoClaimValues info s claim0 =
     (let claim = TrimSpace claim0
      in if claim = lit ''email'' then
           (if TrimSpace (gi_Email info) = [] \<or> \<not> googleEmailVerified (gi_EmailVerified info) then Inr ((), [], False)
            else Inr ((), [TrimSpace (gi_Email info)], True))
         else if claim = lit ''email_verified'' then trimmed (gi_EmailVerified info)
         else if claim = lit ''sub'' then trimmed (gi_Sub info)
         else if claim = lit ''aud'' then trimmed (gi_Aud info)
         else if claim = lit ''azp'' then trimmed (gi_Azp info)
         else if claim = lit ''scope'' then
           (let scopes = Fields (gi_Scope info) in if scopes = [] then Inr ((), [], False) else Inr ((), scopes, True))
         else Inl (Err ''oauth: invalid token: google opaque: unsupported claim''))"

definition google_verifyOpaque ::
    "('re \<Rightarrow> bytes \<Rightarrow> bool) \<Rightarrow> int \<Rightarrow> bytes \<Rightarrow> (bytes \<Rightarrow> (bool \<times> googleTokenInfo) result) \<Rightarrow> bytes \<Rightarrow> 're ClaimRule list \<Rightarrow> unit result" where
  "google_verifyOpaque MatchString now audience tokeninfo token0 rules =
     (let token = TrimSpace token0
      in if token = [] then Inl (Err ''oauth: invalid token: empty token'')
         else rbind (fetchGoogleTokenInfo (tokeninfo token)) (\<lambda>info.
           rbind (validateGoogleTokenInfo now info audience) (\<lambda>_.
             if rules = [] then Inr ()
             else validateClaimRules MatchString rules (googleTokenInfoClaimValues info) ())))"

section \<open>GitHub\<close>

record githubEmailEntry =
  ge_Email :: bytes
  ge_Primary :: bool
  ge_Verified :: bool

record githubUserPayload =
  gu_Login :: bytes
  gu_ID :: int
  gu_Name :: bytes

fun verified_primary :: "githubEmailEntry list \<Rightarrow> unit result" where
  "verified_primary [] = Inl (Err ''oauth: invalid token: no verified primary email from github'')"
| "verified_primary (e # es) =
     (if \<not> ge_Primary e then verified_primary es
      else if \<not> ge_Verified e then Inl (Err ''oauth: invalid token: github primary email is not verified'')
      else if TrimSpace (ge_Email e) \<noteq> [] then Inr ()
      else Inl (Err ''oauth: invalid token: no verified primary email from github''))"

text \<open>The cache holds an answer once it has been fetched; a failed request ends the validation.\<close>

record githubAPIClaimCache =
  gc_emails :: "githubEmailEntry list option"
  gc_user :: "githubUserPayload option"

definition github_emails :: "githubEmailEntry list result \<Rightarrow> githubAPIClaimCache \<Rightarrow> (githubAPIClaimCache \<times> githubEmailEntry list) result" where
  "github_emails fetch c =
     (case gc_emails c of Some es \<Rightarrow> Inr (c, es) | None \<Rightarrow> rbind fetch (\<lambda>es. Inr (c\<lparr>gc_emails := Some es\<rparr>, es)))"

definition ensureUser :: "githubUserPayload result \<Rightarrow> githubAPIClaimCache \<Rightarrow> (githubAPIClaimCache \<times> githubUserPayload) result" where
  "ensureUser fetch c =
     (case gc_user c of Some u \<Rightarrow> Inr (c, u) | None \<Rightarrow> rbind fetch (\<lambda>u. Inr (c\<lparr>gc_user := Some u\<rparr>, u)))"

definition verified_emails :: "githubEmailEntry list \<Rightarrow> bytes list" where
  "verified_emails es = map (\<lambda>e. TrimSpace (ge_Email e)) (filter (\<lambda>e. ge_Verified e \<and> TrimSpace (ge_Email e) \<noteq> []) es)"

definition resolveClaimValues :: "githubEmailEntry list result \<Rightarrow> githubUserPayload result \<Rightarrow> githubAPIClaimCache \<Rightarrow> bytes
    \<Rightarrow> (githubAPIClaimCache \<times> bytes list \<times> bool) result" where
  "resolveClaimValues emails user c claim0 =
     (let claim = TrimSpace claim0
      in if claim = lit ''email'' then
           rbind (github_emails emails c) (\<lambda>(c', es).
             let out = verified_emails es in if out = [] then Inr (c', [], False) else Inr (c', out, True))
         else if claim = lit ''login'' then
           rbind (ensureUser user c) (\<lambda>(c', u). if TrimSpace (gu_Login u) = [] then Inr (c', [], False) else Inr (c', [gu_Login u], True))
         else if claim = lit ''name'' then
           rbind (ensureUser user c) (\<lambda>(c', u). if TrimSpace (gu_Name u) = [] then Inr (c', [], False) else Inr (c', [TrimSpace (gu_Name u)], True))
         else if claim = lit ''id'' \<or> claim = lit ''sub'' then
           rbind (ensureUser user c) (\<lambda>(c', u). Inr (c', [lit (show_int (gu_ID u))], True))
         else Inl (Err ''oauth: invalid token: github opaque: unsupported claim''))"

text \<open>\<open>first\<close> answers the request for the primary address, \<open>emails\<close> and \<open>user\<close> the requests of the cache.\<close>

definition github_verifyOpaque ::
    "('re \<Rightarrow> bytes \<Rightarrow> bool) \<Rightarrow> (bytes \<Rightarrow> githubEmailEntry list result) \<Rightarrow> (bytes \<Rightarrow> githubEmailEntry list result)
      \<Rightarrow> (bytes \<Rightarrow> githubUserPayload result) \<Rightarrow> bytes \<Rightarrow> 're ClaimRule list \<Rightarrow> unit result" where
  "github_verifyOpaque MatchString first emails user token0 rules =
     (let token = TrimSpace token0
      in if token = [] then Inl (Err ''oauth: invalid token: empty token'')
         else rbind (first token) (\<lambda>entries.
           rbind (verified_primary entries) (\<lambda>_.
             if rules = [] then Inr ()
             else validateClaimRules MatchString rules (resolveClaimValues (emails token) (user token)) \<lparr>gc_emails = None, gc_user = None\<rparr>)))"

section \<open>The providers as sources of claims\<close>

definition google_values :: "googleTokenInfo \<Rightarrow> bytes \<Rightarrow> bytes set" where
  "google_values info c = (case googleTokenInfoClaimValues info () c of Inr (_, vs, True) \<Rightarrow> set vs | _ \<Rightarrow> {})"

interpretation google_claims: claim_source "googleTokenInfoClaimValues info" "\<lambda>_. True" "google_values info" for info
  by unfold_locales (auto simp: google_values_def split: sum.splits prod.splits bool.splits)

definition empty_cache :: githubAPIClaimCache where
  "empty_cache = \<lparr>gc_emails = None, gc_user = None\<rparr>"

definition github_values :: "githubEmailEntry list result \<Rightarrow> githubUserPayload result \<Rightarrow> bytes \<Rightarrow> bytes set" where
  "github_values emails user c = (case resolveClaimValues emails user empty_cache c of Inr (_, vs, True) \<Rightarrow> set vs | _ \<Rightarrow> {})"

definition cache_ok :: "githubEmailEntry list result \<Rightarrow> githubUserPayload result \<Rightarrow> githubAPIClaimCache \<Rightarrow> bool" where
  "cache_ok emails user c \<longleftrightarrow> (\<forall>es. gc_emails c = Some es \<longrightarrow> emails = Inr es) \<and> (\<forall>u. gc_user c = Some u \<longrightarrow> user = Inr u)"

lemma github_emails_ok: "cache_ok emails user c \<Longrightarrow> github_emails emails c =
    (case emails of Inl e \<Rightarrow> Inl e | Inr es \<Rightarrow> Inr (c\<lparr>gc_emails := Some es\<rparr>, es))"
  by (cases c) (auto simp: cache_ok_def github_emails_def rbind_def split: option.splits sum.splits)

lemma ensureUser_ok: "cache_ok emails user c \<Longrightarrow> ensureUser user c =
    (case user of Inl e \<Rightarrow> Inl e | Inr u \<Rightarrow> Inr (c\<lparr>gc_user := Some u\<rparr>, u))"
  by (cases c) (auto simp: cache_ok_def ensureUser_def rbind_def split: option.splits sum.splits)

lemma cache_ok_empty: "cache_ok emails user empty_cache"
  by (simp add: cache_ok_def empty_cache_def)

lemma claim_names:
  "lit ''login'' \<noteq> lit ''email''" "lit ''name'' \<noteq> lit ''email''" "lit ''id'' \<noteq> lit ''email''" "lit ''sub'' \<noteq> lit ''email''"
  "lit ''name'' \<noteq> lit ''login''" "lit ''id'' \<noteq> lit ''login''" "lit ''sub'' \<noteq> lit ''login''"
  "lit ''id'' \<noteq> lit ''name''" "lit ''sub'' \<noteq> lit ''name''"
  by (simp_all add: lit_def)

interpretation github_claims: claim_source "resolveClaimValues emails user" "cache_ok emails user" "github_values emails user" for emails user
proof unfold_locales
  fix s c assume ok: "cache_ok emails user s"
  show "case resolveClaimValues emails user s c of Inl _ \<Rightarrow> github_values emails user c = {}
      | Inr (s', vs, ok) \<Rightarrow> cache_ok emails user s' \<and> github_values emails user c = (if ok then set vs else {})"
  proof -
    note defs = resolveClaimValues_def github_values_def Let_def github_emails_ok [OF ok] ensureUser_ok [OF ok]
      github_emails_ok [OF cache_ok_empty] ensureUser_ok [OF cache_ok_empty]
    consider "TrimSpace c = lit ''email''" | "TrimSpace c = lit ''login''" | "TrimSpace c = lit ''name''"
      | "TrimSpace c = lit ''id'' \<or> TrimSpace c = lit ''sub''"
      | "TrimSpace c \<notin> {lit ''email'', lit ''login'', lit ''name'', lit ''id'', lit ''sub''}" by blast
    then show ?thesis
    proof cases
      case 1
      then show ?thesis unfolding defs using ok by (cases emails) (simp_all add: cache_ok_def)
    next
      case 2
      then show ?thesis unfolding defs using ok by (cases user) (simp_all add: cache_ok_def claim_names)
    next
      case 3
      then show ?thesis unfolding defs using ok by (cases user) (simp_all add: cache_ok_def claim_names)
    next
      case 4
      then show ?thesis unfolding defs using ok by (cases user) (elim disjE; simp add: cache_ok_def claim_names)+
    next
      case 5
      then show ?thesis unfolding defs by simp
    qed
  qed
qed

end
