(* ===== verification/Auth_Server.thy ===== *)
theory Auth_Server
  imports Auth_Providers
begin

text \<open>
  The server side of OAuth authentication (\<^verbatim>\<open>pkg/auth/oauth/server.go\<close>, \<^verbatim>\<open>config.go\<close>, \<^verbatim>\<open>discovery.go\<close>,
  \<^verbatim>\<open>opaque_token.go\<close>, \<^verbatim>\<open>token_shape.go\<close>, \<^verbatim>\<open>jwt_access_token.go\<close>): which check applies to a token, and what an
  accepted token is known to satisfy.
\<close>

record Config =
  cf_IssuerURL :: bytes
  cf_ClientID :: bytes
  cf_ExpectedAudience :: bytes
  cf_ClockSkew :: int
  cf_ClaimMatchers :: "(bytes \<times> any) list"

record ProviderMetadata =
  md_Issuer :: bytes
  md_JWKSURI :: bytes

definition EffectiveAudience :: "Config \<Rightarrow> bytes" where
  "EffectiveAudience c = (if TrimSpace (cf_ExpectedAudience c) \<noteq> [] then TrimSpace (cf_ExpectedAudience c) else TrimSpace (cf_ClientID c))"

text \<open>In nanoseconds.\<close>

definition ClockSkewOrDefault :: "Config \<Rightarrow> int" where
  "ClockSkewOrDefault c = (if cf_ClockSkew c > 0 then cf_ClockSkew c else 30 * 1000000000)"

definition ValidateForServer :: "(bytes \<Rightarrow> 're option) \<Rightarrow> Config \<Rightarrow> unit result" where
  "ValidateForServer Compile c =
     (if TrimSpace (cf_IssuerURL c) = [] then Inl (Err ''oauth: IssuerURL is required'')
      else rbind (ParseClaimMatchers Compile (cf_ClaimMatchers c)) (\<lambda>_. Inr ()))"

definition NormalizeIssuer :: "bytes \<Rightarrow> bytes" where
  "NormalizeIssuer issuer = (let s = TrimSpace issuer in if s \<noteq> [] \<and> last s = 47 then butlast s else s)"

definition issuerMatchesDiscovery :: "bytes \<Rightarrow> bytes \<Rightarrow> bool" where
  "issuerMatchesDiscovery cfgIss docIss = (cfgIss = docIss)"

definition IssuerGoogle :: bytes where "IssuerGoogle = lit ''https://accounts.google.com''"
definition IssuerGitHub :: bytes where "IssuerGitHub = lit ''https://github.com/login/oauth''"

datatype opaqueVerifier = GitHubOpaque | GoogleOpaque bytes

definition opaqueVerifierForIssuer :: "Config \<Rightarrow> ProviderMetadata \<Rightarrow> opaqueVerifier option" where
  "opaqueVerifierForIssuer cfg meta =
     (let cfgIss = NormalizeIssuer (cf_IssuerURL cfg); docIss = NormalizeIssuer (md_Issuer meta)
      in if \<not> issuerMatchesDiscovery cfgIss docIss then None
         else if docIss = NormalizeIssuer IssuerGitHub then Some GitHubOpaque
         else if docIss = NormalizeIssuer IssuerGoogle then Some (GoogleOpaque (EffectiveAudience cfg))
         else None)"

fun split_dot :: "bytes \<Rightarrow> bytes \<Rightarrow> bytes list" where
  "split_dot acc [] = [acc]"
| "split_dot acc (b # s) = (if b = 46 then acc # split_dot [] s else split_dot (acc @ [b]) s)"

definition tokenLooksLikeJWT :: "bytes \<Rightarrow> bool" where
  "tokenLooksLikeJWT s = (let parts = split_dot [] (TrimSpace s) in length parts = 3 \<and> list_all (\<lambda>p. p \<noteq> []) parts)"

text \<open>What the outside world answers; a request is made with the token it is about.\<close>

record 'ks world =
  wd_now :: int
  wd_first :: "bytes \<Rightarrow> githubEmailEntry list result"
  wd_emails :: "bytes \<Rightarrow> githubEmailEntry list result"
  wd_user :: "bytes \<Rightarrow> githubUserPayload result"
  wd_tokeninfo :: "bytes \<Rightarrow> (bool \<times> googleTokenInfo) result"
  wd_jwks :: "bytes \<Rightarrow> 'ks result"
  wd_ParseWithClaims :: "'ks \<Rightarrow> bytes \<Rightarrow> int \<Rightarrow> bytes \<Rightarrow> (bool \<times> MapClaims option) result"

definition audienceContains :: "formats \<Rightarrow> MapClaims \<Rightarrow> bytes \<Rightarrow> bool" where
  "audienceContains fm claims want =
     (let (vals, ok) = ExtractJWTClaimStrings fm claims (lit ''aud'') in ok \<and> want \<in> set vals)"

definition verifyAccessTokenJWT :: "formats \<Rightarrow> 'ks world \<Rightarrow> bytes \<Rightarrow> bytes \<Rightarrow> bytes \<Rightarrow> 'ks \<Rightarrow> int \<Rightarrow> MapClaims result" where
  "verifyAccessTokenJWT fm w raw issuer audience keySet leeway =
     rbind (wrap ''oauth: invalid token'' (wd_ParseWithClaims w keySet issuer leeway raw)) (\<lambda>(valid, claims).
       case claims of
         None \<Rightarrow> Inl (Err ''oauth: invalid token'')
       | Some cl \<Rightarrow>
           if \<not> valid then Inl (Err ''oauth: invalid token'')
           else if \<not> audienceContains fm cl audience then Inl (Err ''oauth: invalid token: aud mismatch'')
           else Inr cl)"

record ('re, 'ks) ServerAuthenticator =
  sa_cfg :: Config
  sa_meta :: ProviderMetadata
  sa_opaqueVerifier :: "opaqueVerifier option"
  sa_claimRules :: "'re ClaimRule list"
  sa_expectedIss :: bytes
  sa_keySet :: "'ks option"

definition NewServerAuthenticator ::
    "(bytes \<Rightarrow> 're option) \<Rightarrow> 'ks world \<Rightarrow> ProviderMetadata result \<Rightarrow> Config \<Rightarrow> ('re, 'ks) ServerAuthenticator result" where
  "NewServerAuthenticator Compile w fetched cfg =
     rbind (ValidateForServer Compile cfg) (\<lambda>_.
     rbind fetched (\<lambda>meta.
     if \<not> issuerMatchesDiscovery (NormalizeIssuer (cf_IssuerURL cfg)) (NormalizeIssuer (md_Issuer meta))
     then Inl (Err ''oauth: issuer mismatch'')
     else rbind (ParseClaimMatchers Compile (cf_ClaimMatchers cfg)) (\<lambda>rules.
       let opaque = opaqueVerifierForIssuer cfg meta; jwks = TrimSpace (md_JWKSURI meta)
       in rbind (if jwks \<noteq> [] then rbind (wd_jwks w jwks) (\<lambda>ks. Inr (Some ks)) else Inr None) (\<lambda>keySet.
            if opaque = None \<and> (case keySet of None \<Rightarrow> True | Some _ \<Rightarrow> False) then Inl (Err ''oauth: no token verification method'')
            else if opaque = None \<and> EffectiveAudience cfg = [] then Inl (Err ''oauth: ClientID or ExpectedAudience is required'')
            else Inr \<lparr>sa_cfg = cfg, sa_meta = meta, sa_opaqueVerifier = opaque, sa_claimRules = rules,
                   sa_expectedIss = md_Issuer meta, sa_keySet = keySet\<rparr>))))"

definition tryVerify ::
    "('re \<Rightarrow> bytes \<Rightarrow> bool) \<Rightarrow> formats \<Rightarrow> 'ks world \<Rightarrow> bytes \<Rightarrow> bytes \<Rightarrow> ('re, 'ks) ServerAuthenticator \<Rightarrow> 'ks \<Rightarrow> unit result" where
  "tryVerify MatchString fm w raw aud a ks =
     rbind (verifyAccessTokenJWT fm w raw (sa_expectedIss a) aud ks (ClockSkewOrDefault (sa_cfg a))) (\<lambda>claims.
       ValidateJWTClaimRules MatchString fm claims (sa_claimRules a))"

definition verifyJWT ::
    "('re \<Rightarrow> bytes \<Rightarrow> bool) \<Rightarrow> formats \<Rightarrow> 'ks world \<Rightarrow> bytes \<Rightarrow> 'ks \<Rightarrow> ('re, 'ks) ServerAuthenticator
      \<Rightarrow> ('re, 'ks) ServerAuthenticator \<times> unit result" where
  "verifyJWT MatchString fm w raw ks a =
     (let aud = EffectiveAudience (sa_cfg a)
      in if aud = [] then (a, Inl (Err ''oauth: invalid token: ClientID or ExpectedAudience is required''))
         else case tryVerify MatchString fm w raw aud a ks of
                Inr u \<Rightarrow> (a, Inr u)
              | Inl firstErr \<Rightarrow>
                  let jwksURI = TrimSpace (md_JWKSURI (sa_meta a))
                  in if jwksURI = [] then (a, Inl firstErr)
                     else case wd_jwks w jwksURI of
                            Inl _ \<Rightarrow> (a, Inl firstErr)
                          | Inr newSet \<Rightarrow>
                              let a' = a\<lparr>sa_keySet := Some newSet\<rparr> in (a', tryVerify MatchString fm w raw aud a' newSet))"

text \<open>\<open>r\<close> is what the read of the token returns.\<close>

definition Authenticate ::
    "('re \<Rightarrow> bytes \<Rightarrow> bool) \<Rightarrow> formats \<Rightarrow> 'ks world \<Rightarrow> bytes result \<Rightarrow> ('re, 'ks) ServerAuthenticator
      \<Rightarrow> ('re, 'ks) ServerAuthenticator \<times> unit result" where
  "Authenticate MatchString fm w r a =
     (case ReadToken r of
        Inl e \<Rightarrow> (a, Inl e)
      | Inr tok \<Rightarrow>
          let raw = TrimSpace tok
          in if raw = [] then (a, Inl (Err ''oauth: invalid token''))
             else case sa_opaqueVerifier a of
                    Some GitHubOpaque \<Rightarrow> (a, github_verifyOpaque MatchString (wd_first w) (wd_emails w) (wd_user w) raw (sa_claimRules a))
                  | Some (GoogleOpaque audience) \<Rightarrow>
                      (a, google_verifyOpaque MatchString (wd_now w) audience (wd_tokeninfo w) raw (sa_claimRules a))
                  | None \<Rightarrow>
                      (case sa_keySet a of
                         Some ks \<Rightarrow> if tokenLooksLikeJWT raw then verifyJWT MatchString fm w raw ks a
                           else (a, Inl (Err ''oauth: invalid token: opaque access token not supported''))
                       | None \<Rightarrow> (a, Inl (Err ''oauth: invalid token: no applicable method''))))"

section \<open>What an accepted token satisfies\<close>

definition satisfied :: "(bytes \<Rightarrow> 're option) \<Rightarrow> ('re \<Rightarrow> bytes \<Rightarrow> bool) \<Rightarrow> (bytes \<times> any) list \<Rightarrow> (bytes \<Rightarrow> bytes set) \<Rightarrow> bool" where
  "satisfied Compile MatchString raw vals \<longleftrightarrow> (\<forall>(c, v) \<in> set raw. \<exists>x \<in> vals (TrimSpace c). admits Compile MatchString v x)"

lemma no_rules: "ParseClaimMatchers Compile raw = Inr [] \<Longrightarrow> raw = []"
  by (cases raw) (auto simp: rbind_def split: if_splits sum.splits)

lemma google_sound:
  assumes "ParseClaimMatchers Compile raw = Inr rules" "google_verifyOpaque MatchString now audience tokeninfo token rules = Inr ()"
  shows "\<exists>info. tokeninfo (TrimSpace token) = Inr (True, info) \<and>
    (TrimSpace (gi_Exp info) \<noteq> [] \<longrightarrow> (\<exists>sec. ParseInt (TrimSpace (gi_Exp info)) = Some sec \<and> now < sec)) \<and>
    (TrimSpace audience \<noteq> [] \<longrightarrow> TrimSpace audience \<in> {TrimSpace (gi_Aud info), TrimSpace (gi_Azp info)}) \<and>
    satisfied Compile MatchString raw (google_values info)"
proof -
  from assms(2) obtain info where info: "fetchGoogleTokenInfo (tokeninfo (TrimSpace token)) = Inr info"
    "validateGoogleTokenInfo now info audience = Inr ()"
    "rules = [] \<or> validateClaimRules MatchString rules (googleTokenInfoClaimValues info) () = Inr ()"
    by (auto simp: google_verifyOpaque_def Let_def rbind_def split: if_splits sum.splits)
  have "tokeninfo (TrimSpace token) = Inr (True, info)"
    using info(1) by (auto simp: fetchGoogleTokenInfo_def rbind_def split: sum.splits if_splits)
  moreover have "satisfied Compile MatchString raw (google_values info)"
    using info(3) google_claims.enforced [OF assms(1), where info = info and MatchString = MatchString] no_rules assms(1)
    by (auto simp: satisfied_def)
  ultimately show ?thesis
    using info(2) by (auto simp: validateGoogleTokenInfo_def Let_def rbind_def split: if_splits sum.splits option.splits)
qed

lemma verified_primary_entry:
  "verified_primary es = Inr () \<Longrightarrow> \<exists>e \<in> set es. ge_Primary e \<and> ge_Verified e \<and> TrimSpace (ge_Email e) \<noteq> []"
  by (induction es) (auto split: if_splits)

lemma github_sound:
  assumes "ParseClaimMatchers Compile raw = Inr rules" "github_verifyOpaque MatchString first emails user token rules = Inr ()"
  shows "(\<exists>es. first (TrimSpace token) = Inr es \<and> (\<exists>e \<in> set es. ge_Primary e \<and> ge_Verified e \<and> TrimSpace (ge_Email e) \<noteq> [])) \<and>
    satisfied Compile MatchString raw (github_values (emails (TrimSpace token)) (user (TrimSpace token)))"
proof -
  let ?t = "TrimSpace token"
  from assms(2) obtain es where es: "first ?t = Inr es" "verified_primary es = Inr ()"
    "rules = [] \<or> validateClaimRules MatchString rules (resolveClaimValues (emails ?t) (user ?t)) empty_cache = Inr ()"
    by (auto simp: github_verifyOpaque_def empty_cache_def Let_def rbind_def split: if_splits sum.splits)
  have "satisfied Compile MatchString raw (github_values (emails ?t) (user ?t))"
    using es(3) github_claims.enforced [OF assms(1) cache_ok_empty, of MatchString "emails ?t" "user ?t"] no_rules assms(1)
    by (auto simp: satisfied_def)
  then show ?thesis using es(1) verified_primary_entry [OF es(2)] by blast
qed

definition jwt_ok ::
    "(bytes \<Rightarrow> 're option) \<Rightarrow> ('re \<Rightarrow> bytes \<Rightarrow> bool) \<Rightarrow> formats \<Rightarrow> 'ks world \<Rightarrow> Config \<Rightarrow> ProviderMetadata \<Rightarrow> bytes \<Rightarrow> 'ks \<Rightarrow> bool" where
  "jwt_ok Compile MatchString fm w cfg meta raw ks \<longleftrightarrow>
     (\<exists>claims. wd_ParseWithClaims w ks (md_Issuer meta) (ClockSkewOrDefault cfg) raw = Inr (True, Some claims) \<and>
        EffectiveAudience cfg \<noteq> [] \<and> EffectiveAudience cfg \<in> jwt_values fm claims (lit ''aud'') \<and>
        satisfied Compile MatchString (cf_ClaimMatchers cfg) (jwt_values fm claims))"

lemma tryVerify_sound:
  assumes "ParseClaimMatchers Compile (cf_ClaimMatchers (sa_cfg a)) = Inr (sa_claimRules a)"
    "sa_expectedIss a = md_Issuer meta" "EffectiveAudience (sa_cfg a) \<noteq> []"
    "tryVerify MatchString fm w raw (EffectiveAudience (sa_cfg a)) a ks = Inr ()"
  shows "jwt_ok Compile MatchString fm w (sa_cfg a) meta raw ks"
proof -
  from assms(4) obtain claims where c:
    "verifyAccessTokenJWT fm w raw (sa_expectedIss a) (EffectiveAudience (sa_cfg a)) ks (ClockSkewOrDefault (sa_cfg a)) = Inr claims"
    "ValidateJWTClaimRules MatchString fm claims (sa_claimRules a) = Inr ()"
    by (auto simp: tryVerify_def rbind_def split: sum.splits)
  have "satisfied Compile MatchString (cf_ClaimMatchers (sa_cfg a)) (jwt_values fm claims)"
    using c(2) jwt_claims.enforced [OF assms(1), where fm = fm and claims = claims and MatchString = MatchString]
    by (simp add: ValidateJWTClaimRules_def satisfied_def)
  moreover have "wd_ParseWithClaims w ks (md_Issuer meta) (ClockSkewOrDefault (sa_cfg a)) raw = Inr (True, Some claims)"
    "audienceContains fm claims (EffectiveAudience (sa_cfg a))"
    using c(1) assms(2) by (auto simp: verifyAccessTokenJWT_def rbind_def wrap_Inr_iff split: sum.splits option.splits if_splits)
  ultimately show ?thesis using assms(3) by (auto simp: jwt_ok_def audienceContains_def jwt_values_def split: prod.splits)
qed

lemma tryVerify_keySet: "tryVerify MatchString fm w raw aud (a\<lparr>sa_keySet := k\<rparr>) ks = tryVerify MatchString fm w raw aud a ks"
  by (simp add: tryVerify_def)

lemma verifyJWT_sound:
  assumes "ParseClaimMatchers Compile (cf_ClaimMatchers (sa_cfg a)) = Inr (sa_claimRules a)" "sa_expectedIss a = md_Issuer (sa_meta a)"
    "verifyJWT MatchString fm w raw ks a = (a', Inr ())"
  shows "\<exists>ks'. (ks' = ks \<or> wd_jwks w (TrimSpace (md_JWKSURI (sa_meta a))) = Inr ks') \<and>
    jwt_ok Compile MatchString fm w (sa_cfg a) (sa_meta a) raw ks'"
proof -
  have aud: "EffectiveAudience (sa_cfg a) \<noteq> []" using assms(3) by (auto simp: verifyJWT_def Let_def split: if_splits)
  have "tryVerify MatchString fm w raw (EffectiveAudience (sa_cfg a)) a ks = Inr () \<or>
      (\<exists>ks'. wd_jwks w (TrimSpace (md_JWKSURI (sa_meta a))) = Inr ks' \<and> tryVerify MatchString fm w raw (EffectiveAudience (sa_cfg a)) a ks' = Inr ())"
    using assms(3) by (auto simp: verifyJWT_def Let_def tryVerify_keySet split: if_splits sum.splits)
  then show ?thesis using tryVerify_sound [OF assms(1,2) aud] by blast
qed


definition example_config :: Config where
  "example_config = \<lparr>cf_IssuerURL = lit ''https://id'', cf_ClientID = lit ''pig'', cf_ExpectedAudience = [], cf_ClockSkew = 0, cf_ClaimMatchers = []\<rparr>"

definition example_meta :: ProviderMetadata where
  "example_meta = \<lparr>md_Issuer = lit ''https://id'', md_JWKSURI = lit ''k''\<rparr>"

definition example_world :: "unit world" where
  "example_world = \<lparr>wd_now = 0, wd_first = (\<lambda>_. Inl Panic), wd_emails = (\<lambda>_. Inl Panic), wd_user = (\<lambda>_. Inl Panic),
     wd_tokeninfo = (\<lambda>_. Inl Panic), wd_jwks = (\<lambda>_. Inr ()),
     wd_ParseWithClaims = (\<lambda>_ _ _ _. Inr (True, Some [lit ''aud'' \<mapsto> StringV (lit ''pig'')]))\<rparr>"

lemma example_trim:
  "TrimSpace (lit ''https://id'') = lit ''https://id''" "TrimSpace (lit ''pig'') = lit ''pig''" "TrimSpace (lit ''k'') = lit ''k''"
  "TrimSpace (lit ''a.b.c'') = lit ''a.b.c''"
  "TrimSpace IssuerGitHub = IssuerGitHub" "TrimSpace IssuerGoogle = IssuerGoogle"
  by (rule TrimSpace_ascii; simp add: lit_def IsSpace_def IssuerGitHub_def IssuerGoogle_def)+

lemma example_issuers:
  "NormalizeIssuer (lit ''https://id'') = lit ''https://id''" "NormalizeIssuer IssuerGitHub = IssuerGitHub" "NormalizeIssuer IssuerGoogle = IssuerGoogle"
  "lit ''https://id'' \<noteq> IssuerGitHub" "lit ''https://id'' \<noteq> IssuerGoogle"
proof -
  have l: "last (lit ''https://id'') \<noteq> 47" "last IssuerGitHub \<noteq> 47" "last IssuerGoogle \<noteq> 47"
    by (simp_all add: lit_def IssuerGitHub_def IssuerGoogle_def)
  show "NormalizeIssuer (lit ''https://id'') = lit ''https://id''" "NormalizeIssuer IssuerGitHub = IssuerGitHub" "NormalizeIssuer IssuerGoogle = IssuerGoogle"
    unfolding NormalizeIssuer_def example_trim Let_def using l by simp_all
  have "length (lit ''https://id'') \<noteq> length IssuerGitHub" "length (lit ''https://id'') \<noteq> length IssuerGoogle"
    by (simp_all add: lit_def IssuerGitHub_def IssuerGoogle_def)
  then show "lit ''https://id'' \<noteq> IssuerGitHub" "lit ''https://id'' \<noteq> IssuerGoogle" by metis+
qed

lemma example_opaque: "opaqueVerifierForIssuer example_config example_meta = None"
  by (simp add: opaqueVerifierForIssuer_def example_config_def example_meta_def example_issuers Let_def)

lemma example_fields:
  "cf_IssuerURL example_config = lit ''https://id''" "cf_ClaimMatchers example_config = []" "EffectiveAudience example_config = lit ''pig''"
  "md_Issuer example_meta = lit ''https://id''" "md_JWKSURI example_meta = lit ''k''" "wd_jwks example_world u = Inr ()"
  "wd_ParseWithClaims example_world () i l t = Inr (True, Some [lit ''aud'' \<mapsto> StringV (lit ''pig'')])"
  by (simp_all add: example_config_def example_meta_def example_world_def EffectiveAudience_def example_trim TrimSpace_nil)

lemma example_nonempty: "lit ''https://id'' \<noteq> []" "lit ''pig'' \<noteq> []" "lit ''k'' \<noteq> []" "lit ''a.b.c'' \<noteq> []"
  by (simp_all add: lit_def)


end
