(* ===== verification/Spec2Isabelle.thy ===== *)
theory Spec2Isabelle
  imports Route_Lookup Icmp_Reno Stun_Agent Stun_Server Net_Update Tunnel_Icmp Queue_Fifo Server_Clients Demux_Io Auth_Server
begin

text \<open>
  Verification of \<^verbatim>\<open>pig\<close>, a user-space VPN that tunnels IP packets over several transports.

  The program reads IP packets from a TUN device, batches them and writes them to a transport
  (ICMP echo, UDP, streams); the peer splits the batches again. Around this path stand a route
  table, an address pool and a demultiplexer for the server, a connection tracker for the
  client, queues with early drop, checksum and header code, and a STUN stack for NAT traversal.

  Theories:
  \<^item> \<open>Prelude\<close>: outcomes, byte slices, big-endian integers, Go's \<^verbatim>\<open>net\<close> types, and the locale
    \<open>data_refinement\<close> that lifts a one-step refinement to every sequence of operations.
  \<^item> \<open>Net_Prefix\<close>: masks and network prefixes as numbers.
  \<^item> \<open>Route_Table\<close>, \<open>Route_Lookup\<close>: \<^verbatim>\<open>pkg/route\<close>.
\<close>

end
